(* ===== verification/Jig_Prelude.thy ===== *)
theory Jig_Prelude
  imports Main
    "HOL-Library.Word"
    "HOL-Library.Multiset"
    "HOL-Library.Char_ord"
    "HOL-Library.List_Lexorder"
    "HOL-Library.Product_Lexorder"
    "HOL-Library.Option_ord"
begin

text \<open>
  The part of Rust and of its standard library that the crates of this
  repository use, shared by every component theory.

  \<^item> A Rust \<open>String\<close> or \<open>&str\<close> is the list of its UTF-8 bytes, a \<^typ>\<open>string\<close>;
    \<open>len()\<close> is \<^const>\<open>length\<close> and the derived order is the byte-wise lexicographic
    order of \<open>List_Lexorder\<close>.
  \<^item> \<open>u64\<close> is a 64-bit word; \<open>saturating_add\<close>, \<open>saturating_sub\<close> and \<open>checked_add\<close>
    are written out.
  \<^item> \<open>Result<T, E>\<close> is the sum \<open>'e + 't\<close>, with \<^const>\<open>Inl\<close> the error.
  \<^item> \<open>str::split\<close>, \<open>str::trim\<close>, \<open>char::is_control\<close>, \<open>str::from_utf8\<close> and the decimal
    \<open>Display\<close> of integers are functions on byte lists.
\<close>

named_theorems rust_arith \<open>unsigned values of the 64-bit operations\<close>
named_theorems str_simps \<open>splitting and joining of strings\<close>

section \<open>Unsigned 64-bit integers\<close>

type_synonym u64 = "64 word"

definition u64_MAX :: u64 where
  "u64_MAX = -1"

definition u64_sat_add :: "u64 \<Rightarrow> u64 \<Rightarrow> u64" where
  "u64_sat_add a b = (if unat a + unat b < 2 ^ 64 then a + b else u64_MAX)"

definition u64_sat_sub :: "u64 \<Rightarrow> u64 \<Rightarrow> u64" where
  "u64_sat_sub a b = (if b \<le> a then a - b else 0)"

definition u64_checked_add :: "u64 \<Rightarrow> u64 \<Rightarrow> u64 option" where
  "u64_checked_add a b = (if unat a + unat b < 2 ^ 64 then Some (a + b) else None)"

lemma unat_u64_MAX [rust_arith]: "unat u64_MAX = 2 ^ 64 - 1"
  by (simp add: u64_MAX_def unsigned_minus_1_eq_mask mask_eq_exp_minus_1)

lemma unat_u64_less [simp]: "unat (a :: u64) < 18446744073709551616"
  by (rule order_less_le_trans [OF unsigned_less]) simp

lemma unat_sat_add [rust_arith]:
  "unat (u64_sat_add a b) = min (unat a + unat b) (2 ^ 64 - 1)"
  by (auto simp: u64_sat_add_def unat_u64_MAX unat_word_ariths)

lemma u64_sat_add_code [code]: "u64_sat_add a b = (if a \<le> u64_MAX - b then a + b else u64_MAX)"
proof -
  have "b \<le> u64_MAX" by (simp add: u64_MAX_def)
  then have "unat (u64_MAX - b) = 2 ^ 64 - 1 - unat b" by (simp add: unat_sub unat_u64_MAX)
  moreover have "x \<le> n - 1 - y \<longleftrightarrow> x + y < n" if "y < n" for x y n :: nat using that by arith
  moreover have "unat b < 2 ^ 64" using unat_u64_less [of b] by simp
  ultimately have "a \<le> u64_MAX - b \<longleftrightarrow> unat a + unat b < 2 ^ 64" by (simp only: word_le_nat_alt)
  then show ?thesis by (simp only: u64_sat_add_def)
qed

lemma unat_sat_sub [rust_arith]: "unat (u64_sat_sub a b) = unat a - unat b"
  by (auto simp: u64_sat_sub_def unat_sub word_le_nat_alt)

lemma unat_checked_add [rust_arith]:
  "u64_checked_add a b = Some c \<Longrightarrow> unat c = unat a + unat b"
  by (auto simp: u64_checked_add_def unat_word_ariths split: if_splits)

lemma u64_checked_add_None_iff:
  "u64_checked_add a b = None \<longleftrightarrow> 2 ^ 64 \<le> unat a + unat b"
  by (simp add: u64_checked_add_def)

lemma u64_sat_sub_eq_0_iff [simp]: "u64_sat_sub a b = 0 \<longleftrightarrow> a \<le> b"
  using unat_sat_sub [of a b]
  by (metis diff_is_0_eq unat_eq_zero word_le_nat_alt)

lemma u64_sat_sub_le: "u64_sat_sub a b \<le> a"
  by (simp add: word_le_nat_alt unat_sat_sub)

lemma u64_sat_sub_mono: "a \<le> b \<Longrightarrow> u64_sat_sub a m \<le> u64_sat_sub b m"
  by (simp add: word_le_nat_alt unat_sat_sub)

lemma u64_sat_sub_less_iff:
  "m < b \<Longrightarrow> u64_sat_sub a m < u64_sat_sub b m \<longleftrightarrow> a < b"
  by (auto simp: word_less_nat_alt unat_sat_sub)

lemma unat_of_nat_u64 [rust_arith]: "n < 2 ^ 64 \<Longrightarrow> unat (of_nat n :: u64) = n"
  by (simp add: unat_of_nat)

section \<open>Strings\<close>

text \<open>\<open>str::split(c)\<close> for a one-byte separator: always at least one piece.\<close>

fun split_on :: "char \<Rightarrow> string \<Rightarrow> string list" where
  "split_on c [] = [[]]"
| "split_on c (x # xs) =
     (if x = c then [] # split_on c xs
      else (case split_on c xs of [] \<Rightarrow> [[x]] | s # ss \<Rightarrow> (x # s) # ss))"

fun join_with :: "string \<Rightarrow> string list \<Rightarrow> string" where
  "join_with sep [] = []"
| "join_with sep [x] = x"
| "join_with sep (x # y # ys) = x @ sep @ join_with sep (y # ys)"

text \<open>\<open>str::strip_prefix\<close>.\<close>

fun strip_prefix :: "string \<Rightarrow> string \<Rightarrow> string option" where
  "strip_prefix [] s = Some s"
| "strip_prefix (p # ps) [] = None"
| "strip_prefix (p # ps) (x # xs) = (if p = x then strip_prefix ps xs else None)"

text \<open>\<open>str::split_once(c)\<close> for a one-byte separator.\<close>

fun split_once :: "char \<Rightarrow> string \<Rightarrow> (string \<times> string) option" where
  "split_once c [] = None"
| "split_once c (x # xs) =
     (if x = c then Some ([], xs)
      else map_option (\<lambda>(a, b). (x # a, b)) (split_once c xs))"

lemma split_on_not_Nil [simp]: "split_on c s \<noteq> []"
  by (induction s) (auto split: list.splits)

lemma hd_split_on [str_simps]: "hd (split_on c s) = takeWhile (\<lambda>x. x \<noteq> c) s"
proof (induction s)
  case (Cons x xs)
  then show ?case by (cases "split_on c xs") auto
qed simp

lemma join_with_Cons: "ys \<noteq> [] \<Longrightarrow> join_with sep (x # ys) = x @ sep @ join_with sep ys"
  by (cases ys) auto

lemma join_split_on [str_simps]: "join_with [c] (split_on c s) = s"
proof (induction s)
  case (Cons x xs)
  show ?case
  proof (cases "x = c")
    case True
    with Cons show ?thesis by (simp add: join_with_Cons)
  next
    case False
    obtain p ps where ps: "split_on c xs = p # ps"
      by (cases "split_on c xs") auto
    have "join_with [c] ((x # p) # ps) = x # join_with [c] (p # ps)"
      by (cases ps) auto
    with False ps Cons show ?thesis by simp
  qed
qed simp

lemma split_on_pieces [str_simps]: "p \<in> set (split_on c s) \<Longrightarrow> c \<notin> set p"
proof (induction s arbitrary: p)
  case (Cons x xs)
  then show ?case by (cases "split_on c xs") (auto split: if_splits)
qed simp

lemma split_once_Some_iff:
  "split_once c s = Some (a, b) \<longleftrightarrow> s = a @ c # b \<and> c \<notin> set a"
proof (induction s arbitrary: a)
  case (Cons x xs)
  then show ?case by (cases a) auto
qed simp

lemma split_once_None_iff: "split_once c s = None \<longleftrightarrow> c \<notin> set s"
  by (induction s) auto

lemma strip_prefix_Some_iff: "strip_prefix p s = Some r \<longleftrightarrow> s = p @ r"
  by (induction p s rule: strip_prefix.induct) auto

subsection \<open>White space and control characters of UTF-8 text\<close>

abbreviation byte :: "char \<Rightarrow> nat" where
  "byte c \<equiv> of_char c"

text \<open>
  The UTF-8 encodings of the scalar values with the Unicode property
  \<open>White_Space\<close>: U+0009..U+000D, U+0020, U+0085, U+00A0, U+1680,
  U+2000..U+200A, U+2028, U+2029, U+202F, U+205F, U+3000.
\<close>

fun is_ws_seq :: "string \<Rightarrow> bool" where
  "is_ws_seq [a] \<longleftrightarrow> 9 \<le> byte a \<and> byte a \<le> 13 \<or> byte a = 32"
| "is_ws_seq [a, b] \<longleftrightarrow> byte a = 194 \<and> (byte b = 133 \<or> byte b = 160)"
| "is_ws_seq [a, b, c] \<longleftrightarrow>
     byte a = 225 \<and> byte b = 154 \<and> byte c = 128 \<or>
     byte a = 226 \<and> byte b = 128 \<and>
       (128 \<le> byte c \<and> byte c \<le> 138 \<or> byte c = 168 \<or> byte c = 169 \<or> byte c = 175) \<or>
     byte a = 226 \<and> byte b = 129 \<and> byte c = 159 \<or>
     byte a = 227 \<and> byte b = 128 \<and> byte c = 128"
| "is_ws_seq _ \<longleftrightarrow> False"

fun trim_start :: "string \<Rightarrow> string" where
  "trim_start s =
     (if s = [] then []
      else if is_ws_seq (take 1 s) then trim_start (drop 1 s)
      else if is_ws_seq (take 2 s) then trim_start (drop 2 s)
      else if is_ws_seq (take 3 s) then trim_start (drop 3 s)
      else s)"

declare trim_start.simps [simp del]

definition take_last :: "nat \<Rightarrow> 'a list \<Rightarrow> 'a list" where
  "take_last n xs = drop (length xs - n) xs"

definition drop_last :: "nat \<Rightarrow> 'a list \<Rightarrow> 'a list" where
  "drop_last n xs = take (length xs - n) xs"

lemma length_drop_last [simp]: "length (drop_last n xs) = length xs - n"
  by (simp add: drop_last_def)

fun trim_end :: "string \<Rightarrow> string" where
  "trim_end s =
     (if s = [] then []
      else if is_ws_seq (take_last 1 s) then trim_end (drop_last 1 s)
      else if is_ws_seq (take_last 2 s) then trim_end (drop_last 2 s)
      else if is_ws_seq (take_last 3 s) then trim_end (drop_last 3 s)
      else s)"

declare trim_end.simps [simp del]

definition trim :: "string \<Rightarrow> string" where
  "trim s = trim_end (trim_start s)"

text \<open>\<open>chars().any(char::is_control)\<close>: U+0000..U+001F, U+007F..U+009F.\<close>

fun has_control :: "string \<Rightarrow> bool" where
  "has_control [] \<longleftrightarrow> False"
| "has_control (a # r) \<longleftrightarrow>
     byte a < 32 \<or> byte a = 127 \<or>
     (byte a = 194 \<and> (case r of [] \<Rightarrow> False | b # _ \<Rightarrow> 128 \<le> byte b \<and> byte b \<le> 159)) \<or>
     has_control r"

text \<open>\<open>chars().any(char::is_whitespace)\<close>.\<close>

fun has_whitespace :: "string \<Rightarrow> bool" where
  "has_whitespace [] \<longleftrightarrow> False"
| "has_whitespace (a # r) \<longleftrightarrow>
     is_ws_seq [a] \<or> is_ws_seq (take 2 (a # r)) \<or> is_ws_seq (take 3 (a # r)) \<or> has_whitespace r"

text \<open>\<open>str::from_utf8\<close>: the well-formed byte sequences of the Unicode standard.\<close>

abbreviation utf8_cont :: "char \<Rightarrow> bool" where
  "utf8_cont c \<equiv> 128 \<le> byte c \<and> byte c \<le> 191"

definition utf8_step :: "string \<Rightarrow> nat option" where
  "utf8_step s =
     (case s of
        [] \<Rightarrow> None
      | a # r \<Rightarrow>
          if byte a < 128 then Some 1
          else (case r of
            [] \<Rightarrow> None
          | b # r2 \<Rightarrow>
              if 194 \<le> byte a \<and> byte a \<le> 223 then (if utf8_cont b then Some 2 else None)
              else (case r2 of
                [] \<Rightarrow> None
              | c # r3 \<Rightarrow>
                  if 224 \<le> byte a \<and> byte a \<le> 239
                  then (if utf8_cont b \<and> utf8_cont c \<and> (byte a = 224 \<longrightarrow> 160 \<le> byte b)
                           \<and> (byte a = 237 \<longrightarrow> byte b \<le> 159)
                        then Some 3 else None)
                  else (case r3 of
                    [] \<Rightarrow> None
                  | d # _ \<Rightarrow>
                      if 240 \<le> byte a \<and> byte a \<le> 244 \<and> utf8_cont b \<and> utf8_cont c \<and> utf8_cont d
                         \<and> (byte a = 240 \<longrightarrow> 144 \<le> byte b) \<and> (byte a = 244 \<longrightarrow> byte b \<le> 143)
                      then Some 4 else None))))"

lemma utf8_step_pos: "utf8_step s = Some n \<Longrightarrow> 0 < n \<and> s \<noteq> []"
  by (auto simp: utf8_step_def split: list.splits if_splits)

function is_utf8 :: "string \<Rightarrow> bool" where
  "is_utf8 s =
     (if s = [] then True
      else (case utf8_step s of None \<Rightarrow> False | Some n \<Rightarrow> is_utf8 (drop n s)))"
  by pat_completeness auto
termination
  by (relation "measure length") (auto dest: utf8_step_pos)

declare is_utf8.simps [simp del]

section \<open>Decimal display of integers\<close>

definition digit_char :: "nat \<Rightarrow> char" where
  "digit_char d = char_of (48 + d)"

definition is_ascii_digit :: "char \<Rightarrow> bool" where
  "is_ascii_digit c \<longleftrightarrow> 48 \<le> byte c \<and> byte c \<le> 57"

definition is_ascii_lowercase :: "char \<Rightarrow> bool" where
  "is_ascii_lowercase c \<longleftrightarrow> 97 \<le> byte c \<and> byte c \<le> 122"

definition is_ascii_alphabetic :: "char \<Rightarrow> bool" where
  "is_ascii_alphabetic c \<longleftrightarrow> is_ascii_lowercase c \<or> 65 \<le> byte c \<and> byte c \<le> 90"

fun dec :: "nat \<Rightarrow> string" where
  "dec n = (if n < 10 then [digit_char n] else dec (n div 10) @ [digit_char (n mod 10)])"

declare dec.simps [simp del]

definition dec_int :: "int \<Rightarrow> string" where
  "dec_int i = (if i < 0 then CHR ''-'' # dec (nat (- i)) else dec (nat i))"

abbreviation dec64 :: "u64 \<Rightarrow> string" where
  "dec64 w \<equiv> dec (unat w)"

text \<open>The format specification \<open>{:0w}\<close>.\<close>

definition dec_pad :: "nat \<Rightarrow> nat \<Rightarrow> string" where
  "dec_pad w n = replicate (w - length (dec n)) (CHR ''0'') @ dec n"

text \<open>\<open>parse\<close> of a string of ASCII digits, the integer type's maximum given.\<close>

definition digits_value :: "string \<Rightarrow> nat" where
  "digits_value s = foldl (\<lambda>v c. 10 * v + (byte c - 48)) 0 s"

definition parse_unsigned :: "nat \<Rightarrow> string \<Rightarrow> nat option" where
  "parse_unsigned maximum s =
     (if s \<noteq> [] \<and> list_all is_ascii_digit s \<and> digits_value s \<le> maximum
      then Some (digits_value s) else None)"

lemma byte_digit_char [simp]: "d < 10 \<Longrightarrow> byte (digit_char d) = 48 + d"
  by (simp add: digit_char_def)

lemma is_ascii_digit_digit_char [simp]: "d < 10 \<Longrightarrow> is_ascii_digit (digit_char d)"
  by (simp add: is_ascii_digit_def)

lemma digits_value_Nil [simp]: "digits_value [] = 0"
  by (simp add: digits_value_def)

lemma digits_value_snoc [simp]: "digits_value (s @ [c]) = 10 * digits_value s + (byte c - 48)"
  by (simp add: digits_value_def)

lemma digits_value_zeros [simp]:
  "digits_value (replicate n (CHR ''0'') @ s) = digits_value s"
  by (induction n) (simp_all add: digits_value_def)

lemma dec_digits: "list_all is_ascii_digit (dec n)"
proof (induction n rule: dec.induct)
  case (1 n)
  then show ?case by (subst dec.simps) auto
qed

lemma dec_not_Nil [simp]: "dec n \<noteq> []"
  by (subst dec.simps) simp

lemma digits_value_dec [simp]: "digits_value (dec n) = n"
proof (induction n rule: dec.induct)
  case (1 n)
  show ?case
  proof (cases "n < 10")
    case True
    then show ?thesis by (subst dec.simps) (simp add: digits_value_def)
  next
    case False
    with 1 show ?thesis by (subst dec.simps) simp
  qed
qed

lemma length_dec_le: "0 < w \<Longrightarrow> n < 10 ^ w \<Longrightarrow> length (dec n) \<le> w"
proof (induction n arbitrary: w rule: dec.induct)
  case (1 n)
  show ?case
  proof (cases "n < 10")
    case True
    with 1 show ?thesis by (subst dec.simps) simp
  next
    case False
    with "1.prems" obtain v where w: "w = Suc v" and v: "0 < v"
      by (cases w; cases "w - 1") auto
    have "n div 10 < 10 ^ v"
      using "1.prems"(2) w by (simp add: less_mult_imp_div_less mult.commute)
    with 1 False v have "length (dec (n div 10)) \<le> v" by simp
    with False w show ?thesis by (subst dec.simps) simp
  qed
qed

lemma length_dec_pad: "0 < w \<Longrightarrow> n < 10 ^ w \<Longrightarrow> length (dec_pad w n) = w"
  using length_dec_le [of w n] by (simp add: dec_pad_def)

lemma dec_pad_digits: "list_all is_ascii_digit (dec_pad w n)"
  using dec_digits [of n]
  by (auto simp: dec_pad_def list_all_iff is_ascii_digit_def)

lemma parse_dec_pad: "n \<le> maximum \<Longrightarrow> parse_unsigned maximum (dec_pad w n) = Some n"
  using dec_pad_digits [of w n] by (simp add: parse_unsigned_def dec_pad_def)

text \<open>The format \<open>{:x}\<close> of a byte array.\<close>

definition hex_digit :: "nat \<Rightarrow> char" where
  "hex_digit d = (if d < 10 then char_of (48 + d) else char_of (87 + d))"

definition hex :: "string \<Rightarrow> string" where
  "hex bytes = concat (map (\<lambda>b. [hex_digit (byte b div 16), hex_digit (byte b mod 16)]) bytes)"

subsection \<open>Joining, splitting and control characters\<close>

lemma has_control_separator: "has_control (a @ CHR ''/'' # b) \<longleftrightarrow> has_control a \<or> has_control b"
proof (induction a)
  case (Cons x a)
  then show ?case by (cases a) auto
qed simp

lemma has_control_join: "has_control (join_with ''/'' parts) \<longleftrightarrow> list_ex has_control parts"
  by (induction "''/''" parts rule: join_with.induct) (auto simp: has_control_separator)

lemma set_join_with: "c \<in> set (join_with sep parts) \<Longrightarrow> c \<in> set sep \<or> (\<exists>p \<in> set parts. c \<in> set p)"
  by (induction sep parts rule: join_with.induct) auto

lemma split_on_prefix: "c \<notin> set a \<Longrightarrow> split_on c (a @ c # b) = a # split_on c b"
  by (induction a) auto

lemma split_on_single: "c \<notin> set a \<Longrightarrow> split_on c a = [a]"
  by (induction a) auto

lemma split_on_join:
  "parts \<noteq> [] \<Longrightarrow> list_all (\<lambda>p. c \<notin> set p) parts \<Longrightarrow> split_on c (join_with [c] parts) = parts"
  by (induction "[c]" parts rule: join_with.induct) (auto simp: split_on_prefix split_on_single)

lemma set_split_on: "p \<in> set (split_on c s) \<Longrightarrow> set p \<subseteq> set s"
proof (induction s arbitrary: p)
  case (Cons x xs)
  then show ?case by (cases "split_on c xs") (fastforce split: if_splits)+
qed simp

lemma has_control_split: "has_control s \<longleftrightarrow> list_ex has_control (split_on (CHR ''/'') s)"
  using has_control_join [of "split_on (CHR ''/'') s"] by (simp add: join_split_on)

end
