(* ===== verification/Ordered_Map.thy ===== *)
theory Ordered_Map
  imports Jig_Prelude
begin

text \<open>
  Rust's \<open>BTreeMap\<close> and \<open>BTreeSet\<close>, the containers of every index in the
  program. A map is the list of its entries in key order and a set the list of
  its elements in order, which is what iterating over them yields. The locales
  \<open>ordered_map\<close> and \<open>ordered_set\<close> state what the clients rely on; the lemmas
  about indexes built with the entry API are proved from these laws alone and
  reach the components through the interpretations \<open>bt\<close> and \<open>bs\<close>.
\<close>

section \<open>Maps\<close>

type_synonym ('k, 'v) btree_map = "('k \<times> 'v) list"

definition bt_empty :: "('k, 'v) btree_map" where
  "bt_empty = []"

definition bt_get :: "('k, 'v) btree_map \<Rightarrow> 'k \<Rightarrow> 'v option" where
  "bt_get m k = map_of m k"

fun bt_insert :: "'k::linorder \<Rightarrow> 'v \<Rightarrow> ('k, 'v) btree_map \<Rightarrow> ('k, 'v) btree_map" where
  "bt_insert k v [] = [(k, v)]"
| "bt_insert k v (e # m) =
     (if k = fst e then (k, v) # m
      else if k < fst e then (k, v) # e # m
      else e # bt_insert k v m)"

definition bt_keys :: "('k, 'v) btree_map \<Rightarrow> 'k list" where
  "bt_keys m = map fst m"

definition bt_values :: "('k, 'v) btree_map \<Rightarrow> 'v list" where
  "bt_values m = map snd m"

definition bt_wf :: "('k::linorder, 'v) btree_map \<Rightarrow> bool" where
  "bt_wf m \<longleftrightarrow> sorted_wrt (<) (map fst m)"

text \<open>The entry API: \<open>map.entry(k).or_default()\<close> followed by an update of the value.\<close>

definition bt_update :: "'k::linorder \<Rightarrow> ('v option \<Rightarrow> 'v) \<Rightarrow> ('k, 'v) btree_map
    \<Rightarrow> ('k, 'v) btree_map" where
  "bt_update k u m = bt_insert k (u (bt_get m k)) m"

definition opt_push :: "'a \<Rightarrow> 'a list option \<Rightarrow> 'a list" where
  "opt_push x v = (case v of None \<Rightarrow> [x] | Some xs \<Rightarrow> xs @ [x])"

definition opt_incr :: "nat option \<Rightarrow> nat" where
  "opt_incr v = (case v of None \<Rightarrow> 1 | Some n \<Rightarrow> Suc n)"

locale ordered_map =
  fixes empty :: "'m"
    and get :: "'m \<Rightarrow> 'k::linorder \<Rightarrow> 'v option"
    and put :: "'k \<Rightarrow> 'v \<Rightarrow> 'm \<Rightarrow> 'm"
    and entries :: "'m \<Rightarrow> ('k \<times> 'v) list"
    and wf :: "'m \<Rightarrow> bool"
  assumes get_empty: "get empty k = None"
    and get_put: "wf m \<Longrightarrow> get (put k v m) = (get m)(k \<mapsto> v)"
    and wf_empty: "wf empty"
    and wf_put: "wf m \<Longrightarrow> wf (put k v m)"
    and entries_get: "wf m \<Longrightarrow> (k, v) \<in> set (entries m) \<longleftrightarrow> get m k = Some v"
    and entries_sorted: "wf m \<Longrightarrow> sorted_wrt (<) (map fst (entries m))"
begin

text \<open>An index built in one pass: each element updates the entry of its key.\<close>

definition index :: "('x \<Rightarrow> 'k) \<Rightarrow> ('x \<Rightarrow> 'v option \<Rightarrow> 'v) \<Rightarrow> 'x list \<Rightarrow> 'm \<Rightarrow> 'm" where
  "index key upd xs m = fold (\<lambda>x m. put (key x) (upd x (get m (key x))) m) xs m"

lemma wf_index: "wf m \<Longrightarrow> wf (index key upd xs m)"
  by (induction xs arbitrary: m) (auto simp: index_def wf_put)

lemma get_index:
  "wf m \<Longrightarrow> get (index key upd xs m) k =
     fold (\<lambda>x v. Some (upd x v)) (filter (\<lambda>x. key x = k) xs) (get m k)"
  by (induction xs arbitrary: m) (auto simp: index_def wf_put get_put)

lemma get_index_last:
  assumes "wf m"
  shows "get (index key (\<lambda>x _. val x) xs m) k =
     (case filter (\<lambda>x. key x = k) xs of [] \<Rightarrow> get m k | ys \<Rightarrow> Some (val (last ys)))"
proof -
  have "fold (\<lambda>x v. Some (val x)) ys w = (case ys of [] \<Rightarrow> w | _ \<Rightarrow> Some (val (last ys)))" for ys w
    by (induction ys arbitrary: w) (auto split: list.splits)
  with assms show ?thesis by (auto simp: get_index split: list.splits)
qed

lemma entries_distinct: "wf m \<Longrightarrow> distinct (map fst (entries m))"
  using entries_sorted strict_sorted_iff by blast

lemma keys_index:
  "fst ` set (entries (index key upd xs empty)) = key ` set xs"
proof -
  have "fst ` set (entries m) = dom (get m)" if "wf m" for m
    using entries_get [OF that] by (force simp: dom_def image_def)
  moreover have "dom (get (index key upd xs m)) = dom (get m) \<union> key ` set xs"
    if "wf m" for m
    using that
    by (induction xs arbitrary: m) (auto simp: index_def wf_put get_put)
  ultimately show ?thesis
    using wf_empty wf_index [OF wf_empty, of key upd xs] get_empty
    by (simp add: dom_def)
qed

end

lemma set_bt_insert_keys: "fst ` set (bt_insert k v m) = insert k (fst ` set m)"
  by (induction m) auto

lemma bt_wf_insert: "bt_wf m \<Longrightarrow> bt_wf (bt_insert k v m)"
proof (induction m)
  case (Cons e m)
  have "fst ` set (bt_insert k v m) = insert k (fst ` set m)"
    by (rule set_bt_insert_keys)
  with Cons show ?case by (auto simp: bt_wf_def)
qed (simp add: bt_wf_def)

lemma map_of_bt_insert: "bt_wf m \<Longrightarrow> map_of (bt_insert k v m) = (map_of m)(k \<mapsto> v)"
  by (induction m) (auto simp: bt_wf_def)

lemma bt_wf_distinct: "bt_wf m \<Longrightarrow> distinct (map fst m)"
  using strict_sorted_iff bt_wf_def by blast

interpretation bt: ordered_map bt_empty bt_get bt_insert "\<lambda>m. m" bt_wf
proof unfold_locales
  show "bt_wf m \<Longrightarrow> (k, v) \<in> set m \<longleftrightarrow> bt_get m k = Some v" for m and k :: 'a and v :: 'b
    by (simp add: bt_get_def bt_wf_distinct map_of_eq_Some_iff)
qed (auto simp: bt_empty_def bt_get_def bt_wf_def map_of_bt_insert
       bt_wf_insert [unfolded bt_wf_def])

lemmas bt_wf_bt_empty [simp] = bt.wf_empty
lemmas bt_wf_bt_insert [intro] = bt.wf_put

lemma bt_fold_update_index:
  "fold (\<lambda>x. bt_update (key x) (upd x)) xs m = bt.index key upd xs m"
  by (simp add: bt.index_def bt_update_def [abs_def])

lemma bt_wf_fold_update: "bt_wf m \<Longrightarrow> bt_wf (fold (\<lambda>x. bt_update (key x) (upd x)) xs m)"
  by (simp add: bt_fold_update_index bt.wf_index)

lemma bt_fold_insert_index:
  "fold (\<lambda>x. bt_insert (key x) (val x)) xs m = bt.index key (\<lambda>x _. val x) xs m"
  by (simp add: bt.index_def)

text \<open>Grouping: \<open>entry(key).or_default().push(x)\<close> for every element.\<close>

lemma bt_get_group:
  "bt_get (fold (\<lambda>x. bt_update (key x) (opt_push x)) xs bt_empty) k =
     (case filter (\<lambda>x. key x = k) xs of [] \<Rightarrow> None | ys \<Rightarrow> Some ys)"
proof -
  have acc: "fold (\<lambda>x v. Some (opt_push x v)) ys (Some zs) = Some (zs @ ys)" for ys zs :: "'a list"
    by (induction ys arbitrary: zs) (auto simp: opt_push_def)
  have "fold (\<lambda>x v. Some (opt_push x v)) ys None = (case ys of [] \<Rightarrow> None | _ \<Rightarrow> Some ys)"
    for ys :: "'a list"
    using acc by (cases ys) (auto simp: opt_push_def)
  then show ?thesis
    by (auto simp: bt_fold_update_index bt.get_index bt.get_empty split: list.splits)
qed

text \<open>Counting: \<open>*entry(key).or_default() += 1\<close> for every element.\<close>

lemma bt_get_count:
  "bt_get (fold (\<lambda>x. bt_update (key x) opt_incr) xs bt_empty) k =
     (let n = length (filter (\<lambda>x. key x = k) xs) in if n = 0 then None else Some n)"
proof -
  have acc: "fold (\<lambda>x v. Some (opt_incr v)) ys (Some n) = Some (n + length ys)"
    for ys :: "'b list" and n
    by (induction ys arbitrary: n) (auto simp: opt_incr_def)
  have "fold (\<lambda>x v. Some (opt_incr v)) ys None =
      (if length ys = 0 then None else Some (length ys))" for ys :: "'b list"
    using acc by (cases ys) (auto simp: opt_incr_def)
  then show ?thesis
    by (simp add: bt_fold_update_index [where upd = "\<lambda>_. opt_incr"] bt.get_index bt.get_empty Let_def)
qed

section \<open>Sets\<close>

type_synonym 'a btree_set = "'a list"

definition bs_insert :: "'a::linorder \<Rightarrow> 'a btree_set \<Rightarrow> 'a btree_set" where
  "bs_insert x s = (if x \<in> set s then s else insort x s)"

definition bs_wf :: "'a::linorder btree_set \<Rightarrow> bool" where
  "bs_wf s \<longleftrightarrow> sorted_wrt (<) s"

text \<open>\<open>iter.collect::<BTreeSet<_>>()\<close> and \<open>set.extend(iter)\<close>.\<close>

definition bs_extend :: "'a::linorder list \<Rightarrow> 'a btree_set \<Rightarrow> 'a btree_set" where
  "bs_extend xs s = fold bs_insert xs s"

abbreviation bs_collect :: "'a::linorder list \<Rightarrow> 'a btree_set" where
  "bs_collect xs \<equiv> bs_extend xs []"

locale ordered_set =
  fixes empty :: "'s"
    and ins :: "'a::linorder \<Rightarrow> 's \<Rightarrow> 's"
    and elems :: "'s \<Rightarrow> 'a list"
    and wf :: "'s \<Rightarrow> bool"
  assumes elems_empty: "elems empty = []"
    and set_ins: "wf s \<Longrightarrow> set (elems (ins x s)) = insert x (set (elems s))"
    and wf_empty: "wf empty"
    and wf_ins: "wf s \<Longrightarrow> wf (ins x s)"
    and elems_sorted: "wf s \<Longrightarrow> sorted_wrt (<) (elems s)"
begin

lemma wf_fold_ins: "wf s \<Longrightarrow> wf (fold ins xs s)"
  by (induction xs arbitrary: s) (auto simp: wf_ins)

lemma set_fold_ins: "wf s \<Longrightarrow> set (elems (fold ins xs s)) = set xs \<union> set (elems s)"
  by (induction xs arbitrary: s) (auto simp: wf_ins set_ins)

text \<open>Collecting depends only on which elements occur, not on their order.\<close>

lemma elems_collect: "elems (fold ins xs empty) = sorted_list_of_set (set xs)"
proof -
  let ?s = "elems (fold ins xs empty)"
  have "set ?s = set xs" and "sorted_wrt (<) ?s"
    using set_fold_ins [OF wf_empty] elems_sorted [OF wf_fold_ins [OF wf_empty]]
    by (auto simp: elems_empty)
  then show ?thesis
    by (metis sorted_list_of_set.idem_if_sorted_distinct strict_sorted_iff)
qed

end

interpretation bs: ordered_set "[]" bs_insert "\<lambda>s. s" bs_wf
proof unfold_locales
  show "bs_wf s \<Longrightarrow> bs_wf (bs_insert x s)" for s :: "'a list" and x
    by (auto simp: bs_wf_def bs_insert_def strict_sorted_iff sorted_insort distinct_insort)
qed (auto simp: bs_wf_def bs_insert_def set_insort_key)

lemma bs_collect_eq: "bs_collect xs = sorted_list_of_set (set xs)"
  using bs.elems_collect by (simp add: bs_extend_def)

lemma set_bs_collect [simp]: "set (bs_collect xs) = set xs"
  by (simp add: bs_collect_eq)

lemma sorted_bs_collect: "sorted_wrt (<) (bs_collect xs)"
  by (simp add: bs_collect_eq)

lemma set_bs_insert [simp]: "set (bs_insert x s) = insert x (set s)"
  by (auto simp: bs_insert_def set_insort_key)

lemma bs_wf_bs_insert [intro]: "bs_wf s \<Longrightarrow> bs_wf (bs_insert x s)"
  by (rule bs.wf_ins)

lemma bs_wf_distinct: "bs_wf s \<Longrightarrow> distinct s"
  by (simp add: bs_wf_def strict_sorted_iff)

text \<open>\<open>Vec::sort\<close> followed by \<open>Vec::dedup\<close>.\<close>

lemma distinct_remdups_adj_sorted: "sorted xs \<Longrightarrow> distinct (remdups_adj xs)"
  by (induction xs rule: remdups_adj.induct) auto

lemma remdups_adj_sort: "remdups_adj (sort xs) = sorted_list_of_set (set xs)"
  by (rule sorted_distinct_set_unique) (simp_all add: distinct_remdups_adj_sorted)

lemma bt_values_insert_subset: "set (bt_values (bt_insert k v m)) \<subseteq> insert v (set (bt_values m))"
  by (induction k v m rule: bt_insert.induct) (auto simp: bt_values_def)

end
