(* ===== verification/Budget_Diagnostic.thy ===== *)
theory Budget_Diagnostic
  imports Jig_Prelude
begin

text \<open>
  \<open>crates/jig-file-budget/src/diagnostic.rs\<close>: the diagnostics of the file
  budget and their canonical order. The derived \<open>Ord\<close> of each enum follows the
  order of its constructors.
\<close>

section \<open>Severities, metrics and codes\<close>

datatype BudgetSeverityV1 = Error | Warning | Notice

datatype BudgetMetricV1 = Lines | Bytes

datatype BudgetDiagnosticCodeV1 =
    MaxLines | MaxBytes | DebtGrowthLines | DebtGrowthBytes | LegacyDebt | DebtImproved
  | NoticeLines | NoticeBytes | WarningLines | WarningBytes | WaiverActive | WaiverExpired
  | WaiverInvalid | WaiverRemovedWithDebt | PolicyChanged | PolicyInvalid | RuleAmbiguous
  | ScopeIncomplete | BaselineUnavailable | UnsupportedFile | ChangedDuringReadCode | ResourceLimit

primrec severity_rank :: "BudgetSeverityV1 \<Rightarrow> nat" where
  "severity_rank Error = 0"
| "severity_rank Warning = 1"
| "severity_rank Notice = 2"

primrec metric_rank :: "BudgetMetricV1 \<Rightarrow> nat" where
  "metric_rank Lines = 0"
| "metric_rank Bytes = 1"

primrec code_rank :: "BudgetDiagnosticCodeV1 \<Rightarrow> nat" where
  "code_rank MaxLines = 0" | "code_rank MaxBytes = 1"
| "code_rank DebtGrowthLines = 2" | "code_rank DebtGrowthBytes = 3"
| "code_rank LegacyDebt = 4" | "code_rank DebtImproved = 5"
| "code_rank NoticeLines = 6" | "code_rank NoticeBytes = 7"
| "code_rank WarningLines = 8" | "code_rank WarningBytes = 9"
| "code_rank WaiverActive = 10" | "code_rank WaiverExpired = 11"
| "code_rank WaiverInvalid = 12" | "code_rank WaiverRemovedWithDebt = 13"
| "code_rank PolicyChanged = 14" | "code_rank PolicyInvalid = 15"
| "code_rank RuleAmbiguous = 16" | "code_rank ScopeIncomplete = 17"
| "code_rank BaselineUnavailable = 18" | "code_rank UnsupportedFile = 19"
| "code_rank ChangedDuringReadCode = 20" | "code_rank ResourceLimit = 21"

primrec code_as_str :: "BudgetDiagnosticCodeV1 \<Rightarrow> string" where
  "code_as_str MaxLines = ''file_budget.max_lines''"
| "code_as_str MaxBytes = ''file_budget.max_bytes''"
| "code_as_str DebtGrowthLines = ''file_budget.debt_growth_lines''"
| "code_as_str DebtGrowthBytes = ''file_budget.debt_growth_bytes''"
| "code_as_str LegacyDebt = ''file_budget.legacy_debt''"
| "code_as_str DebtImproved = ''file_budget.debt_improved''"
| "code_as_str NoticeLines = ''file_budget.notice_lines''"
| "code_as_str NoticeBytes = ''file_budget.notice_bytes''"
| "code_as_str WarningLines = ''file_budget.warning_lines''"
| "code_as_str WarningBytes = ''file_budget.warning_bytes''"
| "code_as_str WaiverActive = ''file_budget.waiver_active''"
| "code_as_str WaiverExpired = ''file_budget.waiver_expired''"
| "code_as_str WaiverInvalid = ''file_budget.waiver_invalid''"
| "code_as_str WaiverRemovedWithDebt = ''file_budget.waiver_removed_with_debt''"
| "code_as_str PolicyChanged = ''file_budget.policy_changed''"
| "code_as_str PolicyInvalid = ''file_budget.policy_invalid''"
| "code_as_str RuleAmbiguous = ''file_budget.rule_ambiguous''"
| "code_as_str ScopeIncomplete = ''file_budget.scope_incomplete''"
| "code_as_str BaselineUnavailable = ''file_budget.baseline_unavailable''"
| "code_as_str UnsupportedFile = ''file_budget.unsupported_file''"
| "code_as_str ChangedDuringReadCode = ''file_budget.changed_during_read''"
| "code_as_str ResourceLimit = ''file_budget.resource_limit''"

lemma severity_rank_inj: "severity_rank a = severity_rank b \<Longrightarrow> a = b"
  by (cases a; cases b) auto

lemma metric_rank_inj: "metric_rank a = metric_rank b \<Longrightarrow> a = b"
  by (cases a; cases b) auto

definition all_codes :: "BudgetDiagnosticCodeV1 list" where
  "all_codes =
     [MaxLines, MaxBytes, DebtGrowthLines, DebtGrowthBytes, LegacyDebt, DebtImproved,
      NoticeLines, NoticeBytes, WarningLines, WarningBytes, WaiverActive, WaiverExpired,
      WaiverInvalid, WaiverRemovedWithDebt, PolicyChanged, PolicyInvalid, RuleAmbiguous,
      ScopeIncomplete, BaselineUnavailable, UnsupportedFile, ChangedDuringReadCode, ResourceLimit]"

lemma nth_code_rank: "all_codes ! code_rank c = c"
  by (cases c) (simp_all add: all_codes_def)

lemma code_rank_inj: "code_rank a = code_rank b \<Longrightarrow> a = b"
  by (metis nth_code_rank)

instantiation BudgetSeverityV1 :: linorder
begin

definition less_eq_BudgetSeverityV1 :: "BudgetSeverityV1 \<Rightarrow> BudgetSeverityV1 \<Rightarrow> bool" where
  "a \<le> b \<longleftrightarrow> severity_rank a \<le> severity_rank b"

definition less_BudgetSeverityV1 :: "BudgetSeverityV1 \<Rightarrow> BudgetSeverityV1 \<Rightarrow> bool" where
  "a < b \<longleftrightarrow> severity_rank a < severity_rank b"

instance
  by standard (auto simp: less_eq_BudgetSeverityV1_def less_BudgetSeverityV1_def
      dest: severity_rank_inj)

end

instantiation BudgetMetricV1 :: linorder
begin

definition less_eq_BudgetMetricV1 :: "BudgetMetricV1 \<Rightarrow> BudgetMetricV1 \<Rightarrow> bool" where
  "a \<le> b \<longleftrightarrow> metric_rank a \<le> metric_rank b"

definition less_BudgetMetricV1 :: "BudgetMetricV1 \<Rightarrow> BudgetMetricV1 \<Rightarrow> bool" where
  "a < b \<longleftrightarrow> metric_rank a < metric_rank b"

instance
  by standard (auto simp: less_eq_BudgetMetricV1_def less_BudgetMetricV1_def dest: metric_rank_inj)

end

instantiation BudgetDiagnosticCodeV1 :: linorder
begin

definition less_eq_BudgetDiagnosticCodeV1 ::
  "BudgetDiagnosticCodeV1 \<Rightarrow> BudgetDiagnosticCodeV1 \<Rightarrow> bool" where
  "a \<le> b \<longleftrightarrow> code_rank a \<le> code_rank b"

definition less_BudgetDiagnosticCodeV1 ::
  "BudgetDiagnosticCodeV1 \<Rightarrow> BudgetDiagnosticCodeV1 \<Rightarrow> bool" where
  "a < b \<longleftrightarrow> code_rank a < code_rank b"

instance
  by standard (auto simp: less_eq_BudgetDiagnosticCodeV1_def less_BudgetDiagnosticCodeV1_def
      dest: code_rank_inj)

end

section \<open>Diagnostics\<close>

record BudgetDiagnosticV1 =
  d_severity :: BudgetSeverityV1
  d_code :: BudgetDiagnosticCodeV1
  d_message :: string
  d_path :: "string option"
  d_rule_id :: "string option"
  d_waiver_id :: "string option"
  d_metric :: "BudgetMetricV1 option"
  d_current :: "u64 option"
  d_comparison :: "u64 option"
  d_limit :: "u64 option"
  d_debt :: "u64 option"
  d_debt_growth :: "u64 option"

definition new_diagnostic ::
  "BudgetSeverityV1 \<Rightarrow> BudgetDiagnosticCodeV1 \<Rightarrow> string \<Rightarrow> BudgetDiagnosticV1" where
  "new_diagnostic severity code message =
     \<lparr>d_severity = severity, d_code = code, d_message = message, d_path = None,
      d_rule_id = None, d_waiver_id = None, d_metric = None, d_current = None,
      d_comparison = None, d_limit = None, d_debt = None, d_debt_growth = None\<rparr>"

definition at_path :: "string \<Rightarrow> BudgetDiagnosticV1 \<Rightarrow> BudgetDiagnosticV1" where
  "at_path path d = d\<lparr>d_path := Some path\<rparr>"

definition for_rule :: "string \<Rightarrow> BudgetDiagnosticV1 \<Rightarrow> BudgetDiagnosticV1" where
  "for_rule rule d = d\<lparr>d_rule_id := Some rule\<rparr>"

definition for_waiver :: "string \<Rightarrow> BudgetDiagnosticV1 \<Rightarrow> BudgetDiagnosticV1" where
  "for_waiver waiver d = d\<lparr>d_waiver_id := Some waiver\<rparr>"

lemmas diagnostic_defs = new_diagnostic_def at_path_def for_rule_def for_waiver_def

lemma d_severity_builders [simp]:
  "d_severity (new_diagnostic s c m) = s" "d_severity (at_path p d) = d_severity d"
  "d_severity (for_rule r d) = d_severity d" "d_severity (for_waiver w d) = d_severity d"
  by (simp_all add: diagnostic_defs)

lemma d_code_builders [simp]:
  "d_code (new_diagnostic s c m) = c" "d_code (at_path p d) = d_code d"
  "d_code (for_rule r d) = d_code d" "d_code (for_waiver w d) = d_code d"
  by (simp_all add: diagnostic_defs)

lemma d_path_builders [simp]:
  "d_path (at_path p d) = Some p" "d_path (for_rule r d) = d_path d"
  "d_path (for_waiver w d) = d_path d"
  by (simp_all add: diagnostic_defs)

lemma d_waiver_builders [simp]:
  "d_waiver_id (for_waiver w d) = Some w" "d_waiver_id (at_path p d) = d_waiver_id d"
  "d_waiver_id (for_rule r d) = d_waiver_id d"
  by (simp_all add: diagnostic_defs)

section \<open>The canonical order\<close>

text \<open>
  \<open>compare_diagnostic\<close> compares severity, path, code, rule, waiver, metric and
  message, in this order: the lexicographic order of the tuple of keys.
  \<open>sort_by\<close> is a stable sort, as \<^const>\<open>sort_key\<close> is.
\<close>

definition diagnostic_key :: "BudgetDiagnosticV1 \<Rightarrow>
  BudgetSeverityV1 \<times> string option \<times> BudgetDiagnosticCodeV1 \<times> string option \<times> string option
    \<times> BudgetMetricV1 option \<times> string" where
  "diagnostic_key d =
     (d_severity d, d_path d, d_code d, d_rule_id d, d_waiver_id d, d_metric d, d_message d)"

definition compare_diagnostic :: "BudgetDiagnosticV1 \<Rightarrow> BudgetDiagnosticV1 \<Rightarrow> bool" where
  "compare_diagnostic l r \<longleftrightarrow> diagnostic_key l \<le> diagnostic_key r"

definition sort_diagnostics :: "BudgetDiagnosticV1 list \<Rightarrow> BudgetDiagnosticV1 list" where
  "sort_diagnostics ds = sort_key diagnostic_key ds"

lemma set_sort_diagnostics [simp]: "set (sort_diagnostics ds) = set ds"
  by (simp add: sort_diagnostics_def)

lemma mset_sort_diagnostics [simp]: "mset (sort_diagnostics ds) = mset ds"
  by (simp add: sort_diagnostics_def)

lemma sorted_sort_diagnostics: "sorted_wrt compare_diagnostic (sort_diagnostics ds)"
  using sorted_sort_key [of diagnostic_key ds]
  by (simp add: sort_diagnostics_def compare_diagnostic_def [abs_def] sorted_map)

lemma sort_diagnostics_Nil_iff [simp]: "sort_diagnostics ds = [] \<longleftrightarrow> ds = []"
  by (metis set_empty set_sort_diagnostics)

lemma lex_fst_le: "(a, b) \<le> (c, d) \<Longrightarrow> a \<le> c" for a c :: "'x::linorder" and b d :: "'y::linorder"
  by auto

lemma compare_diagnostic_severity: "compare_diagnostic l r \<Longrightarrow> d_severity l \<le> d_severity r"
  unfolding compare_diagnostic_def diagnostic_key_def by (rule lex_fst_le)

text \<open>Errors come before everything else in a sorted list of diagnostics.\<close>

abbreviation is_error :: "BudgetDiagnosticV1 \<Rightarrow> bool" where
  "is_error d \<equiv> d_severity d = Error"

lemma no_error_after: "\<not> is_error d \<Longrightarrow> compare_diagnostic d e \<Longrightarrow> \<not> is_error e"
  using compare_diagnostic_severity [of d e]
  by (cases "d_severity d") (auto simp: less_eq_BudgetSeverityV1_def)

lemma dropWhile_no_error:
  "sorted_wrt compare_diagnostic s \<Longrightarrow> d \<in> set (dropWhile is_error s) \<Longrightarrow> \<not> is_error d"
proof (induction s)
  case (Cons e s)
  then show ?case using no_error_after [of e d] by (cases "is_error e") auto
qed simp

lemma sort_diagnostics_errors_first:
  "\<exists>errors others. sort_diagnostics ds = errors @ others \<and>
     (\<forall>d \<in> set errors. is_error d) \<and> (\<forall>d \<in> set others. \<not> is_error d)"
proof -
  let ?s = "sort_diagnostics ds"
  have "?s = takeWhile is_error ?s @ dropWhile is_error ?s" by simp
  moreover have "\<forall>d \<in> set (takeWhile is_error ?s). is_error d" by (auto dest: set_takeWhileD)
  moreover have "\<forall>d \<in> set (dropWhile is_error ?s). \<not> is_error d"
    using dropWhile_no_error [OF sorted_sort_diagnostics] by blast
  ultimately show ?thesis by metis
qed

lemma find_code_as_str: "find (\<lambda>c. code_as_str c = code_as_str a) all_codes = Some a"
  by (cases a) (simp_all add: all_codes_def)

text \<open>The published diagnostic names identify the code.\<close>

lemma code_as_str_inj: "code_as_str a = code_as_str b \<Longrightarrow> a = b"
  by (metis find_code_as_str option.inject)

end
