(* ===== verification/Budget_Policy.thy ===== *)
theory Budget_Policy
  imports Ordered_Map Budget_Diagnostic
begin

text \<open>
  \<open>crates/jig-file-budget/src/policy.rs\<close> and \<open>policy/identity.rs\<close>: the data of a
  file-budget policy, calendar dates, the canonical identity of a policy and the
  classification of a path. Building a policy from its checked-in form is in
  \<open>Budget_Validation\<close>.

  Third-party crates are fields of the record \<open>budget_env\<close>: \<open>globset\<close>, \<open>sha2\<close>,
  \<open>serde_json\<close> and \<open>toml\<close>. A compiled matcher is observed only through its match
  functions and is represented by the patterns it was compiled from.
\<close>

section \<open>Limits\<close>

definition MAX_POLICY_BYTES_V1 :: nat where "MAX_POLICY_BYTES_V1 = 1024 * 1024"
definition MAX_RULES_V1 :: nat where "MAX_RULES_V1 = 256"
definition MAX_PATTERNS_V1 :: nat where "MAX_PATTERNS_V1 = 4096"
definition MAX_WAIVERS_V1 :: nat where "MAX_WAIVERS_V1 = 4096"
definition MAX_PATTERN_BYTES_V1 :: nat where "MAX_PATTERN_BYTES_V1 = 1024"
definition MAX_CANDIDATE_PATH_BYTES_V1 :: nat where "MAX_CANDIDATE_PATH_BYTES_V1 = 4096"
definition MAX_CATEGORY_BYTES_V1 :: nat where "MAX_CATEGORY_BYTES_V1 = 64"
definition MAX_IDENTIFIER_BYTES_V1 :: nat where "MAX_IDENTIFIER_BYTES_V1 = 64"
definition POLICY_PATH :: string where "POLICY_PATH = ''.jig/file-budget.toml''"
definition CONTRACT_PATH :: string where "CONTRACT_PATH = ''.jig.toml''"

section \<open>Rules, exclusions, dates and waivers\<close>

datatype ExclusionKindV1 = Generated | Vendored | PolicyKind

primrec exclusion_kind_rank :: "ExclusionKindV1 \<Rightarrow> nat" where
  "exclusion_kind_rank Generated = 0"
| "exclusion_kind_rank Vendored = 1"
| "exclusion_kind_rank PolicyKind = 2"

lemma exclusion_kind_rank_inj: "exclusion_kind_rank a = exclusion_kind_rank b \<Longrightarrow> a = b"
  by (cases a; cases b) auto

instantiation ExclusionKindV1 :: linorder
begin

definition less_eq_ExclusionKindV1 :: "ExclusionKindV1 \<Rightarrow> ExclusionKindV1 \<Rightarrow> bool" where
  "a \<le> b \<longleftrightarrow> exclusion_kind_rank a \<le> exclusion_kind_rank b"

definition less_ExclusionKindV1 :: "ExclusionKindV1 \<Rightarrow> ExclusionKindV1 \<Rightarrow> bool" where
  "a < b \<longleftrightarrow> exclusion_kind_rank a < exclusion_kind_rank b"

instance
  by standard (auto simp: less_eq_ExclusionKindV1_def less_ExclusionKindV1_def
      dest: exclusion_kind_rank_inj)

end

record ExclusionV1 =
  x_pattern :: string
  x_kind :: ExclusionKindV1
  x_reason :: string

record RuleV1 =
  r_id :: string
  r_category :: "string option"
  r_include :: "string list"
  r_exclude :: "string list"
  r_notice_lines :: "u64 option"
  r_warn_lines :: "u64 option"
  r_max_lines :: "u64 option"
  r_notice_bytes :: "u64 option"
  r_warn_bytes :: "u64 option"
  r_max_bytes :: "u64 option"

record PolicyDateV1 =
  date_year :: nat
  date_month :: nat
  date_day :: nat

record WaiverV1 =
  w_id :: string
  w_rule :: string
  w_path :: string
  w_ceiling_lines :: "u64 option"
  w_ceiling_bytes :: "u64 option"
  w_reason :: string
  w_expires :: PolicyDateV1

section \<open>Dates\<close>

definition is_valid_date :: "nat \<Rightarrow> nat \<Rightarrow> nat \<Rightarrow> bool" where
  "is_valid_date year month day =
     (if year = 0 \<or> 9999 < year \<or> \<not> (1 \<le> month \<and> month \<le> 12) \<or> day = 0 then False
      else
        (let leap = year mod 4 = 0 \<and> (year mod 100 \<noteq> 0 \<or> year mod 400 = 0);
             days = (if month = 2 \<and> leap then 29
                     else if month = 2 then 28
                     else if month \<in> {4, 6, 9, 11} then 30
                     else 31)
         in day \<le> days))"

text \<open>The year is a \<open>u16\<close>, month and day are \<open>u8\<close>; only valid dates are constructed.\<close>

definition new_date :: "nat \<Rightarrow> nat \<Rightarrow> nat \<Rightarrow> string + PolicyDateV1" where
  "new_date year month day =
     (if is_valid_date year month day
      then Inr \<lparr>date_year = year, date_month = month, date_day = day\<rparr>
      else Inl (''invalid calendar date '' @ dec_pad 4 year @ ''-'' @ dec_pad 2 month @ ''-''
                 @ dec_pad 2 day))"

definition date_display :: "PolicyDateV1 \<Rightarrow> string" where
  "date_display d =
     dec_pad 4 (date_year d) @ ''-'' @ dec_pad 2 (date_month d) @ ''-'' @ dec_pad 2 (date_day d)"

definition parse_iso :: "string \<Rightarrow> string + PolicyDateV1" where
  "parse_iso value =
     (let bad = Inl (''invalid ISO calendar date `'' @ value @ ''`'') in
      if length value \<noteq> 10 \<or> value ! 4 \<noteq> CHR ''-'' \<or> value ! 7 \<noteq> CHR ''-'' \<or>
         \<not> (\<forall>i \<in> set [0..<length value]. i \<in> {4, 7} \<or> is_ascii_digit (value ! i))
      then bad
      else (case parse_unsigned 65535 (take 4 value) of
        None \<Rightarrow> bad
      | Some year \<Rightarrow>
        (case parse_unsigned 255 (take 2 (drop 5 value)) of
          None \<Rightarrow> bad
        | Some month \<Rightarrow>
          (case parse_unsigned 255 (take 2 (drop 8 value)) of
            None \<Rightarrow> bad
          | Some day \<Rightarrow> new_date year month day))))"

text \<open>The derived order of a date: year, then month, then day.\<close>

definition date_key :: "PolicyDateV1 \<Rightarrow> nat \<times> nat \<times> nat" where
  "date_key d = (date_year d, date_month d, date_day d)"

definition date_less :: "PolicyDateV1 \<Rightarrow> PolicyDateV1 \<Rightarrow> bool" where
  "date_less a b \<longleftrightarrow> date_key a < date_key b"

section \<open>Identity\<close>

record PolicyIdentityV1 =
  raw_sha256 :: string
  semantic_sha256 :: string
  semantic_input :: string

record CanonicalRuleV1 =
  cr_id :: string
  cr_category :: "string option"
  cr_include :: "string list"
  cr_exclude :: "string list"
  cr_notice_lines :: "u64 option"
  cr_warn_lines :: "u64 option"
  cr_max_lines :: "u64 option"
  cr_notice_bytes :: "u64 option"
  cr_warn_bytes :: "u64 option"
  cr_max_bytes :: "u64 option"

record CanonicalPolicyV1 =
  cp_version :: nat
  cp_rules :: "CanonicalRuleV1 list"
  cp_exclusions :: "ExclusionV1 list"
  cp_waivers :: "WaiverV1 list"

text \<open>\<open>toml::value::Datetime\<close> and the parsed policy before validation.\<close>

record toml_datetime =
  dt_date :: "(nat \<times> nat \<times> nat) option"
  dt_time :: "(nat \<times> nat \<times> nat \<times> nat) option"
  dt_offset :: "int option option"

record WaiverDtoV1 =
  wd_id :: string
  wd_rule :: string
  wd_path :: string
  wd_ceiling_lines :: "u64 option"
  wd_ceiling_bytes :: "u64 option"
  wd_reason :: string
  wd_expires :: toml_datetime

record PolicyDtoV1 =
  dto_version :: nat
  dto_rules :: "RuleV1 list"
  dto_exclusions :: "ExclusionV1 list"
  dto_waivers :: "WaiverDtoV1 list"

text \<open>
  The third-party functions the crate calls. \<open>glob_new\<close> is \<open>GlobBuilder::build\<close> with
  \<open>literal_separator(true)\<close> and \<open>backslash_escape(false)\<close>, \<open>globset_new\<close> is
  \<open>GlobSetBuilder::build\<close> (both give the error, if any); \<open>toml_version\<close> parses a generic
  value and reads its integer field \<open>version\<close>.
\<close>

record budget_env =
  glob_new :: "string \<Rightarrow> string option"
  glob_is_match :: "string \<Rightarrow> string \<Rightarrow> bool"
  globset_new :: "string list \<Rightarrow> string option"
  globset_is_match :: "string list \<Rightarrow> string \<Rightarrow> bool"
  globset_matches :: "string list \<Rightarrow> string \<Rightarrow> nat list"
  sha256_digest :: "string \<Rightarrow> string"
  json_policy :: "CanonicalPolicyV1 \<Rightarrow> string"
  toml_version :: "string \<Rightarrow> string + int option"
  toml_policy :: "string \<Rightarrow> string + PolicyDtoV1"

text \<open>
  What \<open>globset\<close> documents of a set of globs: it matches when one of its globs
  does, and \<open>matches\<close> lists the indices of the globs that match.
\<close>

definition glob_laws :: "budget_env \<Rightarrow> bool" where
  "glob_laws env \<longleftrightarrow>
     (\<forall>ps s. globset_is_match env ps s \<longleftrightarrow> (\<exists>p \<in> set ps. glob_is_match env p s)) \<and>
     (\<forall>ps s. set (globset_matches env ps s) = {i. i < length ps \<and> glob_is_match env (ps ! i) s})"

definition sha256_hex :: "budget_env \<Rightarrow> string \<Rightarrow> string" where
  "sha256_hex env bytes =
     concat (map (\<lambda>b. [hex_digit (byte b div 16), hex_digit (byte b mod 16)])
       (sha256_digest env bytes))"

definition exclusion_key :: "ExclusionV1 \<Rightarrow> string \<times> ExclusionKindV1 \<times> string" where
  "exclusion_key x = (x_pattern x, x_kind x, x_reason x)"

definition canonical_rule :: "RuleV1 \<Rightarrow> CanonicalRuleV1" where
  "canonical_rule r =
     \<lparr>cr_id = r_id r, cr_category = r_category r,
      cr_include = remdups_adj (sort (r_include r)),
      cr_exclude = remdups_adj (sort (r_exclude r)),
      cr_notice_lines = r_notice_lines r, cr_warn_lines = r_warn_lines r,
      cr_max_lines = r_max_lines r, cr_notice_bytes = r_notice_bytes r,
      cr_warn_bytes = r_warn_bytes r, cr_max_bytes = r_max_bytes r\<rparr>"

definition canonical_policy :: "RuleV1 list \<Rightarrow> ExclusionV1 list \<Rightarrow> WaiverV1 list \<Rightarrow> CanonicalPolicyV1" where
  "canonical_policy rules exclusions waivers =
     \<lparr>cp_version = 1,
      cp_rules = sort_key cr_id (map canonical_rule rules),
      cp_exclusions = sort_key exclusion_key exclusions,
      cp_waivers = sort_key w_id waivers\<rparr>"

definition canonical_semantic_input ::
  "budget_env \<Rightarrow> RuleV1 list \<Rightarrow> ExclusionV1 list \<Rightarrow> WaiverV1 list \<Rightarrow> string" where
  "canonical_semantic_input env rules exclusions waivers =
     json_policy env (canonical_policy rules exclusions waivers)"

section \<open>Policies\<close>

record RuleMatchersV1 =
  rm_include :: "string list"
  rm_exclude :: "string list"

record PolicyV1 =
  p_rules :: "RuleV1 list"
  p_exclusions :: "ExclusionV1 list"
  p_waivers :: "WaiverV1 list"
  p_identity :: PolicyIdentityV1
  p_rule_matchers :: "RuleMatchersV1 list"
  p_exclusion_matchers :: "string list"
  p_waiver_by_id :: "(string, nat) btree_map"
  p_waiver_by_target :: "(string, (string, nat) btree_map) btree_map"

datatype PathDispositionV1 =
    Outside
  | Excluded ExclusionV1
  | LocallyExcluded
  | Governed RuleV1

record InvalidPolicyV1 =
  ip_raw_sha256 :: string
  ip_diagnostics :: "BudgetDiagnosticV1 list"

definition invalid_policy_display :: "InvalidPolicyV1 \<Rightarrow> string" where
  "invalid_policy_display p =
     (case ip_diagnostics p of [] \<Rightarrow> ''invalid file-budget policy'' | d # _ \<Rightarrow> d_message d)"

definition invalid_policy :: "string \<Rightarrow> BudgetDiagnosticV1 list \<Rightarrow> InvalidPolicyV1" where
  "invalid_policy raw ds = \<lparr>ip_raw_sha256 = raw, ip_diagnostics = sort_diagnostics ds\<rparr>"

definition policy_diagnostic :: "string \<Rightarrow> BudgetDiagnosticV1" where
  "policy_diagnostic message = new_diagnostic Error PolicyInvalid message"

definition waiver_diagnostic :: "WaiverV1 \<Rightarrow> string \<Rightarrow> BudgetDiagnosticV1" where
  "waiver_diagnostic w message =
     for_waiver (w_id w) (for_rule (w_rule w) (at_path (w_path w)
       (new_diagnostic Error WaiverInvalid message)))"

definition with_related_message :: "string \<Rightarrow> BudgetDiagnosticV1 \<Rightarrow> BudgetDiagnosticV1" where
  "with_related_message related d = d\<lparr>d_message := d_message d @ '': '' @ related\<rparr>"

section \<open>Candidate paths\<close>

definition has_windows_drive_prefix :: "string \<Rightarrow> bool" where
  "has_windows_drive_prefix value \<longleftrightarrow>
     2 \<le> length value \<and> is_ascii_alphabetic (value ! 0) \<and> value ! 1 = CHR '':''"

definition bad_component :: "string \<Rightarrow> bool" where
  "bad_component c \<longleftrightarrow> c = [] \<or> c = ''.'' \<or> c = ''..''"

text \<open>\<^const>\<open>None\<close> is \<open>Ok(())\<close>; otherwise the error message.\<close>

definition validate_candidate_path_shape :: "string \<Rightarrow> string option" where
  "validate_candidate_path_shape path =
     (if path = [] then Some ''path must be non-empty''
      else if MAX_CANDIDATE_PATH_BYTES_V1 < length path
      then Some (''path exceeds the version 1 '' @ dec MAX_CANDIDATE_PATH_BYTES_V1 @ ''-byte limit'')
      else if CHR 0x00 \<in> set path then Some ''path must not contain NUL bytes''
      else if hd path = CHR ''/'' \<or> list_ex has_windows_drive_prefix (split_on (CHR ''/'') path)
      then Some ''path must be repository-relative''
      else if list_ex bad_component (split_on (CHR ''/'') path)
      then Some ''path contains an empty, dot, or traversal component''
      else None)"

definition is_outside_candidate_universe :: "string \<Rightarrow> bool" where
  "is_outside_candidate_universe path \<longleftrightarrow>
     hd (split_on (CHR ''/'') path) = ''.agent'' \<or> hd (split_on (CHR ''/'') path) = ''.git''"

definition validate_candidate_path :: "string \<Rightarrow> string option" where
  "validate_candidate_path path =
     (case validate_candidate_path_shape path of
        Some message \<Rightarrow> Some message
      | None \<Rightarrow>
          if is_outside_candidate_universe path
          then Some ''path targets protected repository authority'' else None)"

definition glob_metachar :: "char \<Rightarrow> bool" where
  "glob_metachar c \<longleftrightarrow> c \<in> set ''*?[]{}''"

definition validate_exact_path :: "string \<Rightarrow> string option" where
  "validate_exact_path path =
     (case validate_candidate_path path of
        Some message \<Rightarrow> Some message
      | None \<Rightarrow>
          if list_ex glob_metachar path then Some ''waiver path must not contain glob syntax''
          else None)"

section \<open>Classification of a path\<close>

text \<open>\<open>Iterator::min_by\<close>: the first of the least elements.\<close>

fun min_by_key :: "('a \<Rightarrow> 'b::linorder) \<Rightarrow> 'a list \<Rightarrow> 'a option" where
  "min_by_key key [] = None"
| "min_by_key key (x # xs) =
     Some (fold (\<lambda>y best. if key y < key best then y else best) xs x)"

fun matching_rules :: "budget_env \<Rightarrow> string \<Rightarrow> (RuleV1 \<times> RuleMatchersV1) list \<Rightarrow> RuleV1 list \<times> bool" where
  "matching_rules env path [] = ([], False)"
| "matching_rules env path ((rule, matchers) # rest) =
     (let (ms, locally_excluded) = matching_rules env path rest in
      if \<not> globset_is_match env (rm_include matchers) path then (ms, locally_excluded)
      else if globset_is_match env (rm_exclude matchers) path then (ms, True)
      else (rule # ms, locally_excluded))"

definition classify_path ::
  "budget_env \<Rightarrow> PolicyV1 \<Rightarrow> string \<Rightarrow> BudgetDiagnosticV1 + PathDispositionV1" where
  "classify_path env policy path =
     (case validate_candidate_path_shape path of
        Some message \<Rightarrow> Inl (at_path path (new_diagnostic Error ScopeIncomplete message))
      | None \<Rightarrow>
        if is_outside_candidate_universe path then Inr Outside
        else
          (case min_by_key (\<lambda>i. exclusion_key (p_exclusions policy ! i))
                  (globset_matches env (p_exclusion_matchers policy) path) of
             Some index \<Rightarrow> Inr (Excluded (p_exclusions policy ! index))
           | None \<Rightarrow>
             (let (ms, locally_excluded) =
                    matching_rules env path (zip (p_rules policy) (p_rule_matchers policy)) in
              case ms of
                [] \<Rightarrow> Inr (if locally_excluded then LocallyExcluded else Outside)
              | [rule] \<Rightarrow> Inr (Governed rule)
              | _ \<Rightarrow>
                Inl (at_path path (new_diagnostic Error RuleAmbiguous
                  (''path `'' @ path @ ''` matches multiple effective rules: ''
                   @ join_with '', '' (sort (map r_id ms))))))))"

definition waiver_by_id :: "PolicyV1 \<Rightarrow> string \<Rightarrow> WaiverV1 option" where
  "waiver_by_id policy ident = map_option (\<lambda>i. p_waivers policy ! i) (bt_get (p_waiver_by_id policy) ident)"

definition waiver_for :: "PolicyV1 \<Rightarrow> string \<Rightarrow> string \<Rightarrow> WaiverV1 option" where
  "waiver_for policy rule path =
     (case bt_get (p_waiver_by_target policy) rule of
        None \<Rightarrow> None
      | Some by_path \<Rightarrow> map_option (\<lambda>i. p_waivers policy ! i) (bt_get by_path path))"

section \<open>Lemmas on dates\<close>

lemma dec_single [simp]: "n < 10 \<Longrightarrow> dec n = [digit_char n]"
  by (subst dec.simps) simp

lemma digit_char_0 [simp]: "digit_char 0 = CHR ''0''"
  by (simp add: digit_char_def char_of_def bit_0)

lemma dec_pad_Suc: "0 < w \<Longrightarrow> dec_pad (Suc w) n = dec_pad w (n div 10) @ [digit_char (n mod 10)]"
proof (cases "n < 10")
  case True
  assume "0 < w"
  then show ?thesis
    using True by (cases w) (simp_all add: dec_pad_def replicate_append_same)
next
  case False
  then have "dec n = dec (n div 10) @ [digit_char (n mod 10)]"
    by (subst dec.simps) simp
  then show ?thesis by (simp add: dec_pad_def)
qed

lemma digit_char_byte: "is_ascii_digit c \<Longrightarrow> digit_char (byte c - 48) = c"
  by (auto simp: is_ascii_digit_def digit_char_def)

lemma digits_value_less: "list_all is_ascii_digit s \<Longrightarrow> digits_value s < 10 ^ length s"
proof (induction s rule: rev_induct)
  case (snoc c s)
  then have "byte c - 48 < 10" by (auto simp: is_ascii_digit_def)
  with snoc show ?case by simp
qed simp

text \<open>Printing with leading zeros inverts reading a string of digits of that width.\<close>

lemma dec_pad_digits_value:
  "s \<noteq> [] \<Longrightarrow> list_all is_ascii_digit s \<Longrightarrow> dec_pad (length s) (digits_value s) = s"
proof (induction s rule: rev_induct)
  case (snoc c s)
  have c: "is_ascii_digit c" using snoc.prems by simp
  then have small: "byte c - 48 < 10" by (auto simp: is_ascii_digit_def)
  show ?case
  proof (cases "s = []")
    case True
    with small c show ?thesis by (simp add: digits_value_def dec_pad_def digit_char_byte)
  next
    case False
    with snoc small c show ?thesis by (simp add: dec_pad_Suc digit_char_byte)
  qed
qed simp

lemma is_valid_date_bounds:
  "is_valid_date y m d \<Longrightarrow> y < 10 ^ 4 \<and> m < 10 ^ 2 \<and> d < 10 ^ 2 \<and> 0 < y \<and> 0 < m \<and> 0 < d"
  by (auto simp: is_valid_date_def Let_def split: if_splits)

lemma new_date_Inr_iff:
  "new_date y m d = Inr t \<longleftrightarrow>
     is_valid_date y m d \<and> t = \<lparr>date_year = y, date_month = m, date_day = d\<rparr>"
  by (auto simp: new_date_def)

lemma ten_chars:
  assumes "length s = 10"
  obtains a b c d e f g h i j where "s = [a, b, c, d, e, f, g, h, i, j]"
  using assms by (auto simp: numeral_eq_Suc length_Suc_conv)

lemma parse_iso_Inr_shape:
  assumes "parse_iso value = Inr d"
  shows "date_display d = value \<and> is_valid_date (date_year d) (date_month d) (date_day d)"
proof -
  from assms have len: "length value = 10" and dash: "value ! 4 = CHR ''-''" "value ! 7 = CHR ''-''"
    and dig: "\<forall>i \<in> set [0..<length value]. i \<in> {4, 7} \<or> is_ascii_digit (value ! i)"
    by (auto simp: parse_iso_def Let_def split: if_splits)
  obtain a b c e x f g y h i where v: "value = [a, b, c, e, x, f, g, y, h, i]"
    using len by (rule ten_chars)
  have xy: "x = CHR ''-''" "y = CHR ''-''" using dash v by simp_all
  have ds: "list_all is_ascii_digit [a, b, c, e]" "list_all is_ascii_digit [f, g]"
      "list_all is_ascii_digit [h, i]"
    using dig v by (simp_all add: upt_rec numeral_eq_Suc)
  let ?v = digits_value
  from assms v ds have "new_date (?v [a, b, c, e]) (?v [f, g]) (?v [h, i]) = Inr d"
    by (auto simp: parse_iso_def Let_def parse_unsigned_def split: if_splits)
  then have valid: "is_valid_date (?v [a, b, c, e]) (?v [f, g]) (?v [h, i])"
    and d: "d = \<lparr>date_year = ?v [a, b, c, e], date_month = ?v [f, g], date_day = ?v [h, i]\<rparr>"
    by (auto simp: new_date_Inr_iff)
  have "dec_pad 4 (?v [a, b, c, e]) = [a, b, c, e]" "dec_pad 2 (?v [f, g]) = [f, g]"
      "dec_pad 2 (?v [h, i]) = [h, i]"
    using ds dec_pad_digits_value [of "[a, b, c, e]"] dec_pad_digits_value [of "[f, g]"]
      dec_pad_digits_value [of "[h, i]"] by (simp_all add: numeral_eq_Suc)
  with d v xy valid show ?thesis by (simp add: date_display_def)
qed

lemma parse_iso_display:
  assumes "is_valid_date (date_year d) (date_month d) (date_day d)"
  shows "parse_iso (date_display d) = Inr d"
proof -
  let ?Y = "dec_pad 4 (date_year d)" and ?M = "dec_pad 2 (date_month d)"
    and ?D = "dec_pad 2 (date_day d)"
  note bounds = is_valid_date_bounds [OF assms]
  have len: "length ?Y = 4" "length ?M = 2" "length ?D = 2"
    using bounds by (simp_all add: length_dec_pad)
  from len(1) obtain a b c e where Y: "?Y = [a, b, c, e]"
    by (auto simp: numeral_eq_Suc length_Suc_conv)
  from len(2) obtain f g where M: "?M = [f, g]"
    by (auto simp: numeral_eq_Suc length_Suc_conv)
  from len(3) obtain h i where D: "?D = [h, i]"
    by (auto simp: numeral_eq_Suc length_Suc_conv)
  have digits: "list_all is_ascii_digit ?Y" "list_all is_ascii_digit ?M" "list_all is_ascii_digit ?D"
    by (rule dec_pad_digits)+
  have parsed: "parse_unsigned 65535 ?Y = Some (date_year d)"
      "parse_unsigned 255 ?M = Some (date_month d)" "parse_unsigned 255 ?D = Some (date_day d)"
    using bounds by (simp_all add: parse_dec_pad)
  have "date_display d = [a, b, c, e, CHR ''-'', f, g, CHR ''-'', h, i]"
    by (simp add: date_display_def Y M D)
  moreover have "take 4 [a, b, c, e, CHR ''-'', f, g, CHR ''-'', h, i] = [a, b, c, e]"
      "take 2 (drop 5 [a, b, c, e, CHR ''-'', f, g, CHR ''-'', h, i]) = [f, g]"
      "take 2 (drop 8 [a, b, c, e, CHR ''-'', f, g, CHR ''-'', h, i]) = [h, i]"
    by (simp_all add: numeral_eq_Suc)
  ultimately show ?thesis
    using parsed digits assms unfolding Y M D
    by (simp add: parse_iso_def new_date_Inr_iff Let_def)
qed

section \<open>Lemmas on the identity\<close>

lemma sort_key_eq_iff_mset:
  fixes key :: "'a \<Rightarrow> 'b::linorder"
  assumes "inj_on key (set xs)"
  shows "sort_key key xs = sort_key key ys \<longleftrightarrow> mset xs = mset ys"
proof
  assume "mset xs = mset ys"
  with assms show "sort_key key xs = sort_key key ys"
    by (intro sort_key_inj_key_eq) simp_all
next
  assume "sort_key key xs = sort_key key ys"
  then have "mset (sort_key key xs) = mset (sort_key key ys)" by simp
  then show "mset xs = mset ys" by simp
qed

lemma inj_exclusion_key: "inj exclusion_key"
  by (rule injI) (simp add: exclusion_key_def)

lemma cr_id_canonical_rule [simp]: "cr_id (canonical_rule r) = r_id r"
  by (simp add: canonical_rule_def)

lemma canonical_rule_eq_iff:
  "canonical_rule a = canonical_rule b \<longleftrightarrow>
     b = a\<lparr>r_include := r_include b, r_exclude := r_exclude b\<rparr> \<and>
     set (r_include a) = set (r_include b) \<and> set (r_exclude a) = set (r_exclude b)"
  by (cases a; cases b) (auto simp: canonical_rule_def remdups_adj_sort
      dest!: arg_cong [where f = set])

lemma canonical_policy_eq_iff:
  assumes "distinct (map r_id rules)" and "distinct (map w_id waivers)"
  shows "canonical_policy rules exclusions waivers = canonical_policy rules' exclusions' waivers' \<longleftrightarrow>
    mset (map canonical_rule rules) = mset (map canonical_rule rules') \<and>
    mset exclusions = mset exclusions' \<and> mset waivers = mset waivers'"
proof -
  have "distinct (map cr_id (map canonical_rule rules))"
    using assms(1) by (simp add: comp_def)
  then have "inj_on cr_id (set (map canonical_rule rules))" by (simp only: distinct_map)
  moreover have "inj_on w_id (set waivers)" using assms(2) by (simp add: distinct_map)
  moreover have "inj_on exclusion_key (set exclusions)"
    using inj_exclusion_key by (rule inj_on_subset) simp
  ultimately show ?thesis
    by (simp add: canonical_policy_def sort_key_eq_iff_mset)
qed

lemma mset_map_reorder:
  "mset (map f xs) = mset (map g ys) \<Longrightarrow>
     \<exists>zs. mset zs = mset ys \<and> list_all2 (\<lambda>x z. f x = g z) xs zs"
proof (induction xs arbitrary: ys)
  case (Cons x xs)
  have "f x \<in># mset (map g ys)" using Cons.prems by (metis list.set_intros(1) list.simps(9) set_mset_mset)
  then obtain y where y: "y \<in> set ys" "f x = g y" by auto
  from Cons.prems y have "mset (map f xs) = mset (map g (remove1 y ys))"
    by (simp add: image_mset_Diff) (metis add_mset_remove_trivial)
  from Cons.IH [OF this] obtain zs where
    "mset zs = mset (remove1 y ys)" "list_all2 (\<lambda>x z. f x = g z) xs zs" by blast
  with y have "mset (y # zs) = mset ys" "list_all2 (\<lambda>x z. f x = g z) (x # xs) (y # zs)" by auto
  then show ?case by blast
qed simp

lemma list_all2_mset_map:
  "list_all2 (\<lambda>x z. f x = f z) xs zs \<Longrightarrow> mset (map f xs) = mset (map f zs)"
  by (induction rule: list_all2_induct) auto

section \<open>Lemmas on classification\<close>

definition governs :: "budget_env \<Rightarrow> string \<Rightarrow> RuleV1 \<Rightarrow> bool" where
  "governs env path rule \<longleftrightarrow>
     (\<exists>p \<in> set (r_include rule). glob_is_match env p path) \<and>
     \<not> (\<exists>p \<in> set (r_exclude rule). glob_is_match env p path)"

definition locally_excludes :: "budget_env \<Rightarrow> string \<Rightarrow> RuleV1 \<Rightarrow> bool" where
  "locally_excludes env path rule \<longleftrightarrow>
     (\<exists>p \<in> set (r_include rule). glob_is_match env p path) \<and>
     (\<exists>p \<in> set (r_exclude rule). glob_is_match env p path)"

definition excluded_by :: "budget_env \<Rightarrow> string \<Rightarrow> ExclusionV1 \<Rightarrow> bool" where
  "excluded_by env path x \<longleftrightarrow> glob_is_match env (x_pattern x) path"

definition candidate_path :: "string \<Rightarrow> bool" where
  "candidate_path path \<longleftrightarrow>
     validate_candidate_path_shape path = None \<and> \<not> is_outside_candidate_universe path"

text \<open>The matchers of a policy are those of its rules and exclusions.\<close>

definition matchers_ok :: "PolicyV1 \<Rightarrow> bool" where
  "matchers_ok policy \<longleftrightarrow>
     p_rule_matchers policy =
       map (\<lambda>r. \<lparr>rm_include = r_include r, rm_exclude = r_exclude r\<rparr>) (p_rules policy) \<and>
     p_exclusion_matchers policy = map x_pattern (p_exclusions policy)"

lemma fold_min_by_key:
  "(fold (\<lambda>y best. if key y < key best then y else best) xs x) \<in> insert x (set xs) \<and>
   (\<forall>y \<in> insert x (set xs). key (fold (\<lambda>y best. if key y < key best then y else best) xs x) \<le> key y)"
  for key :: "'a \<Rightarrow> 'b::linorder"
proof (induction xs arbitrary: x)
  case (Cons z xs)
  show ?case
  proof (cases "key z < key x")
    case True
    then show ?thesis using Cons.IH [of z] by fastforce
  next
    case False
    then show ?thesis using Cons.IH [of x] by fastforce
  qed
qed simp

lemma min_by_key_Some:
  "min_by_key key xs = Some m \<Longrightarrow> m \<in> set xs \<and> (\<forall>y \<in> set xs. key m \<le> key y)"
  using fold_min_by_key [of key "tl xs" "hd xs"] by (cases xs) auto

lemma min_by_key_None_iff [simp]: "min_by_key key xs = None \<longleftrightarrow> xs = []"
  by (cases xs) auto

lemma glob_laws_is_match:
  "glob_laws env \<Longrightarrow> globset_is_match env ps s \<longleftrightarrow> (\<exists>p \<in> set ps. glob_is_match env p s)"
  by (simp add: glob_laws_def)

lemma glob_laws_matches:
  "glob_laws env \<Longrightarrow>
     i \<in> set (globset_matches env ps s) \<longleftrightarrow> i < length ps \<and> glob_is_match env (ps ! i) s"
  by (simp add: glob_laws_def)

lemma matching_rules_eq:
  assumes "glob_laws env"
  shows "matching_rules env path
      (zip rules (map (\<lambda>r. \<lparr>rm_include = r_include r, rm_exclude = r_exclude r\<rparr>) rules)) =
    (filter (governs env path) rules,
     \<exists>r \<in> set rules. (\<exists>p \<in> set (r_include r). glob_is_match env p path) \<and>
       (\<exists>p \<in> set (r_exclude r). glob_is_match env p path))"
  by (induction rules) (auto simp: glob_laws_is_match [OF assms] governs_def)

lemma matching_exclusions_empty_iff:
  assumes "glob_laws env" and "matchers_ok policy"
  shows "globset_matches env (p_exclusion_matchers policy) path = [] \<longleftrightarrow>
    (\<forall>x \<in> set (p_exclusions policy). \<not> excluded_by env path x)"
proof -
  have "globset_matches env (p_exclusion_matchers policy) path = [] \<longleftrightarrow>
      (\<forall>i. i \<notin> set (globset_matches env (p_exclusion_matchers policy) path))"
    by (metis list.set_intros(1) neq_Nil_conv set_empty empty_iff)
  also have "\<dots> \<longleftrightarrow> (\<forall>i < length (p_exclusions policy). \<not> excluded_by env path (p_exclusions policy ! i))"
    using assms(2) by (auto simp: glob_laws_matches [OF assms(1)] matchers_ok_def excluded_by_def)
  finally show ?thesis by (simp add: all_set_conv_all_nth)
qed

lemma list_case_Governed:
  "(case ms of [] \<Rightarrow> Inr (if b then LocallyExcluded else Outside) | [r] \<Rightarrow> Inr (Governed r)
     | _ \<Rightarrow> Inl d) = Inr (Governed rule) \<longleftrightarrow> ms = [rule]"
  by (auto split: list.splits)

lemma classify_unexcluded:
  assumes "glob_laws env" "matchers_ok policy" "candidate_path path"
    and "\<forall>x \<in> set (p_exclusions policy). \<not> excluded_by env path x"
  shows "(\<exists>rule. classify_path env policy path = Inr (Governed rule) \<and>
            filter (governs env path) (p_rules policy) = [rule]) \<or>
         (classify_path env policy path =
            Inr (if \<exists>r \<in> set (p_rules policy). locally_excludes env path r then LocallyExcluded else Outside) \<and>
            filter (governs env path) (p_rules policy) = []) \<or>
         (\<exists>d. classify_path env policy path = Inl d \<and> d_code d = RuleAmbiguous \<and> d_path d = Some path \<and>
            2 \<le> length (filter (governs env path) (p_rules policy)))"
proof -
  have nil: "globset_matches env (p_exclusion_matchers policy) path = []"
    using matching_exclusions_empty_iff [OF assms(1,2)] assms(4) by blast
  have ms: "matching_rules env path (zip (p_rules policy) (p_rule_matchers policy)) =
      (filter (governs env path) (p_rules policy), \<exists>r \<in> set (p_rules policy). locally_excludes env path r)"
    using matching_rules_eq [OF assms(1)] assms(2) by (simp add: matchers_ok_def locally_excludes_def)
  show ?thesis
    using assms(3) nil
    by (cases "filter (governs env path) (p_rules policy)" rule: remdups_adj.cases)
      (auto simp: classify_path_def candidate_path_def ms at_path_def new_diagnostic_def)
qed

lemma classify_excluded:
  assumes "glob_laws env" "matchers_ok policy" "candidate_path path"
    and "x \<in> set (p_exclusions policy)" "excluded_by env path x"
  shows "\<exists>y \<in> set (p_exclusions policy). excluded_by env path y \<and>
    (\<forall>z \<in> set (p_exclusions policy). excluded_by env path z \<longrightarrow> exclusion_key y \<le> exclusion_key z) \<and>
    classify_path env policy path = Inr (Excluded y)"
proof -
  let ?ms = "globset_matches env (p_exclusion_matchers policy) path"
  let ?key = "\<lambda>i. exclusion_key (p_exclusions policy ! i)"
  have mem: "i \<in> set ?ms \<longleftrightarrow>
      i < length (p_exclusions policy) \<and> excluded_by env path (p_exclusions policy ! i)" for i
    using assms(2) by (auto simp: glob_laws_matches [OF assms(1)] matchers_ok_def excluded_by_def)
  have "?ms \<noteq> []" using matching_exclusions_empty_iff [OF assms(1,2)] assms(4,5) by blast
  then obtain k where k: "min_by_key ?key ?ms = Some k"
    using min_by_key_None_iff [of ?key ?ms] by blast
  note least = min_by_key_Some [OF k]
  let ?y = "p_exclusions policy ! k"
  have "?y \<in> set (p_exclusions policy)" "excluded_by env path ?y" using least mem by auto
  moreover have "exclusion_key ?y \<le> exclusion_key z"
    if "z \<in> set (p_exclusions policy)" "excluded_by env path z" for z
    using that least mem by (metis in_set_conv_nth)
  moreover have "classify_path env policy path = Inr (Excluded ?y)"
    using assms(3) k by (auto simp: classify_path_def candidate_path_def)
  ultimately show ?thesis by blast
qed

lemma classify_not_candidate:
  "\<not> candidate_path path \<Longrightarrow>
     (\<exists>d. classify_path env policy path = Inl d \<and> d_code d = ScopeIncomplete \<and> d_path d = Some path \<and>
        validate_candidate_path_shape path \<noteq> None) \<or>
     (classify_path env policy path = Inr Outside \<and> validate_candidate_path_shape path = None \<and>
        is_outside_candidate_universe path)"
  by (auto simp: candidate_path_def classify_path_def at_path_def new_diagnostic_def split: option.splits)

lemma classify_governed:
  assumes "glob_laws env" "matchers_ok policy"
  shows "classify_path env policy path = Inr (Governed rule) \<longleftrightarrow>
    candidate_path path \<and> (\<forall>x \<in> set (p_exclusions policy). \<not> excluded_by env path x) \<and>
    filter (governs env path) (p_rules policy) = [rule]"
proof (cases "candidate_path path")
  case False
  with classify_not_candidate [OF False, of env policy] show ?thesis by auto
next
  case True
  show ?thesis
  proof (cases "\<forall>x \<in> set (p_exclusions policy). \<not> excluded_by env path x")
    case unexcluded: True
    from classify_unexcluded [OF assms True unexcluded] True unexcluded show ?thesis by (auto split: if_splits)
  next
    case False
    then obtain x where "x \<in> set (p_exclusions policy)" "excluded_by env path x" by blast
    from classify_excluded [OF assms True this] False show ?thesis by auto
  qed
qed


section \<open>A concrete environment\<close>

text \<open>
  Globs that are literal paths, or a literal prefix followed by two stars: an instance of
  the third-party functions on which the properties are applied to concrete policies.
\<close>

definition literal_match :: "string \<Rightarrow> string \<Rightarrow> bool" where
  "literal_match p s \<longleftrightarrow>
     p = s \<or> drop (length p - 2) p = ''**'' \<and> take (length p - 2) p = take (length p - 2) s"

definition literal_env :: "PolicyDtoV1 \<Rightarrow> budget_env" where
  "literal_env dto =
     \<lparr>glob_new = (\<lambda>_. None), glob_is_match = literal_match, globset_new = (\<lambda>_. None),
      globset_is_match = (\<lambda>ps s. list_ex (\<lambda>p. literal_match p s) ps),
      globset_matches = (\<lambda>ps s. filter (\<lambda>i. literal_match (ps ! i) s) [0..<length ps]),
      sha256_digest = (\<lambda>s. take 32 (s @ replicate 32 (CHR 0x00))),
      json_policy = (\<lambda>_. []), toml_version = (\<lambda>_. Inr (Some 1)),
      toml_policy = (\<lambda>_. Inr dto)\<rparr>"

lemma glob_laws_literal [simp]: "glob_laws (literal_env dto)"
  by (auto simp: glob_laws_def literal_env_def list_ex_iff)

lemma literal_env_simps [simp]:
  "glob_new (literal_env dto) p = None" "glob_is_match (literal_env dto) = literal_match"
  "globset_new (literal_env dto) ps = None" "toml_version (literal_env dto) s = Inr (Some 1)"
  "toml_policy (literal_env dto) s = Inr dto"
  by (simp_all add: literal_env_def)

definition sample_rule :: RuleV1 where
  "sample_rule =
     \<lparr>r_id = ''src'', r_category = None, r_include = [''src/**''], r_exclude = [''src/gen/**''],
      r_notice_lines = None, r_warn_lines = Some 80, r_max_lines = Some 100,
      r_notice_bytes = None, r_warn_bytes = None, r_max_bytes = None\<rparr>"

definition sample_exclusion :: ExclusionV1 where
  "sample_exclusion = \<lparr>x_pattern = ''vendor/**'', x_kind = Vendored, x_reason = ''third party''\<rparr>"

definition sample_waiver :: WaiverV1 where
  "sample_waiver =
     \<lparr>w_id = ''big'', w_rule = ''src'', w_path = ''src/big'', w_ceiling_lines = Some 150,
      w_ceiling_bytes = None, w_reason = ''split pending'',
      w_expires = \<lparr>date_year = 2026, date_month = 12, date_day = 31\<rparr>\<rparr>"

definition sample_dto :: PolicyDtoV1 where
  "sample_dto =
     \<lparr>dto_version = 1, dto_rules = [sample_rule], dto_exclusions = [sample_exclusion],
      dto_waivers =
        [\<lparr>wd_id = ''big'', wd_rule = ''src'', wd_path = ''src/big'', wd_ceiling_lines = Some 150,
          wd_ceiling_bytes = None, wd_reason = ''split pending'',
          wd_expires = \<lparr>dt_date = Some (2026, 12, 31), dt_time = None, dt_offset = None\<rparr>\<rparr>]\<rparr>"

definition sample_policy :: PolicyV1 where
  "sample_policy =
     \<lparr>p_rules = [sample_rule], p_exclusions = [sample_exclusion], p_waivers = [sample_waiver],
      p_identity = \<lparr>raw_sha256 = [], semantic_sha256 = [], semantic_input = []\<rparr>,
      p_rule_matchers = [\<lparr>rm_include = [''src/**''], rm_exclude = [''src/gen/**'']\<rparr>],
      p_exclusion_matchers = [''vendor/**''],
      p_waiver_by_id = [(''big'', 0)], p_waiver_by_target = [(''src'', [(''src/big'', 0)])]\<rparr>"

abbreviation sample_env :: budget_env where
  "sample_env \<equiv> literal_env sample_dto"

lemmas sample_defs = sample_rule_def sample_exclusion_def sample_waiver_def sample_policy_def
  sample_dto_def

lemma matchers_ok_sample: "matchers_ok sample_policy"
  by (simp add: matchers_ok_def sample_defs)

section \<open>Properties\<close>

text \<open>
  C3. Dates round trip. A string parses as an ISO calendar date exactly when it is the
  printed form of a valid date of the proleptic Gregorian calendar, and the parsed date
  is that date: parsing inverts printing on valid dates, printing inverts parsing, and
  nothing else is accepted.
\<close>

theorem date_iso_roundtrip:
  "parse_iso s = Inr d \<longleftrightarrow>
     s = date_display d \<and> is_valid_date (date_year d) (date_month d) (date_day d)"
  using parse_iso_Inr_shape parse_iso_display by metis

text \<open>
  C4. The canonical identity of a policy is the policy up to presentation. For policies with
  distinct rule and waiver ids, the canonical forms are equal exactly when the rules
  are a permutation of each other up to the order and repetition of their include and
  exclude patterns, and the exclusions and the waivers are permutations of each other.
\<close>

theorem canonical_identity_iff:
  assumes "distinct (map r_id rules)" and "distinct (map w_id waivers)"
  shows "canonical_policy rules exclusions waivers = canonical_policy rules' exclusions' waivers' \<longleftrightarrow>
    (\<exists>permuted. mset permuted = mset rules' \<and>
       list_all2 (\<lambda>a b. b = a\<lparr>r_include := r_include b, r_exclude := r_exclude b\<rparr> \<and>
         set (r_include a) = set (r_include b) \<and> set (r_exclude a) = set (r_exclude b))
         rules permuted) \<and>
    mset exclusions = mset exclusions' \<and> mset waivers = mset waivers'"
proof -
  have "mset (map canonical_rule rules) = mset (map canonical_rule rules') \<longleftrightarrow>
      (\<exists>permuted. mset permuted = mset rules' \<and>
         list_all2 (\<lambda>a b. canonical_rule a = canonical_rule b) rules permuted)"
    (is "?eq \<longleftrightarrow> ?perm")
  proof
    assume ?eq
    then show ?perm by (rule mset_map_reorder)
  next
    assume ?perm
    then obtain permuted where p: "mset permuted = mset rules'"
      "list_all2 (\<lambda>a b. canonical_rule a = canonical_rule b) rules permuted" by blast
    from list_all2_mset_map [OF p(2)] p(1) show ?eq by simp
  qed
  then show ?thesis
    unfolding canonical_policy_eq_iff [OF assms] by (simp only: canonical_rule_eq_iff)
qed

theorem canonical_identity_iff_witness:
  "canonical_policy [sample_rule] [sample_exclusion] [sample_waiver] =
   canonical_policy [sample_rule\<lparr>r_include := [''src/**'', ''src/**'']\<rparr>] [sample_exclusion] [sample_waiver]"
proof -
  have "distinct (map r_id [sample_rule])" "distinct (map w_id [sample_waiver])" by simp_all
  from canonical_identity_iff [OF this] show ?thesis
    by (auto intro!: exI [of _ "[sample_rule\<lparr>r_include := [''src/**'', ''src/**'']\<rparr>]"]
        simp: sample_rule_def)
qed

text \<open>
  C5. Classification of a path. With the documented behaviour of glob sets and
  a policy whose matchers are those of its rules, every disposition is characterised. A path
  is governed by a rule exactly when it is a well-formed repository path outside \<open>.agent\<close> and
  \<open>.git\<close>, no exclusion matches it and that rule is the only one that includes it without
  excluding it. It is excluded exactly when it is such a path and an exclusion matches, and
  then by the least one that matches. It is locally excluded exactly when it is such a path,
  no exclusion matches it, no rule governs it and some rule includes and excludes it; and
  outside when it is well formed and in \<open>.agent\<close> or \<open>.git\<close>, or when neither an exclusion nor
  the include of any rule takes it. It is an error exactly when the path is malformed or
  several rules govern it, and the diagnostic has the code of that case and the path.
\<close>

theorem classify_path_spec:
  assumes "glob_laws env" and "matchers_ok policy"
  shows "(classify_path env policy path = Inr (Governed rule) \<longleftrightarrow>
      candidate_path path \<and> (\<forall>x \<in> set (p_exclusions policy). \<not> excluded_by env path x) \<and>
      filter (governs env path) (p_rules policy) = [rule]) \<and>
    ((\<exists>x. classify_path env policy path = Inr (Excluded x)) \<longleftrightarrow>
      candidate_path path \<and> (\<exists>x \<in> set (p_exclusions policy). excluded_by env path x)) \<and>
    (classify_path env policy path = Inr (Excluded x) \<longrightarrow>
      x \<in> set (p_exclusions policy) \<and> excluded_by env path x \<and>
      (\<forall>y \<in> set (p_exclusions policy). excluded_by env path y \<longrightarrow> exclusion_key x \<le> exclusion_key y)) \<and>
    (classify_path env policy path = Inr LocallyExcluded \<longleftrightarrow>
      candidate_path path \<and> (\<forall>x \<in> set (p_exclusions policy). \<not> excluded_by env path x) \<and>
      filter (governs env path) (p_rules policy) = [] \<and>
      (\<exists>r \<in> set (p_rules policy). locally_excludes env path r)) \<and>
    (classify_path env policy path = Inr Outside \<longleftrightarrow>
      validate_candidate_path_shape path = None \<and> is_outside_candidate_universe path \<or>
      candidate_path path \<and> (\<forall>x \<in> set (p_exclusions policy). \<not> excluded_by env path x) \<and>
      (\<forall>r \<in> set (p_rules policy). \<forall>p \<in> set (r_include r). \<not> glob_is_match env p path)) \<and>
    ((\<exists>d. classify_path env policy path = Inl d) \<longleftrightarrow>
      validate_candidate_path_shape path \<noteq> None \<or>
      candidate_path path \<and> (\<forall>x \<in> set (p_exclusions policy). \<not> excluded_by env path x) \<and>
      2 \<le> length (filter (governs env path) (p_rules policy))) \<and>
    (classify_path env policy path = Inl d \<longrightarrow>
      d_path d = Some path \<and>
      d_code d = (if validate_candidate_path_shape path \<noteq> None then ScopeIncomplete else RuleAmbiguous))"
proof -
  have unmatched: "(\<forall>r \<in> set (p_rules policy). \<forall>p \<in> set (r_include r). \<not> glob_is_match env p path) \<longleftrightarrow>
      filter (governs env path) (p_rules policy) = [] \<and> \<not> (\<exists>r \<in> set (p_rules policy). locally_excludes env path r)"
    unfolding filter_empty_conv governs_def locally_excludes_def by blast
  consider (bad) "\<not> candidate_path path"
    | (excl) y where "candidate_path path" "y \<in> set (p_exclusions policy)" "excluded_by env path y"
    | (plain) "candidate_path path" "\<forall>x \<in> set (p_exclusions policy). \<not> excluded_by env path x"
    by blast
  then show ?thesis
  proof cases
    case bad
    from classify_not_candidate [OF bad, of env policy] bad show ?thesis unfolding unmatched by (auto simp: candidate_path_def)
  next
    case excl
    from classify_excluded [OF assms excl] excl show ?thesis
      unfolding unmatched by (auto simp: candidate_path_def)
  next
    case plain
    from classify_unexcluded [OF assms plain] plain show ?thesis
      unfolding unmatched by (auto simp: candidate_path_def split: if_splits)
  qed
qed

theorem classify_path_spec_witness:
  "classify_path sample_env sample_policy ''src/big'' = Inr (Governed sample_rule) \<and>
   classify_path sample_env sample_policy ''src/gen/x'' = Inr LocallyExcluded \<and>
   classify_path sample_env sample_policy ''docs/x'' = Inr Outside"
proof -
  note spec = classify_path_spec [OF glob_laws_literal matchers_ok_sample]
  have paths: "candidate_path ''src/big''" "candidate_path ''src/gen/x''" "candidate_path ''docs/x''" by code_simp+
  have unexcluded: "\<forall>x \<in> set (p_exclusions sample_policy). \<not> excluded_by sample_env path x"
    if "path \<in> {''src/big'', ''src/gen/x'', ''docs/x''}" for path
    using that by (auto simp: sample_policy_def excluded_by_def sample_exclusion_def literal_match_def)
  have "filter (governs sample_env ''src/big'') (p_rules sample_policy) = [sample_rule]"
    by (simp add: sample_policy_def governs_def sample_rule_def literal_match_def)
  then have "classify_path sample_env sample_policy ''src/big'' = Inr (Governed sample_rule)"
    using paths(1) unexcluded [of "''src/big''"] spec [where path = "''src/big''"] by blast
  moreover have "filter (governs sample_env ''src/gen/x'') (p_rules sample_policy) = []"
    "\<exists>r \<in> set (p_rules sample_policy). locally_excludes sample_env ''src/gen/x'' r"
    by (simp_all add: sample_policy_def governs_def locally_excludes_def sample_rule_def literal_match_def)
  then have "classify_path sample_env sample_policy ''src/gen/x'' = Inr LocallyExcluded"
    using paths(2) unexcluded [of "''src/gen/x''"] spec [where path = "''src/gen/x''"] by blast
  moreover have "\<forall>r \<in> set (p_rules sample_policy). \<forall>p \<in> set (r_include r). \<not> glob_is_match sample_env p ''docs/x''"
    by (simp add: sample_policy_def sample_rule_def literal_match_def)
  then have "classify_path sample_env sample_policy ''docs/x'' = Inr Outside"
    using paths(3) unexcluded [of "''docs/x''"] spec [where path = "''docs/x''"] by blast
  ultimately show ?thesis by blast
qed

end
