(* ===== verification/Budget_Validation.thy ===== *)
theory Budget_Validation
  imports Budget_Policy
begin

text \<open>
  \<open>crates/jig-file-budget/src/policy/validation.rs\<close> and the parsing and building half of
  \<open>policy.rs\<close>: the validation of rules, exclusions, patterns and waivers, and the
  construction of a policy from its parsed form.

  A function that pushes onto a borrowed vector of diagnostics is the list of the
  diagnostics it pushes, in order; its caller appends them.
\<close>

section \<open>Validation\<close>

definition when_diag :: "bool \<Rightarrow> 'a \<Rightarrow> 'a list" where
  "when_diag b d = (if b then [d] else [])"

definition is_alphanumeric_byte :: "char \<Rightarrow> bool" where
  "is_alphanumeric_byte b \<longleftrightarrow> is_ascii_lowercase b \<or> is_ascii_digit b"

definition is_identifier :: "string \<Rightarrow> bool" where
  "is_identifier value =
     (if value = [] \<or> MAX_IDENTIFIER_BYTES_V1 < length value then False
      else is_alphanumeric_byte (value ! 0) \<and> is_alphanumeric_byte (value ! (length value - 1)) \<and>
           list_all (\<lambda>b. is_alphanumeric_byte b \<or> b = CHR ''-'' \<or> b = CHR ''_'') value)"

definition gt_threshold :: "u64 option \<Rightarrow> u64 option \<Rightarrow> bool" where
  "gt_threshold left right =
     (case (left, right) of (Some l, Some r) \<Rightarrow> l > r | _ \<Rightarrow> False)"

definition validate_thresholds ::
  "string \<Rightarrow> string \<Rightarrow> u64 option \<Rightarrow> u64 option \<Rightarrow> u64 option \<Rightarrow> BudgetDiagnosticV1 list" where
  "validate_thresholds rule_id metric notice warning maximum =
     when_diag (notice = Some 0 \<or> warning = Some 0 \<or> maximum = Some 0)
       (policy_diagnostic (''rule `'' @ rule_id @ ''` '' @ metric
          @ '' thresholds must be positive integers'')) @
     (if maximum = None \<and> (notice \<noteq> None \<or> warning \<noteq> None)
      then [policy_diagnostic (''rule `'' @ rule_id @ ''` cannot configure '' @ metric
              @ '' notice or warning thresholds without a maximum'')]
      else when_diag
        (gt_threshold notice warning \<or> gt_threshold notice maximum \<or> gt_threshold warning maximum)
        (policy_diagnostic (''rule `'' @ rule_id @ ''` '' @ metric
          @ '' thresholds must satisfy notice <= warning <= maximum for every enabled threshold'')))"

definition build_glob :: "budget_env \<Rightarrow> string \<Rightarrow> string + string" where
  "build_glob env pattern =
     (case glob_new env pattern of Some error \<Rightarrow> Inl error | None \<Rightarrow> Inr pattern)"

definition compile_pattern :: "budget_env \<Rightarrow> string \<Rightarrow> string + string" where
  "compile_pattern env pattern = build_glob env pattern"

fun add_globs :: "budget_env \<Rightarrow> string list \<Rightarrow> string list \<Rightarrow> string + string list" where
  "add_globs env builder [] = Inr builder"
| "add_globs env builder (pattern # patterns) =
     (case build_glob env pattern of
        Inl error \<Rightarrow> Inl error
      | Inr glob \<Rightarrow> add_globs env (builder @ [glob]) patterns)"

definition compile_patterns :: "budget_env \<Rightarrow> string list \<Rightarrow> string + string list" where
  "compile_patterns env patterns =
     (case add_globs env [] patterns of
        Inl error \<Rightarrow> Inl error
      | Inr builder \<Rightarrow>
          (case globset_new env builder of Some error \<Rightarrow> Inl error | None \<Rightarrow> Inr builder))"

definition explicitly_targets_protected_root :: "budget_env \<Rightarrow> string \<Rightarrow> bool" where
  "explicitly_targets_protected_root env first =
     (if first = ''*'' \<or> first = ''**'' then False
      else (case build_glob env first of
              Inl _ \<Rightarrow> False
            | Inr matcher \<Rightarrow>
                glob_is_match env matcher ''.agent'' \<or> glob_is_match env matcher ''.git''))"

definition validate_pattern_shape :: "budget_env \<Rightarrow> string \<Rightarrow> string option" where
  "validate_pattern_shape env pattern =
     (if pattern = [] then Some ''patterns must be non-empty''
      else if MAX_PATTERN_BYTES_V1 < length pattern
      then Some ''pattern exceeds the version 1 UTF-8 byte limit''
      else if CHR 0x00 \<in> set pattern then Some ''patterns may not contain NUL bytes''
      else if hd pattern = CHR ''/'' \<or> list_ex has_windows_drive_prefix (split_on (CHR ''/'') pattern)
      then Some ''patterns must be repository-relative''
      else if list_ex bad_component (split_on (CHR ''/'') pattern)
      then Some ''patterns may not contain empty, dot, or parent-traversal components''
      else if explicitly_targets_protected_root env (hd (split_on (CHR ''/'') pattern))
      then Some ''patterns may not explicitly target .agent or .git authority''
      else None)"

definition validate_pattern ::
  "budget_env \<Rightarrow> string \<Rightarrow> bool \<Rightarrow> string \<Rightarrow> string \<Rightarrow> BudgetDiagnosticV1 list" where
  "validate_pattern env pattern exclusion owner field =
     (case validate_pattern_shape env pattern of
        Some message \<Rightarrow>
          [policy_diagnostic (owner @ '' '' @ field @ '' pattern `'' @ pattern @ ''` is invalid: ''
             @ message)]
      | None \<Rightarrow>
        (case compile_pattern env pattern of
           Inr matcher \<Rightarrow>
             when_diag (exclusion \<and>
                 (glob_is_match env matcher POLICY_PATH \<or> glob_is_match env matcher CONTRACT_PATH))
               (policy_diagnostic (owner @ '' '' @ field @ '' pattern `'' @ pattern
                  @ ''` may not exclude `'' @ POLICY_PATH @ ''` or `'' @ CONTRACT_PATH @ ''`''))
         | Inl error \<Rightarrow>
             [policy_diagnostic (owner @ '' '' @ field @ '' pattern `'' @ pattern @ ''` is invalid: ''
                @ error)]))"

definition valid_category :: "string \<Rightarrow> bool" where
  "valid_category category \<longleftrightarrow>
     \<not> (category = [] \<or> trim category \<noteq> category \<or> MAX_CATEGORY_BYTES_V1 < length category \<or>
        has_control category)"

definition identifier_hint :: string where
  "identifier_hint =
     ''` must be 1 to '' @ dec MAX_IDENTIFIER_BYTES_V1
     @ '' bytes of lowercase ASCII letters or digits with `-` and `_` only internally''"

definition validate_rule :: "budget_env \<Rightarrow> RuleV1 \<Rightarrow> BudgetDiagnosticV1 list" where
  "validate_rule env rule =
     when_diag (\<not> is_identifier (r_id rule))
       (policy_diagnostic (''rule id `'' @ r_id rule @ identifier_hint)) @
     when_diag (case r_category rule of None \<Rightarrow> False | Some category \<Rightarrow> \<not> valid_category category)
       (policy_diagnostic (''rule `'' @ r_id rule @ ''` category must be 1 to ''
          @ dec MAX_CATEGORY_BYTES_V1
          @ '' UTF-8 bytes with no surrounding whitespace or control characters'')) @
     when_diag (r_include rule = [])
       (policy_diagnostic (''rule `'' @ r_id rule @ ''` must contain at least one include pattern'')) @
     when_diag (r_max_lines rule = None \<and> r_max_bytes rule = None)
       (policy_diagnostic (''rule `'' @ r_id rule @ ''` must enable max_lines, max_bytes, or both'')) @
     validate_thresholds (r_id rule) ''lines''
       (r_notice_lines rule) (r_warn_lines rule) (r_max_lines rule) @
     validate_thresholds (r_id rule) ''bytes''
       (r_notice_bytes rule) (r_warn_bytes rule) (r_max_bytes rule) @
     concat (map (\<lambda>p. validate_pattern env p False (r_id rule) ''include'') (r_include rule)) @
     concat (map (\<lambda>p. validate_pattern env p True (r_id rule) ''exclude'') (r_exclude rule))"

definition validate_exclusion :: "budget_env \<Rightarrow> ExclusionV1 \<Rightarrow> BudgetDiagnosticV1 list" where
  "validate_exclusion env x =
     when_diag (trim (x_reason x) = [])
       (policy_diagnostic (''exclusion `'' @ x_pattern x @ ''` must have a non-empty reason'')) @
     validate_pattern env (x_pattern x) True ''top-level'' ''exclusion''"

definition expired_on :: "PolicyDateV1 option \<Rightarrow> WaiverV1 \<Rightarrow> bool" where
  "expired_on current_date w =
     (case current_date of None \<Rightarrow> False | Some date \<Rightarrow> date_less (w_expires w) date)"

definition validate_waiver ::
  "WaiverV1 \<Rightarrow> RuleV1 list \<Rightarrow> string btree_set \<Rightarrow> PolicyDateV1 option \<Rightarrow> BudgetDiagnosticV1 list" where
  "validate_waiver w rules rule_ids current_date =
     when_diag (\<not> is_identifier (w_id w))
       (waiver_diagnostic w (''waiver id `'' @ w_id w @ identifier_hint)) @
     when_diag (w_rule w \<notin> set rule_ids)
       (waiver_diagnostic w (''waiver names unknown rule `'' @ w_rule w @ ''`'')) @
     (case find (\<lambda>r. r_id r = w_rule w) rules of
        None \<Rightarrow> []
      | Some rule \<Rightarrow>
          when_diag (w_ceiling_lines w \<noteq> None \<and> r_max_lines rule = None)
            (waiver_diagnostic w ''waiver cannot set ceiling_lines when its rule has no max_lines'') @
          when_diag (w_ceiling_bytes w \<noteq> None \<and> r_max_bytes rule = None)
            (waiver_diagnostic w ''waiver cannot set ceiling_bytes when its rule has no max_bytes'')) @
     (case validate_exact_path (w_path w) of
        None \<Rightarrow> [] | Some message \<Rightarrow> [waiver_diagnostic w message]) @
     when_diag (w_ceiling_lines w = None \<and> w_ceiling_bytes w = None)
       (waiver_diagnostic w ''waiver must set ceiling_lines, ceiling_bytes, or both'') @
     when_diag (w_ceiling_lines w = Some 0 \<or> w_ceiling_bytes w = Some 0)
       (waiver_diagnostic w ''waiver ceilings must be positive integers'') @
     when_diag (trim (w_reason w) = [])
       (waiver_diagnostic w ''waiver must have a non-empty reason'') @
     (case current_date of
        None \<Rightarrow> []
      | Some date \<Rightarrow>
          when_diag (expired_on current_date w)
            (for_waiver (w_id w) (for_rule (w_rule w) (at_path (w_path w)
              (new_diagnostic Error WaiverExpired
                (''waiver `'' @ w_id w @ ''` expired after '' @ date_display (w_expires w)
                 @ '' and is not active on '' @ date_display date))))))"

definition dto_waiver_diagnostic :: "WaiverDtoV1 \<Rightarrow> string \<Rightarrow> BudgetDiagnosticV1" where
  "dto_waiver_diagnostic dto message =
     for_waiver (wd_id dto) (for_rule (wd_rule dto) (at_path (wd_path dto)
       (new_diagnostic Error WaiverInvalid message)))"

definition convert_waiver :: "WaiverDtoV1 \<Rightarrow> BudgetDiagnosticV1 + WaiverV1" where
  "convert_waiver dto =
     (case dt_date (wd_expires dto) of
        None \<Rightarrow>
          Inl (dto_waiver_diagnostic dto
            (''waiver `'' @ wd_id dto @ ''` expiry must be an ISO calendar date''))
      | Some (year, month, day) \<Rightarrow>
        if dt_time (wd_expires dto) \<noteq> None \<or> dt_offset (wd_expires dto) \<noteq> None
        then Inl (dto_waiver_diagnostic dto
               (''waiver `'' @ wd_id dto @ ''` expiry must be a date without time or offset''))
        else
          (case new_date year month day of
             Inl message \<Rightarrow>
               Inl (dto_waiver_diagnostic dto (''waiver `'' @ wd_id dto @ ''` has '' @ message))
           | Inr expires \<Rightarrow>
               Inr \<lparr>w_id = wd_id dto, w_rule = wd_rule dto, w_path = wd_path dto,
                    w_ceiling_lines = wd_ceiling_lines dto, w_ceiling_bytes = wd_ceiling_bytes dto,
                    w_reason = wd_reason dto, w_expires = expires\<rparr>))"

section \<open>Building a policy\<close>

definition pattern_count :: "PolicyDtoV1 \<Rightarrow> nat" where
  "pattern_count dto =
     length (dto_exclusions dto) +
     sum_list (map (\<lambda>r. length (r_include r) + length (r_exclude r)) (dto_rules dto))"

definition limit_diagnostics :: "PolicyDtoV1 \<Rightarrow> BudgetDiagnosticV1 list" where
  "limit_diagnostics dto =
     when_diag (MAX_RULES_V1 < length (dto_rules dto))
       (policy_diagnostic (''policy contains '' @ dec (length (dto_rules dto))
          @ '' rules; version 1 permits at most '' @ dec MAX_RULES_V1)) @
     when_diag (MAX_WAIVERS_V1 < length (dto_waivers dto))
       (policy_diagnostic (''policy contains '' @ dec (length (dto_waivers dto))
          @ '' waivers; version 1 permits at most '' @ dec MAX_WAIVERS_V1)) @
     when_diag (MAX_PATTERNS_V1 < pattern_count dto)
       (policy_diagnostic (''policy contains '' @ dec (pattern_count dto)
          @ '' patterns; version 1 permits at most '' @ dec MAX_PATTERNS_V1))"

definition check_rule ::
  "budget_env \<Rightarrow> RuleV1 \<Rightarrow> string btree_set \<times> BudgetDiagnosticV1 list
     \<Rightarrow> string btree_set \<times> BudgetDiagnosticV1 list" where
  "check_rule env rule st =
     (case st of (rule_ids, ds) \<Rightarrow>
       (bs_insert (r_id rule) rule_ids,
        ds @ validate_rule env rule @
        when_diag (r_id rule \<in> set rule_ids)
          (policy_diagnostic (''duplicate rule id `'' @ r_id rule @ ''`''))))"

fun convert_waivers :: "WaiverDtoV1 list \<Rightarrow> WaiverV1 list \<times> BudgetDiagnosticV1 list" where
  "convert_waivers [] = ([], [])"
| "convert_waivers (dto # dtos) =
     (let (ws, ds) = convert_waivers dtos in
      case convert_waiver dto of Inr w \<Rightarrow> (w # ws, ds) | Inl d \<Rightarrow> (ws, d # ds))"

record waiver_check =
  wc_ids :: "string btree_set"
  wc_targets :: "(string \<times> string) btree_set"
  wc_diagnostics :: "BudgetDiagnosticV1 list"

definition check_waiver ::
  "RuleV1 list \<Rightarrow> string btree_set \<Rightarrow> PolicyDateV1 option \<Rightarrow> WaiverV1 \<Rightarrow> waiver_check
     \<Rightarrow> waiver_check" where
  "check_waiver rules rule_ids current_date w st =
     \<lparr>wc_ids = bs_insert (w_id w) (wc_ids st),
      wc_targets = bs_insert (w_rule w, w_path w) (wc_targets st),
      wc_diagnostics = wc_diagnostics st @ validate_waiver w rules rule_ids current_date @
        when_diag (w_id w \<in> set (wc_ids st))
          (waiver_diagnostic w (''duplicate waiver id `'' @ w_id w @ ''`'')) @
        when_diag ((w_rule w, w_path w) \<in> set (wc_targets st))
          (waiver_diagnostic w (''duplicate waiver target for rule `'' @ w_rule w
             @ ''` and path `'' @ w_path w @ ''`''))\<rparr>"

definition check_waivers ::
  "RuleV1 list \<Rightarrow> string btree_set \<Rightarrow> PolicyDateV1 option \<Rightarrow> WaiverV1 list
     \<Rightarrow> BudgetDiagnosticV1 list" where
  "check_waivers rules rule_ids current_date ws =
     wc_diagnostics (fold (check_waiver rules rule_ids current_date) ws
       \<lparr>wc_ids = [], wc_targets = [], wc_diagnostics = []\<rparr>)"

fun compile_rules :: "budget_env \<Rightarrow> RuleV1 list \<Rightarrow> RuleMatchersV1 list \<times> BudgetDiagnosticV1 list" where
  "compile_rules env [] = ([], [])"
| "compile_rules env (rule # rules) =
     (let (ms, ds) = compile_rules env rules;
          failed = (\<lambda>error. (ms, policy_diagnostic (''rule `'' @ r_id rule
            @ ''` patterns could not be compiled as one bounded matcher: '' @ error) # ds))
      in case compile_patterns env (r_include rule) of
           Inl error \<Rightarrow> failed error
         | Inr include \<Rightarrow>
             (case compile_patterns env (r_exclude rule) of
                Inl error \<Rightarrow> failed error
              | Inr exclude \<Rightarrow> (\<lparr>rm_include = include, rm_exclude = exclude\<rparr> # ms, ds)))"

definition index_waiver_ids :: "WaiverV1 list \<Rightarrow> (string, nat) btree_map" where
  "index_waiver_ids ws =
     fold (\<lambda>(i, w) m. bt_insert (w_id w) i m) (zip [0..<length ws] ws) bt_empty"

definition index_waiver_targets ::
  "WaiverV1 list \<Rightarrow> (string, (string, nat) btree_map) btree_map" where
  "index_waiver_targets ws =
     fold (\<lambda>(i, w). bt_update (w_rule w)
         (\<lambda>by_path. bt_insert (w_path w) i (case by_path of None \<Rightarrow> bt_empty | Some m \<Rightarrow> m)))
       (zip [0..<length ws] ws) bt_empty"

definition waiver_match_diagnostics ::
  "budget_env \<Rightarrow> PolicyV1 \<Rightarrow> WaiverV1 \<Rightarrow> BudgetDiagnosticV1 list" where
  "waiver_match_diagnostics env policy w =
     (case classify_path env policy (w_path w) of
        Inr (Governed rule) \<Rightarrow>
          when_diag (r_id rule \<noteq> w_rule w)
            (waiver_diagnostic w (''waiver path `'' @ w_path w @ ''` matches rule `'' @ r_id rule
               @ ''`, not named rule `'' @ w_rule w @ ''`''))
      | Inl d \<Rightarrow>
          [with_related_message (d_message d) (at_path (w_path w) (for_rule (w_rule w)
             (waiver_diagnostic w (''waiver path `'' @ w_path w
                @ ''` does not match exactly one effective rule''))))]
      | Inr _ \<Rightarrow>
          [waiver_diagnostic w (''waiver path `'' @ w_path w
             @ ''` is not governed by named rule `'' @ w_rule w @ ''`'')])"

text \<open>
  \<open>authority_diagnostics\<close> is the first half of \<open>build_policy\<close>, up to its second early
  return: the diagnostics of rules, exclusions and waivers, with the converted waivers.
\<close>

definition authority_diagnostics ::
  "budget_env \<Rightarrow> PolicyDtoV1 \<Rightarrow> PolicyDateV1 option \<Rightarrow> WaiverV1 list \<times> BudgetDiagnosticV1 list" where
  "authority_diagnostics env dto current_date =
     (let (rule_ids, rule_ds) = fold (check_rule env) (dto_rules dto) ([], []);
          exclusion_ds = concat (map (validate_exclusion env) (dto_exclusions dto));
          (waivers, convert_ds) = convert_waivers (dto_waivers dto)
      in (waivers, rule_ds @ exclusion_ds @ convert_ds @
            check_waivers (dto_rules dto) rule_ids current_date waivers))"

definition assemble_policy ::
  "budget_env \<Rightarrow> PolicyDtoV1 \<Rightarrow> string \<Rightarrow> WaiverV1 list \<Rightarrow> RuleMatchersV1 list \<Rightarrow> string list
     \<Rightarrow> PolicyV1" where
  "assemble_policy env dto raw waivers rule_matchers exclusion_matchers =
     (let input = canonical_semantic_input env (dto_rules dto) (dto_exclusions dto) waivers in
      \<lparr>p_rules = dto_rules dto, p_exclusions = dto_exclusions dto, p_waivers = waivers,
       p_identity = \<lparr>raw_sha256 = raw, semantic_sha256 = sha256_hex env input,
                     semantic_input = input\<rparr>,
       p_rule_matchers = rule_matchers, p_exclusion_matchers = exclusion_matchers,
       p_waiver_by_id = index_waiver_ids waivers,
       p_waiver_by_target = index_waiver_targets waivers\<rparr>)"

definition build_policy ::
  "budget_env \<Rightarrow> PolicyDtoV1 \<Rightarrow> string \<Rightarrow> PolicyDateV1 option \<Rightarrow> InvalidPolicyV1 + PolicyV1" where
  "build_policy env dto raw current_date =
     (if limit_diagnostics dto \<noteq> [] then Inl (invalid_policy raw (limit_diagnostics dto))
      else
        (let (waivers, ds) = authority_diagnostics env dto current_date in
         if ds \<noteq> [] then Inl (invalid_policy raw ds)
         else
           (let (rule_matchers, compile_ds) = compile_rules env (dto_rules dto) in
            if compile_ds \<noteq> [] then Inl (invalid_policy raw compile_ds)
            else
              (case compile_patterns env (map x_pattern (dto_exclusions dto)) of
                 Inl error \<Rightarrow>
                   Inl (invalid_policy raw [policy_diagnostic
                     (''top-level exclusion patterns could not be compiled as one bounded matcher: ''
                      @ error)])
               | Inr exclusion_matchers \<Rightarrow>
                 (let policy = assemble_policy env dto raw waivers rule_matchers exclusion_matchers;
                      match_ds = concat (map (waiver_match_diagnostics env policy) waivers)
                  in if match_ds = [] then Inr policy
                     else Inl (invalid_policy raw match_ds))))))"

definition parse_policy ::
  "budget_env \<Rightarrow> string \<Rightarrow> PolicyDateV1 option \<Rightarrow> InvalidPolicyV1 + PolicyV1" where
  "parse_policy env bytes current_date =
     (let raw = sha256_hex env bytes;
          fail = (\<lambda>message. Inl (invalid_policy raw [policy_diagnostic message]))
      in
      if MAX_POLICY_BYTES_V1 < length bytes
      then fail (''policy is '' @ dec (length bytes) @ '' bytes; version 1 permits at most ''
                  @ dec MAX_POLICY_BYTES_V1)
      else if \<not> is_utf8 bytes then fail ''policy must be valid UTF-8 TOML''
      else
        (case toml_version env bytes of
           Inl error \<Rightarrow> fail (''policy is not valid TOML: '' @ error)
         | Inr None \<Rightarrow> fail ''policy must contain integer field `version = 1`''
         | Inr (Some version) \<Rightarrow>
           if version \<noteq> 1
           then fail (''unsupported file-budget policy version '' @ dec_int version
                       @ ''; this build supports version 1'')
           else
             (case toml_policy env bytes of
                Inl error \<Rightarrow>
                  fail (''policy does not satisfy the strict version 1 schema: '' @ error)
              | Inr dto \<Rightarrow> build_policy env dto raw current_date)))"

definition parse_policy_v1 :: "budget_env \<Rightarrow> string \<Rightarrow> PolicyDateV1 \<Rightarrow> InvalidPolicyV1 + PolicyV1" where
  "parse_policy_v1 env bytes current_date = parse_policy env bytes (Some current_date)"

definition parse_comparison_policy_v1 :: "budget_env \<Rightarrow> string \<Rightarrow> InvalidPolicyV1 + PolicyV1" where
  "parse_comparison_policy_v1 env bytes = parse_policy env bytes None"

section \<open>What validation accepts\<close>

definition thresholds_of :: "u64 option \<Rightarrow> u64 option \<Rightarrow> u64 option \<Rightarrow> u64 list" where
  "thresholds_of notice warning maximum = concat (map (case_option [] (\<lambda>t. [t])) [notice, warning, maximum])"

definition thresholds_ok :: "u64 option \<Rightarrow> u64 option \<Rightarrow> u64 option \<Rightarrow> bool" where
  "thresholds_ok notice warning maximum \<longleftrightarrow>
     sorted (thresholds_of notice warning maximum) \<and>
     (\<forall>t \<in> set (thresholds_of notice warning maximum). 0 < t) \<and>
     (maximum = None \<longrightarrow> notice = None \<and> warning = None)"

definition pattern_ok :: "budget_env \<Rightarrow> bool \<Rightarrow> string \<Rightarrow> bool" where
  "pattern_ok env exclusion pattern \<longleftrightarrow>
     validate_pattern_shape env pattern = None \<and> glob_new env pattern = None \<and>
     (exclusion \<longrightarrow> \<not> glob_is_match env pattern POLICY_PATH \<and>
        \<not> glob_is_match env pattern CONTRACT_PATH)"

definition rule_ok :: "budget_env \<Rightarrow> RuleV1 \<Rightarrow> bool" where
  "rule_ok env rule \<longleftrightarrow>
     is_identifier (r_id rule) \<and>
     (\<forall>category. r_category rule = Some category \<longrightarrow> valid_category category) \<and>
     r_include rule \<noteq> [] \<and> (r_max_lines rule \<noteq> None \<or> r_max_bytes rule \<noteq> None) \<and>
     thresholds_ok (r_notice_lines rule) (r_warn_lines rule) (r_max_lines rule) \<and>
     thresholds_ok (r_notice_bytes rule) (r_warn_bytes rule) (r_max_bytes rule) \<and>
     (\<forall>p \<in> set (r_include rule). pattern_ok env False p) \<and>
     (\<forall>p \<in> set (r_exclude rule). pattern_ok env True p)"

definition exclusion_ok :: "budget_env \<Rightarrow> ExclusionV1 \<Rightarrow> bool" where
  "exclusion_ok env x \<longleftrightarrow> trim (x_reason x) \<noteq> [] \<and> pattern_ok env True (x_pattern x)"

definition waiver_ok :: "RuleV1 list \<Rightarrow> PolicyDateV1 option \<Rightarrow> WaiverV1 \<Rightarrow> bool" where
  "waiver_ok rules current_date w \<longleftrightarrow>
     is_identifier (w_id w) \<and> validate_exact_path (w_path w) = None \<and>
     (w_ceiling_lines w \<noteq> None \<or> w_ceiling_bytes w \<noteq> None) \<and>
     w_ceiling_lines w \<noteq> Some 0 \<and> w_ceiling_bytes w \<noteq> Some 0 \<and>
     trim (w_reason w) \<noteq> [] \<and> \<not> expired_on current_date w \<and>
     (\<exists>rule. find (\<lambda>r. r_id r = w_rule w) rules = Some rule \<and>
        (w_ceiling_lines w \<noteq> None \<longrightarrow> r_max_lines rule \<noteq> None) \<and>
        (w_ceiling_bytes w \<noteq> None \<longrightarrow> r_max_bytes rule \<noteq> None))"

lemma when_diag_simps [simp]:
  "when_diag b d = [] \<longleftrightarrow> \<not> b" "x \<in> set (when_diag b d) \<longleftrightarrow> b \<and> x = d"
  by (auto simp: when_diag_def)

lemma validate_thresholds_Nil_iff:
  "validate_thresholds rule_id metric notice warning maximum = [] \<longleftrightarrow>
     thresholds_ok notice warning maximum"
  by (cases notice; cases warning; cases maximum)
    (auto simp: validate_thresholds_def thresholds_ok_def thresholds_of_def gt_threshold_def
      when_diag_def word_neq_0_conv)

lemma validate_pattern_Nil_iff:
  "validate_pattern env pattern exclusion owner field = [] \<longleftrightarrow> pattern_ok env exclusion pattern"
  by (auto simp: validate_pattern_def pattern_ok_def compile_pattern_def build_glob_def
      split: option.splits)

lemma validate_rule_Nil_iff: "validate_rule env rule = [] \<longleftrightarrow> rule_ok env rule"
  by (auto simp: validate_rule_def rule_ok_def validate_thresholds_Nil_iff validate_pattern_Nil_iff
      split: option.splits)

lemma validate_exclusion_Nil_iff: "validate_exclusion env x = [] \<longleftrightarrow> exclusion_ok env x"
  by (simp add: validate_exclusion_def exclusion_ok_def validate_pattern_Nil_iff)

lemma validate_waiver_Nil_iff:
  assumes "set rule_ids = r_id ` set rules"
  shows "validate_waiver w rules rule_ids current_date = [] \<longleftrightarrow> waiver_ok rules current_date w"
proof -
  have "find (\<lambda>r. r_id r = w_rule w) rules = None \<longleftrightarrow> w_rule w \<notin> set rule_ids"
    unfolding find_None_iff assms by (metis image_iff)
  then show ?thesis
    by (auto simp: validate_waiver_def waiver_ok_def expired_on_def split: option.splits)
qed

lemma check_rule_fold:
  "set (fst (fold (check_rule env) rules (ids, ds))) = r_id ` set rules \<union> set ids \<and>
   (snd (fold (check_rule env) rules (ids, ds)) = [] \<longleftrightarrow>
      ds = [] \<and> list_all (rule_ok env) rules \<and> distinct (map r_id rules) \<and>
      r_id ` set rules \<inter> set ids = {})"
  by (induction rules arbitrary: ids ds) (auto simp: check_rule_def validate_rule_Nil_iff)

lemma check_rules:
  "set (fst (fold (check_rule env) rules ([], []))) = r_id ` set rules"
  "snd (fold (check_rule env) rules ([], [])) = [] \<longleftrightarrow>
     list_all (rule_ok env) rules \<and> distinct (map r_id rules)"
  using check_rule_fold [of env rules "[]" "[]"] by auto

lemma convert_waivers_iff:
  "convert_waivers dtos = (ws, []) \<longleftrightarrow> list_all2 (\<lambda>d w. convert_waiver d = Inr w) dtos ws"
proof (induction dtos arbitrary: ws)
  case (Cons dto dtos)
  obtain vs ds where vs: "convert_waivers dtos = (vs, ds)" by (metis surj_pair)
  with Cons.IH have IH: "vs = us \<and> ds = [] \<longleftrightarrow> list_all2 (\<lambda>d w. convert_waiver d = Inr w) dtos us" for us
    by auto
  show ?case
    by (cases "convert_waiver dto") (auto simp: vs list_all2_Cons1 IH [symmetric])
qed auto

lemma check_waiver_fold:
  assumes "set rule_ids = r_id ` set rules"
  shows "wc_diagnostics (fold (check_waiver rules rule_ids current_date) ws st) = [] \<longleftrightarrow>
    wc_diagnostics st = [] \<and> list_all (waiver_ok rules current_date) ws \<and>
    distinct (map w_id ws) \<and> w_id ` set ws \<inter> set (wc_ids st) = {} \<and>
    distinct (map (\<lambda>w. (w_rule w, w_path w)) ws) \<and>
    (\<lambda>w. (w_rule w, w_path w)) ` set ws \<inter> set (wc_targets st) = {}"
  by (induction ws arbitrary: st) (auto simp: check_waiver_def validate_waiver_Nil_iff [OF assms])

lemma check_waivers_Nil_iff:
  "set rule_ids = r_id ` set rules \<Longrightarrow>
   check_waivers rules rule_ids current_date ws = [] \<longleftrightarrow>
     list_all (waiver_ok rules current_date) ws \<and> distinct (map w_id ws) \<and>
     distinct (map (\<lambda>w. (w_rule w, w_path w)) ws)"
  by (simp add: check_waivers_def check_waiver_fold)

text \<open>What the compilers of \<open>globset\<close> accept of the policy.\<close>

definition compiles :: "budget_env \<Rightarrow> string list \<Rightarrow> bool" where
  "compiles env ps \<longleftrightarrow> list_all (\<lambda>p. glob_new env p = None) ps \<and> globset_new env ps = None"

lemma add_globs_iff:
  "add_globs env builder ps = Inr out \<longleftrightarrow>
     list_all (\<lambda>p. glob_new env p = None) ps \<and> out = builder @ ps"
  by (induction ps arbitrary: builder) (auto simp: build_glob_def split: option.splits)

lemma compile_patterns_Inr_iff: "compile_patterns env ps = Inr out \<longleftrightarrow> compiles env ps \<and> out = ps"
proof (cases "list_all (\<lambda>p. glob_new env p = None) ps")
  case True
  then have "add_globs env [] ps = Inr ps" by (simp add: add_globs_iff)
  with True show ?thesis by (auto simp: compile_patterns_def compiles_def split: option.splits)
next
  case False
  then have "add_globs env [] ps \<noteq> Inr qs" for qs by (simp add: add_globs_iff)
  with False show ?thesis
    by (cases "add_globs env [] ps") (auto simp: compile_patterns_def compiles_def)
qed

lemma compile_patterns_Inr: "compiles env ps \<Longrightarrow> compile_patterns env ps = Inr ps"
  by (simp add: compile_patterns_Inr_iff)

lemma compile_patterns_Inl: "\<not> compiles env ps \<Longrightarrow> \<exists>error. compile_patterns env ps = Inl error"
  using compile_patterns_Inr_iff [of env ps] by (cases "compile_patterns env ps") auto

lemma compile_rules_Nil_iff:
  "snd (compile_rules env rules) = [] \<longleftrightarrow>
     list_all (\<lambda>r. compiles env (r_include r) \<and> compiles env (r_exclude r)) rules"
proof (induction rules)
  case (Cons r rules)
  show ?case
    using compile_patterns_Inr [of env "r_include r"] compile_patterns_Inl [of env "r_include r"]
      compile_patterns_Inr [of env "r_exclude r"] compile_patterns_Inl [of env "r_exclude r"]
    by (cases "compiles env (r_include r)"; cases "compiles env (r_exclude r)")
      (auto simp: Let_def split_beta Cons.IH)
qed simp

lemma compile_rules_matchers:
  "list_all (\<lambda>r. compiles env (r_include r) \<and> compiles env (r_exclude r)) rules \<Longrightarrow>
     fst (compile_rules env rules) =
       map (\<lambda>r. \<lparr>rm_include = r_include r, rm_exclude = r_exclude r\<rparr>) rules"
  by (induction rules) (simp_all add: Let_def split_beta compile_patterns_Inr)

text \<open>The whole of the authority \<open>build_policy\<close> accepts, with its converted waivers.\<close>

definition authority_ok ::
  "budget_env \<Rightarrow> PolicyDtoV1 \<Rightarrow> PolicyDateV1 option \<Rightarrow> WaiverV1 list \<Rightarrow> bool" where
  "authority_ok env dto current_date ws \<longleftrightarrow>
     length (dto_rules dto) \<le> MAX_RULES_V1 \<and> length (dto_waivers dto) \<le> MAX_WAIVERS_V1 \<and>
     pattern_count dto \<le> MAX_PATTERNS_V1 \<and>
     list_all (rule_ok env) (dto_rules dto) \<and> distinct (map r_id (dto_rules dto)) \<and>
     list_all (exclusion_ok env) (dto_exclusions dto) \<and>
     list_all2 (\<lambda>d w. convert_waiver d = Inr w) (dto_waivers dto) ws \<and>
     list_all (waiver_ok (dto_rules dto) current_date) ws \<and>
     distinct (map w_id ws) \<and> distinct (map (\<lambda>w. (w_rule w, w_path w)) ws)"

definition matchers_compile :: "budget_env \<Rightarrow> PolicyDtoV1 \<Rightarrow> bool" where
  "matchers_compile env dto \<longleftrightarrow>
     list_all (\<lambda>r. compiles env (r_include r) \<and> compiles env (r_exclude r)) (dto_rules dto) \<and>
     compiles env (map x_pattern (dto_exclusions dto))"

text \<open>The rule a waiver names governs the waiver's path, and no other rule or exclusion does.\<close>

definition waiver_governed :: "budget_env \<Rightarrow> PolicyDtoV1 \<Rightarrow> WaiverV1 \<Rightarrow> bool" where
  "waiver_governed env dto w \<longleftrightarrow>
     list_all (\<lambda>x. \<not> excluded_by env (w_path w) x) (dto_exclusions dto) \<and>
     map r_id (filter (governs env (w_path w)) (dto_rules dto)) = [w_rule w]"

definition built_policy :: "budget_env \<Rightarrow> PolicyDtoV1 \<Rightarrow> string \<Rightarrow> WaiverV1 list \<Rightarrow> PolicyV1" where
  "built_policy env dto raw ws =
     assemble_policy env dto raw ws
       (map (\<lambda>r. \<lparr>rm_include = r_include r, rm_exclude = r_exclude r\<rparr>) (dto_rules dto))
       (map x_pattern (dto_exclusions dto))"

lemma built_policy_simps [simp]:
  "p_rules (built_policy env dto raw ws) = dto_rules dto"
  "p_exclusions (built_policy env dto raw ws) = dto_exclusions dto"
  "p_waivers (built_policy env dto raw ws) = ws"
  "raw_sha256 (p_identity (built_policy env dto raw ws)) = raw"
  "p_waiver_by_id (built_policy env dto raw ws) = index_waiver_ids ws"
  "p_waiver_by_target (built_policy env dto raw ws) = index_waiver_targets ws"
  by (simp_all add: built_policy_def assemble_policy_def Let_def)

lemma matchers_ok_built [simp]: "matchers_ok (built_policy env dto raw ws)"
  by (simp add: matchers_ok_def built_policy_def assemble_policy_def Let_def)

lemma limit_diagnostics_Nil_iff:
  "limit_diagnostics dto = [] \<longleftrightarrow>
     length (dto_rules dto) \<le> MAX_RULES_V1 \<and> length (dto_waivers dto) \<le> MAX_WAIVERS_V1 \<and>
     pattern_count dto \<le> MAX_PATTERNS_V1"
  by (auto simp: limit_diagnostics_def)

lemma authority_diagnostics_iff:
  "limit_diagnostics dto = [] \<and> authority_diagnostics env dto current_date = (ws, []) \<longleftrightarrow>
     authority_ok env dto current_date ws"
proof -
  have "concat (map (validate_exclusion env) xs) = [] \<longleftrightarrow> list_all (exclusion_ok env) xs" for xs
    by (auto simp: validate_exclusion_Nil_iff list_all_iff)
  moreover obtain ids ds where ids: "fold (check_rule env) (dto_rules dto) ([], []) = (ids, ds)"
    by (metis surj_pair)
  moreover obtain cs es where "convert_waivers (dto_waivers dto) = (cs, es)" by (metis surj_pair)
  moreover note check_waivers_Nil_iff [of ids "dto_rules dto" current_date cs]
    check_rules [of env "dto_rules dto"] convert_waivers_iff [of "dto_waivers dto" ws]
  ultimately show ?thesis
    by (auto simp: authority_diagnostics_def authority_ok_def limit_diagnostics_Nil_iff)
qed

lemma waiver_ok_candidate: "waiver_ok rules current_date w \<Longrightarrow> candidate_path (w_path w)"
  by (auto simp: waiver_ok_def validate_exact_path_def validate_candidate_path_def candidate_path_def
      split: option.splits if_splits)

lemma waiver_match_Nil_iff:
  assumes "glob_laws env" and "candidate_path (w_path w)"
  shows "waiver_match_diagnostics env (built_policy env dto raw ws) w = [] \<longleftrightarrow> waiver_governed env dto w"
proof -
  let ?p = "built_policy env dto raw ws"
  have "waiver_match_diagnostics env ?p w = [] \<longleftrightarrow>
      (\<exists>rule. classify_path env ?p (w_path w) = Inr (Governed rule) \<and> r_id rule = w_rule w)"
    by (auto simp: waiver_match_diagnostics_def split: sum.splits PathDispositionV1.splits)
  also have "\<dots> \<longleftrightarrow> waiver_governed env dto w"
    using assms(2) by (auto simp: classify_governed [OF assms(1) matchers_ok_built]
        waiver_governed_def list_all_iff map_eq_Cons_conv)
  finally show ?thesis .
qed

lemma build_policy_Inr_iff:
  assumes "glob_laws env"
  shows "build_policy env dto raw current_date = Inr policy \<longleftrightarrow>
    (\<exists>ws. authority_ok env dto current_date ws \<and> matchers_compile env dto \<and>
       list_all (waiver_governed env dto) ws \<and> policy = built_policy env dto raw ws)"
proof -
  obtain ws ds where auth: "authority_diagnostics env dto current_date = (ws, ds)"
    by (metis surj_pair)
  obtain ms cs where comp: "compile_rules env (dto_rules dto) = (ms, cs)" by (metis surj_pair)
  have ok: "authority_ok env dto current_date ws' \<longleftrightarrow> limit_diagnostics dto = [] \<and> ds = [] \<and> ws' = ws"
    for ws' using authority_diagnostics_iff [of dto env current_date ws'] auth by auto
  have match: "concat (map (waiver_match_diagnostics env (built_policy env dto raw ws)) ws) = [] \<longleftrightarrow>
      list_all (waiver_governed env dto) ws" if "authority_ok env dto current_date ws"
  proof -
    have "candidate_path (w_path w)" if "w \<in> set ws" for w
      using that \<open>authority_ok env dto current_date ws\<close> waiver_ok_candidate
      by (auto simp: authority_ok_def list_all_iff)
    then show ?thesis using waiver_match_Nil_iff [OF assms] by (auto simp: list_all_iff)
  qed
  show ?thesis
  proof (cases "authority_ok env dto current_date ws \<and> matchers_compile env dto")
    case True
    then have "cs = []" "ms = map (\<lambda>r. \<lparr>rm_include = r_include r, rm_exclude = r_exclude r\<rparr>) (dto_rules dto)"
      "compile_patterns env (map x_pattern (dto_exclusions dto)) = Inr (map x_pattern (dto_exclusions dto))"
      using compile_rules_Nil_iff [of env "dto_rules dto"] compile_rules_matchers [of env "dto_rules dto"]
        comp by (auto simp: matchers_compile_def compile_patterns_Inr_iff)
    then have "build_policy env dto raw current_date =
        (let p = built_policy env dto raw ws;
             ds = concat (map (waiver_match_diagnostics env p) ws)
         in if ds = [] then Inr p else Inl (invalid_policy raw ds))"
      using ok [of ws] True auth comp by (simp add: build_policy_def built_policy_def)
    with True ok match show ?thesis by (auto simp: Let_def)
  next
    case False
    then have "cs \<noteq> [] \<or> (\<exists>e. compile_patterns env (map x_pattern (dto_exclusions dto)) = Inl e) \<or>
        limit_diagnostics dto \<noteq> [] \<or> ds \<noteq> []"
      using compile_rules_Nil_iff [of env "dto_rules dto"] comp ok [of ws]
        compile_patterns_Inr_iff [of env "map x_pattern (dto_exclusions dto)"]
      by (cases "compile_patterns env (map x_pattern (dto_exclusions dto))")
        (auto simp: matchers_compile_def)
    then have "build_policy env dto raw current_date \<noteq> Inr policy"
      using auth comp by (auto simp: build_policy_def split: sum.splits)
    with False ok show ?thesis by auto
  qed
qed


section \<open>Waiver lookup\<close>

lemma find_unique:
  assumes "distinct (map f xs)" "x \<in> set xs" "\<And>y. P y \<longleftrightarrow> f y = f x"
  shows "find P xs = Some x"
  using assms by (induction xs) (auto simp: image_iff)

lemma find_None_filter: "filter P xs = [] \<Longrightarrow> find P xs = None"
  by (simp add: find_None_iff filter_empty_conv)

lemma indexed_entry:
  "p \<in> set (zip [0..<length xs] xs) \<Longrightarrow> xs ! fst p = snd p \<and> snd p \<in> set xs"
  by (auto simp: set_zip)

lemma indexed_last:
  "filter (\<lambda>p. P (snd p)) (zip [0..<length xs] xs) = ys \<Longrightarrow> ys \<noteq> [] \<Longrightarrow>
     xs ! fst (last ys) = snd (last ys) \<and> snd (last ys) \<in> set xs \<and> P (snd (last ys))"
  using indexed_entry [of "last ys" xs] last_in_set [of ys] by fastforce

lemma indexed_filter_Nil:
  "filter (\<lambda>p. P (snd p)) (zip [0..<length xs] xs) = [] \<longleftrightarrow> filter P xs = []"
proof -
  have "snd ` set (zip [0..<length xs] xs) = set xs" by (metis length_map map_nth map_snd_zip list.set_map length_upt minus_nat.diff_0)
  then show ?thesis unfolding filter_empty_conv by (metis image_iff)
qed

lemma waiver_by_id_built:
  assumes "distinct (map w_id ws)"
  shows "waiver_by_id (built_policy env dto raw ws) ident = find (\<lambda>w. w_id w = ident) ws"
proof -
  let ?ys = "filter (\<lambda>p. w_id (snd p) = ident) (zip [0..<length ws] ws)"
  have "index_waiver_ids ws = bt.index (\<lambda>p. w_id (snd p)) (\<lambda>p _. fst p) (zip [0..<length ws] ws) bt_empty"
    by (simp add: index_waiver_ids_def bt_fold_insert_index [symmetric] case_prod_beta')
  then have get: "bt_get (index_waiver_ids ws) ident =
      (case ?ys of [] \<Rightarrow> None | _ \<Rightarrow> Some (fst (last ?ys)))"
    by (simp add: bt.get_index_last bt.get_empty split: list.splits)
  show ?thesis
  proof (cases "?ys = []")
    case True
    with get show ?thesis
      by (simp add: waiver_by_id_def find_None_filter indexed_filter_Nil [of "\<lambda>w. w_id w = ident"])
  next
    case False
    note last = indexed_last [of "\<lambda>w. w_id w = ident", OF refl False]
    with assms have "find (\<lambda>w. w_id w = ident) ws = Some (snd (last ?ys))"
      by (intro find_unique) auto
    with False get last show ?thesis by (auto simp: waiver_by_id_def split: list.splits)
  qed
qed

lemma fold_or_default:
  "fold (\<lambda>x v. Some (g x (case v of None \<Rightarrow> e | Some m \<Rightarrow> m))) xs (Some m) = Some (fold g xs m)"
  by (induction xs arbitrary: m) auto

lemma waiver_for_built:
  assumes "distinct (map (\<lambda>w. (w_rule w, w_path w)) ws)"
  shows "waiver_for (built_policy env dto raw ws) rule path =
    find (\<lambda>w. w_rule w = rule \<and> w_path w = path) ws"
proof -
  let ?zs = "filter (\<lambda>p. w_rule (snd p) = rule) (zip [0..<length ws] ws)"
  let ?P = "\<lambda>w. w_rule w = rule \<and> w_path w = path"
  let ?ys = "filter (\<lambda>p. ?P (snd p)) (zip [0..<length ws] ws)"
  let ?ins = "\<lambda>p. bt_insert (w_path (snd p)) (fst p)"
  have "index_waiver_targets ws = bt.index (\<lambda>p. w_rule (snd p))
      (\<lambda>p v. ?ins p (case v of None \<Rightarrow> bt_empty | Some m \<Rightarrow> m)) (zip [0..<length ws] ws) bt_empty"
    by (simp add: index_waiver_targets_def bt_fold_update_index [symmetric] case_prod_beta')
  then have outer: "bt_get (index_waiver_targets ws) rule =
      (case ?zs of [] \<Rightarrow> None | _ \<Rightarrow> Some (fold ?ins ?zs bt_empty))"
    by (cases ?zs) (simp_all add: bt.get_index bt.get_empty fold_or_default [where g = ?ins])
  have ys: "filter (\<lambda>p. w_path (snd p) = path) ?zs = ?ys" by (simp add: conj_commute)
  have inner: "bt_get (fold ?ins ?zs bt_empty) path = (case ?ys of [] \<Rightarrow> None | _ \<Rightarrow> Some (fst (last ?ys)))"
    unfolding bt_fold_insert_index by (simp add: bt.get_index_last bt.get_empty ys split: list.splits)
  show ?thesis
  proof (cases "?ys = []")
    case True
    with outer inner show ?thesis
      by (auto simp: waiver_for_def find_None_filter indexed_filter_Nil [of ?P] split: list.splits)
  next
    case False
    note last = indexed_last [of ?P, OF refl False]
    with assms have "find ?P ws = Some (snd (last ?ys))" by (intro find_unique) auto
    moreover have "?zs \<noteq> []" using False ys by force
    ultimately show ?thesis
      using False outer inner last by (auto simp: waiver_for_def split: list.splits)
  qed
qed

lemma built_policy_lookup:
  assumes "authority_ok env dto current_date ws"
  shows "waiver_by_id (built_policy env dto raw ws) ident = find (\<lambda>w. w_id w = ident) ws"
    and "waiver_for (built_policy env dto raw ws) rule path =
      find (\<lambda>w. w_rule w = rule \<and> w_path w = path) ws"
  using assms waiver_by_id_built waiver_for_built by (auto simp: authority_ok_def)

section \<open>Rejected policies\<close>

lemma is_error_policy_diagnostics [simp]:
  "is_error (policy_diagnostic message)" "is_error (waiver_diagnostic w message)"
  "is_error (with_related_message related d) = is_error d"
  "is_error (dto_waiver_diagnostic dto message)"
  by (simp_all add: policy_diagnostic_def waiver_diagnostic_def with_related_message_def
      dto_waiver_diagnostic_def)

lemma is_error_at [simp]:
  "is_error (at_path p d) = is_error d" "is_error (for_rule r d) = is_error d"
  "is_error (for_waiver w d) = is_error d" "is_error (new_diagnostic s c m) = (s = Error)"
  by simp_all

lemma list_all_when_diag [simp]: "list_all P (when_diag b d) \<longleftrightarrow> (b \<longrightarrow> P d)"
  by (simp add: when_diag_def)

lemma list_all_concat_map [simp]: "list_all P (concat (map f xs)) \<longleftrightarrow> (\<forall>x \<in> set xs. list_all P (f x))"
  by (induction xs) auto

lemma validate_errors:
  "list_all is_error (validate_thresholds rule_id metric notice warning maximum)"
  "list_all is_error (validate_pattern env pattern exclusion owner field)"
  "list_all is_error (validate_rule env rule)"
  "list_all is_error (validate_exclusion env x)"
  "list_all is_error (validate_waiver w rules rule_ids current_date)"
  "list_all is_error (waiver_match_diagnostics env policy w)"
  "convert_waiver wdto = Inl d \<Longrightarrow> is_error d"
proof -
  show t: "list_all is_error (validate_thresholds rule_id metric notice warning maximum)"
    for rule_id metric notice warning maximum by (simp add: validate_thresholds_def)
  show p: "list_all is_error (validate_pattern env pattern exclusion owner field)"
    for pattern exclusion owner field
    by (simp add: validate_pattern_def split: option.split sum.split)
  show "list_all is_error (validate_rule env rule)" by (simp add: validate_rule_def t p)
  show "list_all is_error (validate_exclusion env x)" by (simp add: validate_exclusion_def p)
  show "list_all is_error (validate_waiver w rules rule_ids current_date)"
    by (simp add: validate_waiver_def split: option.split)
  show "list_all is_error (waiver_match_diagnostics env policy w)"
    by (simp add: waiver_match_diagnostics_def split: sum.split PathDispositionV1.split)
  show "convert_waiver wdto = Inl d \<Longrightarrow> is_error d"
    by (auto simp: convert_waiver_def split: option.splits if_splits sum.splits)
qed

lemma list_all_check_rules:
  "list_all is_error ds \<Longrightarrow> list_all is_error (snd (fold (check_rule env) rules (ids, ds)))"
  by (induction rules arbitrary: ids ds) (auto simp: check_rule_def validate_errors)

lemma list_all_check_waivers:
  "list_all is_error (wc_diagnostics st) \<Longrightarrow>
     list_all is_error (wc_diagnostics (fold (check_waiver rules ids current_date) ws st))"
  by (induction ws arbitrary: st) (auto simp: check_waiver_def validate_errors)

lemma list_all_convert_waivers: "list_all is_error (snd (convert_waivers dtos))"
  by (induction dtos) (auto simp: split_beta validate_errors split: sum.split)

lemma list_all_compile_rules: "list_all is_error (snd (compile_rules env rules))"
  by (induction rules) (auto simp: Let_def split_beta split: sum.split)

lemma list_all_authority: "list_all is_error (snd (authority_diagnostics env dto current_date))"
  using list_all_check_rules [of "[]" env "dto_rules dto" "[]"]
  by (simp add: authority_diagnostics_def split_beta list_all_convert_waivers validate_errors
      check_waivers_def list_all_check_waivers)

lemma list_all_limit: "list_all is_error (limit_diagnostics dto)"
  by (simp add: limit_diagnostics_def)

text \<open>A rejection carries the digest of the input and sorted errors only, at least one.\<close>

definition rejection_ok :: "string \<Rightarrow> InvalidPolicyV1 \<Rightarrow> bool" where
  "rejection_ok raw ip \<longleftrightarrow>
     ip_raw_sha256 ip = raw \<and> ip_diagnostics ip \<noteq> [] \<and>
     sorted_wrt compare_diagnostic (ip_diagnostics ip) \<and> list_all is_error (ip_diagnostics ip)"

lemma rejection_ok_invalid [intro]:
  "ds \<noteq> [] \<Longrightarrow> list_all is_error ds \<Longrightarrow> rejection_ok raw (invalid_policy raw ds)"
  by (simp add: rejection_ok_def invalid_policy_def sorted_sort_diagnostics list_all_iff)

lemma build_policy_rejection:
  assumes "build_policy env dto raw current_date = Inl ip"
  shows "rejection_ok raw ip"
proof -
  obtain ws ds where auth: "authority_diagnostics env dto current_date = (ws, ds)" by (metis surj_pair)
  obtain ms cs where comp: "compile_rules env (dto_rules dto) = (ms, cs)" by (metis surj_pair)
  have "list_all is_error ds" "list_all is_error cs"
    using list_all_authority [of env dto current_date] list_all_compile_rules [of env "dto_rules dto"]
      auth comp by auto
  then show ?thesis
    using assms auth comp list_all_limit [of dto]
    by (auto simp: build_policy_def Let_def validate_errors intro!: rejection_ok_invalid
        split: if_splits sum.splits)
qed

section \<open>Accepted policies\<close>

lemma parse_policy_built:
  assumes "glob_laws env" and "parse_policy env bytes current_date = Inr policy"
  obtains dto ws where "policy = built_policy env dto (sha256_hex env bytes) ws"
    "authority_ok env dto current_date ws" "matchers_compile env dto"
    "list_all (waiver_governed env dto) ws" "toml_policy env bytes = Inr dto"
proof -
  from assms(2) obtain dto where "toml_policy env bytes = Inr dto"
    "build_policy env dto (sha256_hex env bytes) current_date = Inr policy"
    by (auto simp: parse_policy_def Let_def split: if_splits sum.splits option.splits)
  with that show thesis unfolding build_policy_Inr_iff [OF assms(1)] by blast
qed

lemma find_Some_in: "find P xs = Some x \<Longrightarrow> x \<in> set xs \<and> P x"
  by (metis find_Some_iff nth_mem)

lemma governed_rule:
  assumes "glob_laws env" "authority_ok env dto current_date ws" "w \<in> set ws"
    and "waiver_governed env dto w"
  obtains rule where "classify_path env (built_policy env dto raw ws) (w_path w) = Inr (Governed rule)"
    "find (\<lambda>r. r_id r = w_rule w) (dto_rules dto) = Some rule"
proof -
  have ok: "waiver_ok (dto_rules dto) current_date w" and dist: "distinct (map r_id (dto_rules dto))"
    using assms(2,3) by (auto simp: authority_ok_def list_all_iff)
  from assms(4) obtain rule where rule: "filter (governs env (w_path w)) (dto_rules dto) = [rule]"
    "r_id rule = w_rule w" "\<forall>x \<in> set (dto_exclusions dto). \<not> excluded_by env (w_path w) x"
    by (auto simp: waiver_governed_def list_all_iff map_eq_Cons_conv)
  have "rule \<in> set (dto_rules dto)" 
    using rule(1) by (metis filter_is_subset list.set_intros(1) subsetD)
  with dist rule(2) have "find (\<lambda>r. r_id r = w_rule w) (dto_rules dto) = Some rule"
    by (intro find_unique) auto
  moreover have "classify_path env (built_policy env dto raw ws) (w_path w) = Inr (Governed rule)"
    using rule waiver_ok_candidate [OF ok] by (simp add: classify_governed [OF assms(1)])
  ultimately show thesis using that by blast
qed

section \<open>Properties\<close>

text \<open>
  C6. What a policy must be to be accepted. With the documented behaviour of glob sets,
  building a policy succeeds exactly when the parsed form stays within the limits on
  rules, waivers and patterns, every rule, exclusion and waiver is valid, rule ids,
  waiver ids and waiver targets are distinct, the patterns compile, and each waiver's
  path is governed by the rule it names and by no other rule and no exclusion. The
  policy returned is then the one assembled from these rules, exclusions and waivers.
\<close>

theorem build_policy_accepts_iff:
  assumes "glob_laws env"
  shows "build_policy env dto raw current_date = Inr policy \<longleftrightarrow>
    (\<exists>waivers. authority_ok env dto current_date waivers \<and> matchers_compile env dto \<and>
       list_all (waiver_governed env dto) waivers \<and> policy = built_policy env dto raw waivers)"
  by (rule build_policy_Inr_iff [OF assms])

lemma sample_authority_ok:
  "authority_ok sample_env sample_dto (Some \<lparr>date_year = 2026, date_month = 12, date_day = 31\<rparr>)
     [sample_waiver]"
proof -
  have "rule_ok sample_env sample_rule" unfolding validate_rule_Nil_iff [symmetric] by code_simp
  moreover have "exclusion_ok sample_env sample_exclusion"
    unfolding validate_exclusion_Nil_iff [symmetric] by code_simp
  moreover have "is_identifier (w_id sample_waiver)" "validate_exact_path (w_path sample_waiver) = None"
    "trim (w_reason sample_waiver) \<noteq> []" by code_simp+
  then have "waiver_ok [sample_rule] (Some \<lparr>date_year = 2026, date_month = 12, date_day = 31\<rparr>) sample_waiver"
    by (simp add: waiver_ok_def expired_on_def date_less_def date_key_def sample_rule_def sample_waiver_def)
  moreover have "convert_waiver (hd (dto_waivers sample_dto)) = Inr sample_waiver"
    by (simp add: convert_waiver_def new_date_def is_valid_date_def sample_dto_def sample_waiver_def)
  moreover have "pattern_count sample_dto \<le> MAX_PATTERNS_V1" by code_simp
  ultimately show ?thesis
    by (simp add: authority_ok_def sample_dto_def MAX_RULES_V1_def MAX_WAIVERS_V1_def)
qed

lemma sample_compiles: "matchers_compile sample_env sample_dto"
  by (simp add: matchers_compile_def compiles_def sample_dto_def list_all_iff)

lemma sample_governed: "waiver_governed sample_env sample_dto sample_waiver"
  by (simp add: waiver_governed_def sample_defs excluded_by_def governs_def literal_match_def)

theorem build_policy_accepts_iff_witness:
  "build_policy sample_env sample_dto []
     (Some \<lparr>date_year = 2026, date_month = 12, date_day = 31\<rparr>) =
   Inr (built_policy sample_env sample_dto [] [sample_waiver])"
  unfolding build_policy_accepts_iff [OF glob_laws_literal]
  by (intro exI [of _ "[sample_waiver]"])
    (simp add: sample_authority_ok sample_compiles sample_governed)

lemma sample_parse:
  "parse_policy_v1 sample_env [] \<lparr>date_year = 2026, date_month = 12, date_day = 31\<rparr> =
     Inr (built_policy sample_env sample_dto (sha256_hex sample_env []) [sample_waiver])"
proof -
  have "is_utf8 []" by code_simp
  moreover have "build_policy sample_env sample_dto raw
      (Some \<lparr>date_year = 2026, date_month = 12, date_day = 31\<rparr>) =
      Inr (built_policy sample_env sample_dto raw [sample_waiver])" for raw
    unfolding build_policy_Inr_iff [OF glob_laws_literal]
    by (intro exI [of _ "[sample_waiver]"])
      (simp add: sample_authority_ok sample_compiles sample_governed)
  ultimately show ?thesis
    by (simp add: parse_policy_v1_def parse_policy_def Let_def MAX_POLICY_BYTES_V1_def)
qed

text \<open>
  C7. The authority of the waivers of an accepted policy. When the bytes of a policy are
  accepted on a date, every waiver in it is unexpired on that date, is the one found
  under its id and under its rule and path, names a path governed by its rule, and sets
  a positive ceiling only for a metric its rule bounds; and a lookup finds nothing else.
\<close>

theorem accepted_waivers_authorised:
  assumes "glob_laws env" and "parse_policy_v1 env bytes date = Inr policy"
  shows "(\<forall>w \<in> set (p_waivers policy).
      \<not> date_less (w_expires w) date \<and> waiver_by_id policy (w_id w) = Some w \<and>
      waiver_for policy (w_rule w) (w_path w) = Some w \<and>
      (\<exists>rule. classify_path env policy (w_path w) = Inr (Governed rule) \<and> r_id rule = w_rule w \<and>
         (\<forall>c. w_ceiling_lines w = Some c \<longrightarrow> 0 < c \<and> r_max_lines rule \<noteq> None) \<and>
         (\<forall>c. w_ceiling_bytes w = Some c \<longrightarrow> 0 < c \<and> r_max_bytes rule \<noteq> None))) \<and>
    (\<forall>ident w. waiver_by_id policy ident = Some w \<longrightarrow> w \<in> set (p_waivers policy) \<and> w_id w = ident) \<and>
    (\<forall>rule path w. waiver_for policy rule path = Some w \<longrightarrow>
       w \<in> set (p_waivers policy) \<and> w_rule w = rule \<and> w_path w = path)"
proof -
  obtain dto raw ws where policy: "policy = built_policy env dto raw ws"
    and ok: "authority_ok env dto (Some date) ws" and gov: "list_all (waiver_governed env dto) ws"
    using parse_policy_built [OF assms(1), of bytes "Some date" policy] assms(2)
    unfolding parse_policy_v1_def by metis
  note lookup = built_policy_lookup [OF ok]
  have w: "\<not> date_less (w_expires w) date \<and> waiver_by_id policy (w_id w) = Some w \<and>
      waiver_for policy (w_rule w) (w_path w) = Some w \<and>
      (\<exists>rule. classify_path env policy (w_path w) = Inr (Governed rule) \<and> r_id rule = w_rule w \<and>
         (\<forall>c. w_ceiling_lines w = Some c \<longrightarrow> 0 < c \<and> r_max_lines rule \<noteq> None) \<and>
         (\<forall>c. w_ceiling_bytes w = Some c \<longrightarrow> 0 < c \<and> r_max_bytes rule \<noteq> None))"
    if w: "w \<in> set ws" for w
  proof -
    have wok: "waiver_ok (dto_rules dto) (Some date) w"
      using ok w by (auto simp: authority_ok_def list_all_iff)
    obtain rule where rule: "classify_path env policy (w_path w) = Inr (Governed rule)"
      "find (\<lambda>r. r_id r = w_rule w) (dto_rules dto) = Some rule"
      using governed_rule [OF assms(1) ok w] gov w unfolding policy list_all_iff by metis
    have "waiver_by_id policy (w_id w) = Some w"
      using ok w unfolding policy lookup by (intro find_unique [where f = w_id]) (simp_all add: authority_ok_def)
    moreover have "waiver_for policy (w_rule w) (w_path w) = Some w"
      using ok w unfolding policy lookup
      by (intro find_unique [where f = "\<lambda>w. (w_rule w, w_path w)"]) (simp_all add: authority_ok_def)
    ultimately show ?thesis
      using wok rule find_Some_in [OF rule(2)]
      by (auto simp: waiver_ok_def expired_on_def word_neq_0_conv)
  qed
  moreover have "p_waivers policy = ws" by (simp add: policy)
  ultimately show ?thesis
    unfolding policy lookup by (auto dest: find_Some_in)
qed

theorem accepted_waivers_authorised_witness:
  "\<exists>policy. parse_policy_v1 sample_env [] \<lparr>date_year = 2026, date_month = 12, date_day = 31\<rparr> = Inr policy \<and>
     sample_waiver \<in> set (p_waivers policy) \<and> waiver_for policy ''src'' ''src/big'' = Some sample_waiver"
proof -
  have "sample_waiver \<in> set (p_waivers (built_policy sample_env sample_dto
      (sha256_hex sample_env []) [sample_waiver]))" by simp
  moreover from this have "waiver_for (built_policy sample_env sample_dto
      (sha256_hex sample_env []) [sample_waiver]) (w_rule sample_waiver) (w_path sample_waiver) =
      Some sample_waiver"
    using accepted_waivers_authorised [OF glob_laws_literal sample_parse] by blast
  ultimately show ?thesis using sample_parse by (auto simp: sample_waiver_def)
qed

text \<open>
  C8. Protected authority cannot be excluded. In an accepted policy no exclusion and no rule
  exclusion takes the policy file or the contract file out of the budget: classifying
  either path never yields an excluded disposition, and it is governed by a rule
  exactly when that rule is the only one whose include patterns match it.
\<close>

theorem authority_never_excluded:
  assumes "glob_laws env" and "parse_policy env bytes current_date = Inr policy"
    and "path = POLICY_PATH \<or> path = CONTRACT_PATH"
  shows "classify_path env policy path \<notin> range (\<lambda>x. Inr (Excluded x)) \<union> {Inr LocallyExcluded} \<and>
    (classify_path env policy path = Inr (Governed rule) \<longleftrightarrow>
       filter (\<lambda>r. list_ex (\<lambda>p. glob_is_match env p path) (r_include r)) (p_rules policy) = [rule])"
proof -
  obtain dto raw ws where policy: "policy = built_policy env dto raw ws"
    and ok: "authority_ok env dto current_date ws"
    using parse_policy_built [OF assms(1,2)] by metis
  have cand: "candidate_path path" using assms(3) by (elim disjE) (simp, code_simp)+
  have excl: "\<forall>x \<in> set (p_exclusions policy). \<not> excluded_by env path x"
    using ok assms(3) unfolding policy
    by (auto simp: authority_ok_def list_all_iff exclusion_ok_def pattern_ok_def excluded_by_def)
  have local: "\<forall>r \<in> set (dto_rules dto). \<forall>p \<in> set (r_exclude r). \<not> glob_is_match env p path"
    using ok assms(3) by (auto simp: authority_ok_def list_all_iff rule_ok_def pattern_ok_def)
  then have gov: "governs env path r \<longleftrightarrow> list_ex (\<lambda>p. glob_is_match env p path) (r_include r)"
    if "r \<in> set (dto_rules dto)" for r
    using that by (auto simp: governs_def list_ex_iff)
  have "classify_path env policy path \<noteq> Inr LocallyExcluded"
    using local cand matching_exclusions_empty_iff [OF assms(1), of policy path] excl
      matching_rules_eq [OF assms(1), of path "dto_rules dto"] matchers_ok_built [of env dto raw ws]
    by (auto simp: classify_path_def candidate_path_def policy matchers_ok_def split: list.splits)
  moreover have "classify_path env policy path \<noteq> Inr (Excluded x)" for x
    using classify_unexcluded [OF assms(1) _ cand excl] by (auto simp: policy split: if_splits)
  moreover have "filter (governs env path) (dto_rules dto) =
      filter (\<lambda>r. list_ex (\<lambda>p. glob_is_match env p path) (r_include r)) (dto_rules dto)"
    using gov by (simp cong: filter_cong)
  ultimately show ?thesis
    using excl cand by (auto simp: policy classify_governed [OF assms(1)])
qed

theorem authority_never_excluded_witness:
  "classify_path sample_env
     (built_policy sample_env sample_dto (sha256_hex sample_env []) [sample_waiver]) POLICY_PATH \<notin>
   range (\<lambda>x. Inr (Excluded x)) \<union> {Inr LocallyExcluded}"
  using authority_never_excluded [OF glob_laws_literal sample_parse [unfolded parse_policy_v1_def], of POLICY_PATH]
  by blast

text \<open>
  C17. Rejected policies. Whatever the bytes, when parsing fails the error carries the digest
  of these bytes and a non-empty list of diagnostics, all of them errors, in the
  canonical order.
\<close>

theorem parse_policy_rejection:
  assumes "parse_policy env bytes current_date = Inl ip"
  shows "ip_raw_sha256 ip = sha256_hex env bytes \<and> ip_diagnostics ip \<noteq> [] \<and>
    sorted_wrt compare_diagnostic (ip_diagnostics ip) \<and> list_all is_error (ip_diagnostics ip)"
proof -
  have "rejection_ok (sha256_hex env bytes) ip"
    using assms build_policy_rejection
    by (auto simp: parse_policy_def Let_def split: if_splits sum.splits option.splits)
  then show ?thesis by (simp add: rejection_ok_def)
qed

theorem parse_policy_rejection_witness:
  "\<exists>ip. parse_policy (sample_env\<lparr>toml_version := (\<lambda>_. Inr None)\<rparr>) [] None = Inl ip \<and>
     ip_diagnostics ip \<noteq> []"
proof -
  obtain ip where "parse_policy (sample_env\<lparr>toml_version := (\<lambda>_. Inr None)\<rparr>) [] None = Inl ip"
  proof -
    have "is_utf8 []" by code_simp
    with that show thesis by (simp add: parse_policy_def Let_def MAX_POLICY_BYTES_V1_def)
  qed
  from this parse_policy_rejection [OF this] show ?thesis by blast
qed

end
