(* ===== verification/Budget_Measurement.thy ===== *)
theory Budget_Measurement
  imports Jig_Prelude
begin

text \<open>
  \<open>crates/jig-file-budget/src/measurement.rs\<close>: counting the bytes and the
  LF-delimited lines of a stream in one bounded pass.

  The reader and the cancellation callback are the caller's: both are stateful
  functions given as parameters. The loop may run for ever (a reader that is
  always interrupted), so it is a \<open>partial_function (option)\<close> whose value
  \<^const>\<open>None\<close> is divergence. The locale \<open>honest_reader\<close> states the documented contract
  of \<open>std::io::Read\<close>; under it the loop is shown to return the exact measurement.
\<close>

section \<open>Data\<close>

definition READ_BUFFER_BYTES :: nat where
  "READ_BUFFER_BYTES = 16 * 1024"

record MeasurementV1 =
  m_lines :: u64
  m_bytes :: u64

record MeasurementBudgetV1 =
  max_file_bytes :: u64
  max_total_bytes :: u64
  total_bytes_read :: u64

definition new_budget :: "u64 \<Rightarrow> u64 \<Rightarrow> MeasurementBudgetV1" where
  "new_budget file_limit total_limit =
     \<lparr>max_file_bytes = file_limit, max_total_bytes = total_limit, total_bytes_read = 0\<rparr>"

datatype io_error_kind = Interrupted | IoKind string

datatype MeasurementErrorKindV1 =
    Cancelled
  | InvalidReadLength
  | PerFileLimit
  | TotalLimit
  | CounterOverflow
  | ReadFailed io_error_kind

record MeasurementErrorV1 =
  e_kind :: MeasurementErrorKindV1
  observed_bytes :: u64
  limit_bytes :: "u64 option"

text \<open>The error's \<open>Display\<close>; \<open>kind_debug\<close> is the derived \<open>Debug\<close> of \<open>io::ErrorKind\<close>.\<close>

definition measurement_error_message :: "(io_error_kind \<Rightarrow> string) \<Rightarrow> MeasurementErrorV1 \<Rightarrow> string" where
  "measurement_error_message kind_debug e =
     (let limit = (case limit_bytes e of None \<Rightarrow> 0 | Some l \<Rightarrow> l) in
      case e_kind e of
        Cancelled \<Rightarrow> ''measurement was cancelled''
      | InvalidReadLength \<Rightarrow>
          ''byte stream reported reading more bytes than the supplied buffer could hold''
      | PerFileLimit \<Rightarrow> ''file measurement exceeded its '' @ dec64 limit @ ''-byte limit''
      | TotalLimit \<Rightarrow> ''aggregate measurement exceeded its '' @ dec64 limit @ ''-byte limit''
      | CounterOverflow \<Rightarrow> ''measurement counter overflowed u64''
      | ReadFailed kind \<Rightarrow> ''byte stream read failed with '' @ kind_debug kind)"

text \<open>
  One call of \<open>read(&mut buffer[..bound])\<close>: the reported length and what the
  buffer holds afterwards, or an error kind.
\<close>

datatype read_outcome = ReadOk nat string | ReadErr io_error_kind

type_synonym 'r reader = "'r \<Rightarrow> nat \<Rightarrow> read_outcome \<times> 'r"

section \<open>The loop\<close>

definition u64_of_usize :: "nat \<Rightarrow> u64" where
  "u64_of_usize n = (if n < 2 ^ 64 then of_nat n else u64_MAX)"

definition read_bound :: "MeasurementBudgetV1 \<Rightarrow> u64 \<Rightarrow> u64" where
  "read_bound budget bytes =
     (let file_probe = u64_sat_add (u64_sat_sub (max_file_bytes budget) bytes) 1;
          total_probe = u64_sat_add (u64_sat_sub (max_total_bytes budget) (total_bytes_read budget)) 1
      in min (min file_probe total_probe) (of_nat READ_BUFFER_BYTES))"

abbreviation LF :: char where
  "LF \<equiv> CHR 0x0A"

definition finish_measurement :: "u64 \<Rightarrow> u64 \<Rightarrow> bool \<Rightarrow> MeasurementErrorV1 + MeasurementV1" where
  "finish_measurement bytes lf_count final_byte_was_lf =
     (if bytes = 0 \<or> final_byte_was_lf then Inr \<lparr>m_lines = lf_count, m_bytes = bytes\<rparr>
      else case u64_checked_add lf_count 1 of
        None \<Rightarrow> Inl \<lparr>e_kind = CounterOverflow, observed_bytes = bytes, limit_bytes = None\<rparr>
      | Some lines \<Rightarrow> Inr \<lparr>m_lines = lines, m_bytes = bytes\<rparr>)"

datatype loop_step =
    Return "MeasurementErrorV1 + MeasurementV1" MeasurementBudgetV1
  | Continue MeasurementBudgetV1 u64 u64 bool

text \<open>The body of the loop after a successful read of \<open>n\<close> bytes into \<open>data\<close>.\<close>

definition after_read ::
  "MeasurementBudgetV1 \<Rightarrow> u64 \<Rightarrow> u64 \<Rightarrow> bool \<Rightarrow> nat \<Rightarrow> string \<Rightarrow> loop_step" where
  "after_read budget bytes lf_count final_byte_was_lf n data =
     (let bound = read_bound budget bytes in
      if n = 0 then Return (finish_measurement bytes lf_count final_byte_was_lf) budget
      else if unat bound < n
      then Return (Inl \<lparr>e_kind = InvalidReadLength, observed_bytes = u64_of_usize n,
                        limit_bytes = Some bound\<rparr>) budget
      else case u64_checked_add bytes (of_nat n) of
        None \<Rightarrow> Return (Inl \<lparr>e_kind = CounterOverflow, observed_bytes = bytes,
                              limit_bytes = None\<rparr>) budget
      | Some bytes' \<Rightarrow>
        (case u64_checked_add (total_bytes_read budget) (of_nat n) of
          None \<Rightarrow> Return (Inl \<lparr>e_kind = CounterOverflow, observed_bytes = bytes',
                                limit_bytes = None\<rparr>) budget
        | Some total' \<Rightarrow>
          (let budget' = budget\<lparr>total_bytes_read := total'\<rparr> in
           if max_file_bytes budget' < bytes'
           then Return (Inl \<lparr>e_kind = PerFileLimit, observed_bytes = bytes',
                             limit_bytes = Some (max_file_bytes budget')\<rparr>) budget'
           else if max_total_bytes budget' < total'
           then Return (Inl \<lparr>e_kind = TotalLimit, observed_bytes = total',
                             limit_bytes = Some (max_total_bytes budget')\<rparr>) budget'
           else
             (let chunk = take n data;
                  chunk_lf = of_nat (length (filter (\<lambda>c. c = LF) chunk)) in
              case u64_checked_add lf_count chunk_lf of
                None \<Rightarrow> Return (Inl \<lparr>e_kind = CounterOverflow, observed_bytes = bytes',
                                      limit_bytes = None\<rparr>) budget'
              | Some lf \<Rightarrow> Continue budget' bytes' lf (chunk \<noteq> [] \<and> last chunk = LF)))))"

partial_function (option) measure_loop ::
  "'r reader \<Rightarrow> ('c \<Rightarrow> bool \<times> 'c) \<Rightarrow> 'r \<Rightarrow> 'c \<Rightarrow> MeasurementBudgetV1 \<Rightarrow> u64 \<Rightarrow> u64 \<Rightarrow> bool
     \<Rightarrow> ((MeasurementErrorV1 + MeasurementV1) \<times> MeasurementBudgetV1) option" where
  "measure_loop rd cancel r c budget bytes lf_count final_lf =
     (case cancel c of (stop, c') \<Rightarrow>
        if stop
        then Some (Inl \<lparr>e_kind = Cancelled, observed_bytes = bytes, limit_bytes = None\<rparr>, budget)
        else
          (case rd r (unat (read_bound budget bytes)) of (outcome, r') \<Rightarrow>
             (case outcome of
                ReadErr kind \<Rightarrow>
                  if kind = Interrupted
                  then measure_loop rd cancel r' c' budget bytes lf_count final_lf
                  else Some (Inl \<lparr>e_kind = ReadFailed kind, observed_bytes = bytes,
                                  limit_bytes = None\<rparr>, budget)
              | ReadOk n data \<Rightarrow>
                  (case after_read budget bytes lf_count final_lf n data of
                     Return res budget' \<Rightarrow> Some (res, budget')
                   | Continue budget' bytes' lf' final' \<Rightarrow>
                       measure_loop rd cancel r' c' budget' bytes' lf' final'))))"

definition measure_stream_v1 ::
  "'r reader \<Rightarrow> ('c \<Rightarrow> bool \<times> 'c) \<Rightarrow> 'r \<Rightarrow> 'c \<Rightarrow> MeasurementBudgetV1
     \<Rightarrow> ((MeasurementErrorV1 + MeasurementV1) \<times> MeasurementBudgetV1) option" where
  "measure_stream_v1 rd cancel r c budget = measure_loop rd cancel r c budget 0 0 False"

section \<open>Reference definition: the lines of a byte string\<close>

definition lf_count_of :: "string \<Rightarrow> nat" where
  "lf_count_of s = length (filter (\<lambda>c. c = LF) s)"

definition physical_lines :: "string \<Rightarrow> nat" where
  "physical_lines s = lf_count_of s + (if s = [] \<or> last s = LF then 0 else 1)"

section \<open>Bounds that hold for every reader\<close>

lemma unat_read_bound:
  "unat (read_bound budget bytes) =
     min (min (min (unat (max_file_bytes budget) - unat bytes + 1) (2 ^ 64 - 1))
              (min (unat (max_total_bytes budget) - unat (total_bytes_read budget) + 1) (2 ^ 64 - 1)))
         READ_BUFFER_BYTES"
proof -
  have min_unat: "unat (min a b) = min (unat a) (unat b)" for a b :: u64
    by (simp add: min_def word_le_nat_alt)
  show ?thesis
    by (simp add: read_bound_def Let_def min_unat unat_sat_add unat_sat_sub
        READ_BUFFER_BYTES_def)
qed

lemma read_bound_positive: "0 < unat (read_bound budget bytes)"
  by (simp add: unat_read_bound READ_BUFFER_BYTES_def)

lemma read_bound_limits:
  assumes "n \<le> unat (read_bound budget bytes)"
  shows "n \<le> unat (max_file_bytes budget) - unat bytes + 1"
    and "n \<le> unat (max_total_bytes budget) - unat (total_bytes_read budget) + 1"
    and "n \<le> READ_BUFFER_BYTES"
  using assms by (auto simp: unat_read_bound min_def split: if_splits)

lemma lf_count_of_le: "lf_count_of s \<le> length s"
  by (simp add: lf_count_of_def)

lemma lf_count_of_append [simp]: "lf_count_of (s @ t) = lf_count_of s + lf_count_of t"
  by (simp add: lf_count_of_def)

lemma lf_count_of_less:
  assumes "0 < n" and "\<not> (take n s \<noteq> [] \<and> last (take n s) = LF)"
  shows "lf_count_of (take n s) < n"
proof (cases "take n s" rule: rev_cases)
  case Nil
  with assms show ?thesis by (simp add: lf_count_of_def)
next
  case (snoc ys y)
  with assms(2) have "y \<noteq> LF" by simp
  then have "lf_count_of (take n s) = lf_count_of ys"
    using snoc by (simp add: lf_count_of_def)
  also have "\<dots> \<le> length ys" by (rule lf_count_of_le)
  also have "\<dots> < length (take n s)" using snoc by simp
  finally show ?thesis by simp
qed

text \<open>
  What the loop keeps: the bytes charged so far are this file's, both limits
  hold, and lines never outnumber bytes.
\<close>

definition loop_inv :: "nat \<Rightarrow> MeasurementBudgetV1 \<Rightarrow> u64 \<Rightarrow> u64 \<Rightarrow> bool \<Rightarrow> bool" where
  "loop_inv start budget bytes lf_count final_lf \<longleftrightarrow>
     unat (total_bytes_read budget) = start + unat bytes \<and>
     unat bytes \<le> unat (max_file_bytes budget) \<and>
     unat (total_bytes_read budget) \<le> unat (max_total_bytes budget) \<and>
     unat lf_count \<le> unat bytes \<and>
     (\<not> final_lf \<longrightarrow> bytes \<noteq> 0 \<longrightarrow> unat lf_count < unat bytes)"

definition same_limits :: "MeasurementBudgetV1 \<Rightarrow> MeasurementBudgetV1 \<Rightarrow> bool" where
  "same_limits a b \<longleftrightarrow>
     max_file_bytes a = max_file_bytes b \<and> max_total_bytes a = max_total_bytes b"



lemma unat_of_nat_bound: "n \<le> unat (read_bound budget bytes) \<Longrightarrow> unat (of_nat n :: u64) = n"
  by (simp add: unat_read_bound READ_BUFFER_BYTES_def unat_of_nat)

lemma after_read_Continue:
  assumes inv: "loop_inv start budget bytes lf_count final_lf"
    and step: "after_read budget bytes lf_count final_lf n data = Continue budget' bytes' lf' final'"
  shows "loop_inv start budget' bytes' lf' final'" and "same_limits budget budget'"
    and "0 < n" and "unat bytes' = unat bytes + n"
    and "unat lf' = unat lf_count + lf_count_of (take n data)"
    and "final' \<longleftrightarrow> take n data \<noteq> [] \<and> last (take n data) = LF"
proof -
  let ?lf = "lf_count_of (take n data)"
  from step have n: "0 < n" and le: "n \<le> unat (read_bound budget bytes)"
    by (auto simp: after_read_def Let_def split: if_splits option.splits)
  have len: "?lf \<le> n"
    using lf_count_of_le [of "take n data"] by simp
  have un: "unat (of_nat n :: u64) = n" using le by (rule unat_of_nat_bound)
  have ulf: "unat (of_nat ?lf :: u64) = ?lf"
    using len le by (simp add: unat_read_bound READ_BUFFER_BYTES_def unat_of_nat)
  from step n le obtain total' where
      b: "u64_checked_add bytes (of_nat n) = Some bytes'"
      and t: "u64_checked_add (total_bytes_read budget) (of_nat n) = Some total'"
      and l: "u64_checked_add lf_count (of_nat ?lf) = Some lf'"
      and bud: "budget' = budget\<lparr>total_bytes_read := total'\<rparr>"
      and fin: "final' \<longleftrightarrow> take n data \<noteq> [] \<and> last (take n data) = LF"
      and lim: "bytes' \<le> max_file_bytes budget" "total' \<le> max_total_bytes budget"
    by (auto simp: after_read_def Let_def lf_count_of_def split: if_splits option.splits)
  have B: "unat bytes' = unat bytes + n" using unat_checked_add [OF b] un by simp
  have T: "unat total' = unat (total_bytes_read budget) + n"
    using unat_checked_add [OF t] un by simp
  have L: "unat lf' = unat lf_count + ?lf" using unat_checked_add [OF l] ulf by simp
  have "\<not> final' \<Longrightarrow> ?lf < n" using lf_count_of_less [OF n] fin by blast
  with inv B T L len lim show "loop_inv start budget' bytes' lf' final'"
    by (auto simp: loop_inv_def bud word_le_nat_alt)
  show "same_limits budget budget'" by (simp add: bud same_limits_def)
  show "0 < n" "unat bytes' = unat bytes + n" "unat lf' = unat lf_count + ?lf" by fact+
  show "final' \<longleftrightarrow> take n data \<noteq> [] \<and> last (take n data) = LF" by fact
qed




section \<open>Readers that honour the contract of \<open>Read\<close>\<close>

text \<open>
  \<open>content r\<close> is what is left to read and \<open>hiccups r\<close> how often the reader may
  still be interrupted. A read of at least one byte delivers a prefix of the
  content, an empty read means the content is exhausted, and an interruption
  loses nothing.
\<close>

locale honest_reader =
  fixes rd :: "'r reader"
    and content :: "'r \<Rightarrow> string"
    and hiccups :: "'r \<Rightarrow> nat"
  assumes read_prefix: "0 < n \<Longrightarrow> rd r n = (ReadOk k data, r') \<Longrightarrow>
      k \<le> n \<and> k \<le> length (content r) \<and> take k data = take k (content r) \<and>
      content r' = drop k (content r)"
    and read_end: "0 < n \<Longrightarrow> rd r n = (ReadOk 0 data, r') \<Longrightarrow> content r = []"
    and read_interrupted: "0 < n \<Longrightarrow> rd r n = (ReadErr e, r') \<Longrightarrow>
      e = Interrupted \<and> content r' = content r \<and> hiccups r' < hiccups r"
begin

definition fits :: "MeasurementBudgetV1 \<Rightarrow> u64 \<Rightarrow> 'r \<Rightarrow> bool" where
  "fits budget bytes r \<longleftrightarrow>
     unat bytes + length (content r) \<le> unat (max_file_bytes budget) \<and>
     unat (total_bytes_read budget) + length (content r) \<le> unat (max_total_bytes budget)"

lemma no_return_while_fitting:
  assumes inv: "loop_inv start budget bytes lf_count final_lf"
    and n: "0 < n" "n \<le> unat (read_bound budget bytes)" "n \<le> length (content r)"
    and fit: "fits budget bytes r"
  shows "\<exists>budget' bytes' lf' final'.
    after_read budget bytes lf_count final_lf n data = Continue budget' bytes' lf' final'"
proof -
  have un: "unat (of_nat n :: u64) = n" using n(2) by (rule unat_of_nat_bound)
  let ?lf = "length (filter (\<lambda>c. c = LF) (take n data))"
  have lf: "?lf \<le> n" using lf_count_of_le [of "take n data"] by (simp add: lf_count_of_def)
  then have ulf: "unat (of_nat ?lf :: u64) = ?lf"
    using read_bound_limits(3) [OF n(2)] by (simp add: READ_BUFFER_BYTES_def unat_of_nat)
  have small: "unat bytes + n \<le> unat (max_file_bytes budget)"
      "unat (total_bytes_read budget) + n \<le> unat (max_total_bytes budget)"
    using fit n(3) by (auto simp: fits_def)
  moreover have "unat bytes + n < 2 ^ 64" "unat (total_bytes_read budget) + n < 2 ^ 64"
    using small by (auto intro: order_le_less_trans)
  moreover have "unat lf_count + ?lf < 2 ^ 64"
    using inv lf calculation(3) by (simp add: loop_inv_def)
  ultimately show ?thesis
    using n by (auto simp: after_read_def Let_def u64_checked_add_def un ulf word_less_nat_alt
        unat_word_ariths)
qed

lemma return_is_error:
  "0 < n \<Longrightarrow> n \<le> unat (read_bound budget bytes) \<Longrightarrow>
   after_read budget bytes lf_count final_lf n data = Return res budget' \<Longrightarrow> \<exists>e. res = Inl e"
  by (auto simp: after_read_def Let_def split: if_splits option.splits)

lemma finish_at_end:
  assumes "loop_inv start budget bytes lf_count final_lf"
    and "unat bytes = length seen" and "unat lf_count = lf_count_of seen"
    and "final_lf \<longleftrightarrow> seen \<noteq> [] \<and> last seen = LF"
  shows "\<exists>m. finish_measurement bytes lf_count final_lf = Inr m \<and>
    unat (m_lines m) = physical_lines seen \<and> unat (m_bytes m) = length seen"
proof -
  have "bytes = 0 \<longleftrightarrow> seen = []"
    using assms(2) by (metis length_0_conv unat_eq_zero)
  moreover have "unat lf_count + 1 < 2 ^ 64" if "seen \<noteq> []" "\<not> final_lf"
  proof -
    have "unat lf_count + 1 \<le> unat bytes"
      using assms(1) that calculation by (auto simp: loop_inv_def)
    then show ?thesis by (rule order_le_less_trans) simp
  qed
  ultimately show ?thesis
    using assms(2-) by (auto simp: finish_measurement_def physical_lines_def u64_checked_add_def
        unat_word_ariths)
qed

text \<open>
  The loop always returns. If the content fits it returns the reference counts
  of what was read before plus what is left, and otherwise an error.
\<close>

lemma loop_returns:
  assumes "\<And>c. \<not> fst (cancel c)"
    and "loop_inv start budget bytes lf_count final_lf"
    and "unat bytes = length seen" and "unat lf_count = lf_count_of seen"
    and "final_lf \<longleftrightarrow> seen \<noteq> [] \<and> last seen = LF"
  shows "\<exists>res budget'. measure_loop rd cancel r c budget bytes lf_count final_lf = Some (res, budget') \<and>
    (if fits budget bytes r
     then \<exists>m. res = Inr m \<and> unat (m_lines m) = physical_lines (seen @ content r) \<and>
              unat (m_bytes m) = length (seen @ content r)
     else \<exists>e. res = Inl e)"
  using assms(2-)
proof (induction r arbitrary: c budget bytes lf_count final_lf seen
    rule: wf_induct_rule [OF wf_measures [of "[\<lambda>r. length (content r), hiccups]"]])
  case (1 r)
  note inv = "1.prems"(1)
  let ?bound = "unat (read_bound budget bytes)"
  obtain c' where c: "cancel c = (False, c')" using assms(1) [of c] by (cases "cancel c") auto
  obtain outcome r' where rr: "rd r ?bound = (outcome, r')" by fastforce
  have pos: "0 < ?bound" by (rule read_bound_positive)
  show ?case
  proof (cases outcome)
    case (ReadErr e)
    with read_interrupted [OF pos] rr
    have e: "e = Interrupted" "content r' = content r" "hiccups r' < hiccups r" by auto
    then have "(r', r) \<in> measures [\<lambda>r. length (content r), hiccups]" by simp
    moreover have "measure_loop rd cancel r c budget bytes lf_count final_lf
        = measure_loop rd cancel r' c' budget bytes lf_count final_lf"
      using e ReadErr rr c by (subst measure_loop.simps) simp
    moreover have "fits budget bytes r' = fits budget bytes r"
      using e by (simp add: fits_def)
    ultimately show ?thesis using "1.IH" [OF _ "1.prems", of r' c'] unfolding e(2) by metis
  next
    case (ReadOk n data)
    note pre = read_prefix [OF pos rr [unfolded ReadOk]]
    show ?thesis
    proof (cases "after_read budget bytes lf_count final_lf n data")
      case (Return res budget')
      have step: "measure_loop rd cancel r c budget bytes lf_count final_lf = Some (res, budget')"
        using Return ReadOk rr c by (subst measure_loop.simps) simp
      show ?thesis
      proof (cases "n = 0")
        case True
        with read_end [OF pos] rr ReadOk have nil: "content r = []" by auto
        with inv have "fits budget bytes r" by (simp add: fits_def loop_inv_def)
        moreover have "res = finish_measurement bytes lf_count final_lf"
          using Return True by (simp add: after_read_def Let_def)
        ultimately show ?thesis using step nil finish_at_end [OF "1.prems"] by auto
      next
        case False
        then have "\<not> fits budget bytes r"
          using no_return_while_fitting [OF inv, of n r data] pre Return by auto
        with return_is_error [OF _ _ Return] False pre step show ?thesis by auto
      qed
    next
      case (Continue budget' bytes' lf' final')
      note nxt = after_read_Continue [OF inv Continue]
      let ?seen = "seen @ take n (content r)"
      have all: "?seen @ content r' = seen @ content r" using pre by simp
      have smaller: "(r', r) \<in> measures [\<lambda>r. length (content r), hiccups]"
        using pre nxt(3) by (auto intro!: diff_less)
      have ne: "take n (content r) \<noteq> []" using pre nxt(3) by auto
      have counts: "unat bytes' = length ?seen" "unat lf' = lf_count_of ?seen"
          "final' \<longleftrightarrow> ?seen \<noteq> [] \<and> last ?seen = LF"
        using pre nxt "1.prems"(2,3) ne by (auto simp: min_def last_append)
      have tot: "unat (total_bytes_read budget') + length (content r')
          = unat (total_bytes_read budget) + length (content r)"
        using nxt(1,4) inv pre by (simp add: loop_inv_def)
      have "fits budget' bytes' r' \<longleftrightarrow> fits budget bytes r"
        using nxt(2,4) pre tot by (simp add: fits_def same_limits_def)
      moreover have "measure_loop rd cancel r c budget bytes lf_count final_lf
          = measure_loop rd cancel r' c' budget' bytes' lf' final'"
        using Continue ReadOk rr c by (subst measure_loop.simps) simp
      ultimately show ?thesis
        using "1.IH" [OF smaller nxt(1) counts, of c'] unfolding all by metis
    qed
  qed
qed

end

text \<open>\<open>impl Read for &[u8]\<close>: the reader of an in-memory byte slice.\<close>

definition slice_read :: "string reader" where
  "slice_read s n = (ReadOk (min n (length s)) (take n s), drop n s)"

interpretation slice: honest_reader slice_read "\<lambda>s. s" "\<lambda>_. 0"
  by unfold_locales (auto simp: slice_read_def min_def split: if_splits)

lemma initial_loop_inv:
  "total_bytes_read budget \<le> max_total_bytes budget \<Longrightarrow>
   loop_inv (unat (total_bytes_read budget)) budget 0 0 False"
  by (simp add: loop_inv_def word_le_nat_alt)

section \<open>Properties\<close>



text \<open>
  C2. For a reader that honours the contract of \<open>Read\<close>, however it chunks the
  stream and however often (finitely) it is interrupted, and with no
  cancellation, \<open>measure_stream_v1\<close> returns: if the content is within the
  per-file and the remaining aggregate limit the result is the exact byte count and
  the number of LF-delimited physical lines (an unterminated last line counts), and
  otherwise it is an error.
\<close>

theorem measure_stream_exact:
  assumes "honest_reader rd content hiccups"
    and "\<And>c. \<not> fst (cancel c)"
    and "total_bytes_read budget \<le> max_total_bytes budget"
  shows "\<exists>res budget'. measure_stream_v1 rd cancel r c budget = Some (res, budget') \<and>
    (if length (content r) \<le> unat (max_file_bytes budget) \<and>
        unat (total_bytes_read budget) + length (content r) \<le> unat (max_total_bytes budget)
     then \<exists>m. res = Inr m \<and> unat (m_bytes m) = length (content r) \<and>
              unat (m_lines m) = physical_lines (content r)
     else \<exists>e. res = Inl e)"
proof -
  let ?fits = "length (content r) \<le> unat (max_file_bytes budget) \<and>
    unat (total_bytes_read budget) + length (content r) \<le> unat (max_total_bytes budget)"
  have "honest_reader.fits content budget 0 r \<longleftrightarrow> ?fits"
    by (simp add: honest_reader.fits_def [OF assms(1)])
  moreover obtain res budget' where
    "measure_loop rd cancel r c budget 0 0 False = Some (res, budget')"
    "if honest_reader.fits content budget 0 r
     then \<exists>m. res = Inr m \<and> unat (m_lines m) = physical_lines ([] @ content r) \<and>
              unat (m_bytes m) = length ([] @ content r)
     else \<exists>e. res = Inl e"
    using honest_reader.loop_returns [OF assms(1), of cancel
        "unat (total_bytes_read budget)" budget 0 0 False "[]" r c]
      assms(2) initial_loop_inv [OF assms(3)]
    by (fastforce simp: lf_count_of_def)
  ultimately show ?thesis by (auto simp: measure_stream_v1_def split: if_splits)
qed

theorem measure_stream_exact_witness:
  "\<exists>m budget'. measure_stream_v1 slice_read (\<lambda>c. (False, c)) [LF, CHR ''a''] () (new_budget 5 5)
      = Some (Inr m, budget') \<and> unat (m_bytes m) = 2 \<and> unat (m_lines m) = 2"
proof -
  have h: "honest_reader slice_read (\<lambda>s. s) (\<lambda>_. 0)" by (rule slice.honest_reader_axioms)
  have "total_bytes_read (new_budget 5 5) \<le> max_total_bytes (new_budget 5 5)"
    by (simp add: new_budget_def)
  from measure_stream_exact [OF h _ this, of "\<lambda>c. (False, c)" "[LF, CHR ''a'']" "()"]
  show ?thesis by (auto simp: new_budget_def physical_lines_def lf_count_of_def)
qed

end
