(* ===== verification/Budget_Waiver.thy ===== *)
theory Budget_Waiver
  imports Budget_Validation Budget_Measurement
begin

text \<open>
  The facts an evaluation is given (\<open>crates/jig-file-budget/src/evaluation.rs\<close>) and the
  waiver half of the evaluation (\<open>evaluation/waiver.rs\<close>): the indexes of the file facts, the
  validation of the current waivers, the recorded changes of policy and the debt that a
  removed waiver leaves behind. As in \<open>Budget_Validation\<close>, a function that pushes
  diagnostics is the list of those it pushes.
\<close>

section \<open>Facts\<close>

definition MAX_WAIVER_TARGET_FACTS_V1 :: nat where
  "MAX_WAIVER_TARGET_FACTS_V1 = MAX_WAIVERS_V1 * 2"

datatype UnsupportedFileKindV1 = Symlink | Gitlink | Special | ChangedDuringRead

datatype ExactCurrentPathStateV1 =
    RegularPath
  | MissingPath
  | UnsupportedPath UnsupportedFileKindV1

record ExactCurrentPathFactV1 =
  fact_path :: string
  fact_state :: ExactCurrentPathStateV1

datatype CurrentFileStateV1 =
    Regular MeasurementV1
  | Unsupported UnsupportedFileKindV1

record EvaluateFileV1 =
  ef_current_path :: string
  ef_baseline_path :: "string option"
  ef_current :: CurrentFileStateV1
  ef_comparison :: "MeasurementV1 option"

datatype ComparisonPolicyV1 = Absent | Present PolicyV1 | Unavailable

record EvaluationInputV1 =
  in_policy :: PolicyV1
  in_comparison_policy :: ComparisonPolicyV1
  in_current_date :: PolicyDateV1
  in_waiver_targets :: "ExactCurrentPathFactV1 list"
  in_files :: "EvaluateFileV1 list"

record FileIndexesV1 =
  fi_duplicate_paths :: "string btree_set"
  fi_duplicate_baseline_paths :: "string btree_set"
  fi_by_current :: "(string, EvaluateFileV1) btree_map"
  fi_by_baseline :: "(string, EvaluateFileV1 list) btree_map"

type_synonym waiver_facts = "(string, ExactCurrentPathFactV1 list) btree_map"

primrec metric_name :: "BudgetMetricV1 \<Rightarrow> string" where
  "metric_name Lines = ''line''"
| "metric_name Bytes = ''byte''"

primrec unsupported_name :: "UnsupportedFileKindV1 \<Rightarrow> string" where
  "unsupported_name Symlink = ''symlink''"
| "unsupported_name Gitlink = ''gitlink''"
| "unsupported_name Special = ''special file''"
| "unsupported_name ChangedDuringRead = ''changed during read''"

section \<open>Indexes\<close>

definition count_keys :: "string list \<Rightarrow> (string, nat) btree_map" where
  "count_keys ks = fold (\<lambda>k. bt_update k opt_incr) ks bt_empty"

definition duplicates :: "(string, nat) btree_map \<Rightarrow> string btree_set" where
  "duplicates counts = bs_collect (map fst (filter (\<lambda>(_, count). 1 < count) counts))"

definition baseline_claims :: "EvaluateFileV1 list \<Rightarrow> string list" where
  "baseline_claims files =
     concat (map (\<lambda>f. case ef_baseline_path f of None \<Rightarrow> [] | Some p \<Rightarrow> [p]) files)"

text \<open>The guard shared by \<open>index_files\<close> and the loop of \<open>evaluate_v1\<close>.\<close>

definition is_skipped :: "string btree_set \<Rightarrow> string btree_set \<Rightarrow> EvaluateFileV1 \<Rightarrow> bool" where
  "is_skipped dup dup_baseline f \<longleftrightarrow>
     ef_current_path f \<in> set dup \<or>
     (case ef_baseline_path f of None \<Rightarrow> False | Some p \<Rightarrow> p \<in> set dup_baseline)"

definition index_file ::
  "EvaluateFileV1 \<Rightarrow>
     (string, EvaluateFileV1) btree_map \<times> (string, EvaluateFileV1 list) btree_map \<Rightarrow>
     (string, EvaluateFileV1) btree_map \<times> (string, EvaluateFileV1 list) btree_map" where
  "index_file f ix =
     (bt_insert (ef_current_path f) f (fst ix),
      (case ef_baseline_path f of
         None \<Rightarrow> snd ix
       | Some p \<Rightarrow> bt_update p (opt_push f) (snd ix)))"

definition index_files :: "EvaluateFileV1 list \<Rightarrow> FileIndexesV1" where
  "index_files files =
     (let dup = duplicates (count_keys (map ef_current_path files));
          dup_baseline = duplicates (count_keys (baseline_claims
            (filter (\<lambda>f. ef_current_path f \<notin> set dup) files)));
          (by_current, by_baseline) =
            fold index_file (filter (\<lambda>f. \<not> is_skipped dup dup_baseline f) files) (bt_empty, bt_empty)
      in \<lparr>fi_duplicate_paths = dup, fi_duplicate_baseline_paths = dup_baseline,
          fi_by_current = by_current, fi_by_baseline = by_baseline\<rparr>)"

definition index_waiver_facts :: "ExactCurrentPathFactV1 list \<Rightarrow> waiver_facts" where
  "index_waiver_facts facts = fold (\<lambda>f. bt_update (fact_path f) (opt_push f)) facts bt_empty"

section \<open>Current waivers\<close>

definition current_waiver_error ::
  "budget_env \<Rightarrow> EvaluationInputV1 \<Rightarrow> waiver_facts \<Rightarrow> WaiverV1 \<Rightarrow> string option" where
  "current_waiver_error env input facts w =
     (if date_less (w_expires w) (in_current_date input)
      then Some (''waiver `'' @ w_id w @ ''` expired after '' @ date_display (w_expires w)
             @ '' and is not active on '' @ date_display (in_current_date input))
      else
        (case bt_get facts (w_path w) of
           None \<Rightarrow> Some (''waiver `'' @ w_id w @ ''` has no supplied exact current-view target fact'')
         | Some [] \<Rightarrow> Some (''waiver `'' @ w_id w @ ''` has no supplied exact current-view target fact'')
         | Some [target] \<Rightarrow>
           (case fact_state target of
              RegularPath \<Rightarrow>
                (case classify_path env (in_policy input) (w_path w) of
                   Inr (Governed rule) \<Rightarrow>
                     if r_id rule = w_rule w then None
                     else Some (''waiver `'' @ w_id w @ ''` target matches rule `'' @ r_id rule
                            @ ''`, not `'' @ w_rule w @ ''`'')
                 | Inr _ \<Rightarrow>
                     Some (''waiver `'' @ w_id w @ ''` target is no longer governed by rule `''
                       @ w_rule w @ ''`'')
                 | Inl _ \<Rightarrow>
                     Some (''waiver `'' @ w_id w
                       @ ''` target does not match exactly one effective rule''))
            | MissingPath \<Rightarrow>
                Some (''waiver `'' @ w_id w @ ''` exact current-view target is missing'')
            | UnsupportedPath kind \<Rightarrow>
                Some (''waiver `'' @ w_id w @ ''` exact current-view target is unsupported (''
                  @ unsupported_name kind @ '')''))
         | Some _ \<Rightarrow>
             Some (''waiver `'' @ w_id w
               @ ''` has duplicate supplied exact current-view target facts'')))"

definition check_current_waiver ::
  "budget_env \<Rightarrow> EvaluationInputV1 \<Rightarrow> waiver_facts \<Rightarrow> WaiverV1 \<Rightarrow>
     string btree_set \<times> BudgetDiagnosticV1 list \<Rightarrow> string btree_set \<times> BudgetDiagnosticV1 list" where
  "check_current_waiver env input facts w st =
     (case current_waiver_error env input facts w of
        None \<Rightarrow> st
      | Some message \<Rightarrow>
          (bs_insert (w_id w) (fst st),
           snd st @ [for_waiver (w_id w) (for_rule (w_rule w) (at_path (w_path w)
             (new_diagnostic Error
               (if date_less (w_expires w) (in_current_date input) then WaiverExpired else WaiverInvalid)
               message)))]))"

definition known_waiver_paths :: "EvaluationInputV1 \<Rightarrow> string btree_set" where
  "known_waiver_paths input =
     (let paths = bs_collect (map w_path (p_waivers (in_policy input))) in
      case in_comparison_policy input of
        Present comparison_policy \<Rightarrow> bs_extend (map w_path (p_waivers comparison_policy)) paths
      | _ \<Rightarrow> paths)"

definition validate_current_waivers ::
  "budget_env \<Rightarrow> EvaluationInputV1 \<Rightarrow> waiver_facts \<Rightarrow> string btree_set \<times> BudgetDiagnosticV1 list" where
  "validate_current_waivers env input facts =
     (if MAX_WAIVER_TARGET_FACTS_V1 < length (in_waiver_targets input)
      then (bs_collect (map w_id (p_waivers (in_policy input))),
            [new_diagnostic Error ResourceLimit
               (''supplied '' @ dec (length (in_waiver_targets input))
                @ '' waiver-target facts; version 1 permits at most ''
                @ dec MAX_WAIVER_TARGET_FACTS_V1)])
      else
        (let (invalid, ds) =
               fold (check_current_waiver env input facts) (p_waivers (in_policy input)) ([], []);
             waiver_paths = known_waiver_paths input
         in (invalid,
             ds @ concat (map (\<lambda>target.
               when_diag (fact_path target \<notin> set waiver_paths)
                 (at_path (fact_path target) (new_diagnostic Error ScopeIncomplete
                   ''supplied waiver-target fact does not correspond to a current waiver'')))
               (in_waiver_targets input)))))"

section \<open>Changes of policy\<close>

definition waivers_by_id :: "WaiverV1 list \<Rightarrow> (string, WaiverV1) btree_map" where
  "waivers_by_id ws = fold (\<lambda>w. bt_insert (w_id w) w) ws bt_empty"

definition waiver_change_kind :: "WaiverV1 \<Rightarrow> WaiverV1 \<Rightarrow> string" where
  "waiver_change_kind comparison current =
     (if w_path comparison \<noteq> w_path current \<or> w_rule comparison \<noteq> w_rule current
      then ''target transferred''
      else if w_expires comparison \<noteq> w_expires current then ''expiry changed''
      else if w_ceiling_lines comparison \<noteq> w_ceiling_lines current \<or>
              w_ceiling_bytes comparison \<noteq> w_ceiling_bytes current
      then ''ceiling changed''
      else ''reason changed'')"

definition waiver_change :: "string \<Rightarrow> WaiverV1 option \<Rightarrow> WaiverV1 option \<Rightarrow> BudgetDiagnosticV1 list" where
  "waiver_change ident comparison current =
     (let notice = (\<lambda>w message. [for_waiver ident (for_rule (w_rule w) (at_path (w_path w)
            (new_diagnostic Notice PolicyChanged message)))])
      in if current = comparison then []
         else
           (case (comparison, current) of
              (None, Some c) \<Rightarrow>
                notice c (''waiver `'' @ ident @ ''` was added as current authorization'')
            | (Some h, None) \<Rightarrow>
                notice h (''waiver `'' @ ident @ ''` was removed from current authorization'')
            | (Some h, Some c) \<Rightarrow>
                notice c (''waiver `'' @ ident @ ''` '' @ waiver_change_kind h c)
            | (None, None) \<Rightarrow> []))"

definition record_policy_changes :: "EvaluationInputV1 \<Rightarrow> BudgetDiagnosticV1 list" where
  "record_policy_changes input =
     (case in_comparison_policy input of
        Absent \<Rightarrow>
          when_diag (list_ex (\<lambda>f. ef_comparison f \<noteq> None) (in_files input))
            (at_path POLICY_PATH (new_diagnostic Notice PolicyChanged
              ''current policy is absent from the comparison side''))
      | Unavailable \<Rightarrow> []
      | Present comparison_policy \<Rightarrow>
        if semantic_sha256 (p_identity (in_policy input)) =
           semantic_sha256 (p_identity comparison_policy)
        then []
        else
          (let current_by_id = waivers_by_id (p_waivers (in_policy input));
               comparison_by_id = waivers_by_id (p_waivers comparison_policy);
               ids = bs_collect (bt_keys current_by_id @ bt_keys comparison_by_id)
           in at_path POLICY_PATH (new_diagnostic Notice PolicyChanged
                ''current semantic policy differs from comparison-side policy'') #
              concat (map (\<lambda>ident.
                waiver_change ident (bt_get comparison_by_id ident) (bt_get current_by_id ident))
                ids)))"

section \<open>Debt left by removed waivers\<close>

definition historical_waiver_diagnostic ::
  "BudgetDiagnosticCodeV1 \<Rightarrow> WaiverV1 \<Rightarrow> string \<Rightarrow> BudgetDiagnosticV1" where
  "historical_waiver_diagnostic code w message =
     for_waiver (w_id w) (for_rule (w_rule w) (at_path (w_path w) (new_diagnostic Error code message)))"

definition validate_historical_waiver_fact ::
  "WaiverV1 \<Rightarrow> (string, EvaluateFileV1) btree_map \<Rightarrow> waiver_facts \<Rightarrow> BudgetDiagnosticV1 list" where
  "validate_historical_waiver_fact historical affected facts =
     (let missing = [historical_waiver_diagnostic WaiverInvalid historical
            ''removed historical waiver has no supplied exact current-view target fact'']
      in
      case bt_get facts (w_path historical) of
        None \<Rightarrow> missing
      | Some [] \<Rightarrow> missing
      | Some [target] \<Rightarrow>
        (case fact_state target of
           RegularPath \<Rightarrow>
             (case bt_get affected (w_path historical) of
                Some file \<Rightarrow>
                  (case ef_current file of
                     Regular _ \<Rightarrow> []
                   | Unsupported _ \<Rightarrow>
                       [historical_waiver_diagnostic ScopeIncomplete historical
                         ''historical waiver target is reported regular but its file fact is unsupported''])
              | None \<Rightarrow>
                  [historical_waiver_diagnostic ScopeIncomplete historical
                    ''historical waiver target is regular but has no supplied measurement fact''])
         | MissingPath \<Rightarrow>
             when_diag (bt_get affected (w_path historical) \<noteq> None)
               (historical_waiver_diagnostic ScopeIncomplete historical
                 ''historical waiver target is reported missing but also has a current file fact'')
         | UnsupportedPath kind \<Rightarrow>
             [historical_waiver_diagnostic WaiverInvalid historical
               (''removed historical waiver target is unsupported ('' @ unsupported_name kind @ '')'')])
      | Some _ \<Rightarrow>
          [historical_waiver_diagnostic WaiverInvalid historical
            ''removed historical waiver has duplicate exact current-view target facts''])"

definition waiver_transfer_follows_ancestry :: "WaiverV1 \<Rightarrow> WaiverV1 \<Rightarrow> FileIndexesV1 \<Rightarrow> bool" where
  "waiver_transfer_follows_ancestry current historical files =
     (if w_path current = w_path historical then True
      else
        (case bt_get (fi_by_baseline files) (w_path historical) of
           None \<Rightarrow> False
         | Some renamed \<Rightarrow> list_ex (\<lambda>f. ef_current_path f = w_path current) renamed))"

definition affected_files ::
  "FileIndexesV1 \<Rightarrow> WaiverV1 \<Rightarrow> (string, EvaluateFileV1) btree_map" where
  "affected_files files historical =
     (let affected = (case bt_get (fi_by_current files) (w_path historical) of
            None \<Rightarrow> bt_empty
          | Some f \<Rightarrow> bt_insert (ef_current_path f) f bt_empty)
      in case bt_get (fi_by_baseline files) (w_path historical) of
           None \<Rightarrow> affected
         | Some renamed \<Rightarrow> fold (\<lambda>f. bt_insert (ef_current_path f) f) renamed affected)"

definition removed_metric_debt ::
  "WaiverV1 \<Rightarrow> EvaluateFileV1 \<Rightarrow> RuleV1 \<Rightarrow> bool \<Rightarrow> BudgetMetricV1 \<Rightarrow> u64 \<Rightarrow> u64 option \<Rightarrow> u64 option
     \<Rightarrow> BudgetDiagnosticV1 list" where
  "removed_metric_debt historical file rule removed metric current comparison maximum =
     (case maximum of
        None \<Rightarrow> []
      | Some limit \<Rightarrow>
          when_diag (removed \<and> current > limit)
            ((for_waiver (w_id historical) (for_rule (r_id rule) (at_path (ef_current_path file)
               (new_diagnostic Error WaiverRemovedWithDebt
                 (''historical waiver `'' @ w_id historical @ ''` no longer authorizes ''
                  @ metric_name metric @ '' debt'')))))
             \<lparr>d_metric := Some metric, d_current := Some current, d_comparison := comparison,
              d_limit := Some limit, d_debt := Some (current - limit)\<rparr>))"

definition removed_file_debt ::
  "budget_env \<Rightarrow> EvaluationInputV1 \<Rightarrow> WaiverV1 \<Rightarrow> bool \<Rightarrow> bool \<Rightarrow> EvaluateFileV1
     \<Rightarrow> BudgetDiagnosticV1 list" where
  "removed_file_debt env input historical removed_lines removed_bytes file =
     (case ef_current file of
        Unsupported _ \<Rightarrow> []
      | Regular measurement \<Rightarrow>
        (case classify_path env (in_policy input) (ef_current_path file) of
           Inr (Governed rule) \<Rightarrow>
             removed_metric_debt historical file rule removed_lines Lines (m_lines measurement)
               (map_option m_lines (ef_comparison file)) (r_max_lines rule) @
             removed_metric_debt historical file rule removed_bytes Bytes (m_bytes measurement)
               (map_option m_bytes (ef_comparison file)) (r_max_bytes rule)
         | _ \<Rightarrow> []))"

definition is_governed :: "budget_env \<Rightarrow> PolicyV1 \<Rightarrow> string \<Rightarrow> bool" where
  "is_governed env policy path =
     (case classify_path env policy path of Inr (Governed _) \<Rightarrow> True | _ \<Rightarrow> False)"

definition target_continues :: "EvaluationInputV1 \<Rightarrow> FileIndexesV1 \<Rightarrow> WaiverV1 \<Rightarrow> bool" where
  "target_continues input files historical =
     (case waiver_by_id (in_policy input) (w_id historical) of
        None \<Rightarrow> False
      | Some current \<Rightarrow> waiver_transfer_follows_ancestry current historical files)"

definition removed_ceiling ::
  "EvaluationInputV1 \<Rightarrow> FileIndexesV1 \<Rightarrow> WaiverV1 \<Rightarrow> (WaiverV1 \<Rightarrow> u64 option) \<Rightarrow> bool" where
  "removed_ceiling input files historical ceiling \<longleftrightarrow>
     ceiling historical \<noteq> None \<and>
     (\<not> target_continues input files historical \<or>
      (case waiver_by_id (in_policy input) (w_id historical) of
         None \<Rightarrow> True | Some current \<Rightarrow> ceiling current = None))"

definition removed_waiver_debt ::
  "budget_env \<Rightarrow> EvaluationInputV1 \<Rightarrow> FileIndexesV1 \<Rightarrow> waiver_facts \<Rightarrow> WaiverV1
     \<Rightarrow> BudgetDiagnosticV1 list" where
  "removed_waiver_debt env input files facts historical =
     (let continues = target_continues input files historical;
          removed_lines = removed_ceiling input files historical w_ceiling_lines;
          removed_bytes = removed_ceiling input files historical w_ceiling_bytes
      in
      if \<not> removed_lines \<and> \<not> removed_bytes then []
      else
        (let affected = affected_files files historical in
         if \<not> continues \<and>
            \<not> list_ex (\<lambda>f. is_governed env (in_policy input) (ef_current_path f)) (bt_values affected) \<and>
            (case classify_path env (in_policy input) (w_path historical) of
               Inr (Governed _) \<Rightarrow> False | Inr _ \<Rightarrow> True | Inl _ \<Rightarrow> False)
         then []
         else
           (if continues
            then when_diag (affected = [])
              (historical_waiver_diagnostic ScopeIncomplete historical
                ''removed waiver metric target has no supplied measurement fact'')
            else validate_historical_waiver_fact historical affected facts) @
           concat (map (removed_file_debt env input historical removed_lines removed_bytes)
             (bt_values affected))))"

definition record_removed_waiver_debt ::
  "budget_env \<Rightarrow> EvaluationInputV1 \<Rightarrow> FileIndexesV1 \<Rightarrow> waiver_facts \<Rightarrow> BudgetDiagnosticV1 list" where
  "record_removed_waiver_debt env input files facts =
     (case in_comparison_policy input of
        Present comparison_policy \<Rightarrow>
          concat (map (removed_waiver_debt env input files facts) (p_waivers comparison_policy))
      | _ \<Rightarrow> [])"

section \<open>Lemmas on the indexes\<close>

lemma count_at_most_one_distinct:
  "(\<forall>k. length (filter (\<lambda>x. x = k) ks) \<le> 1) \<longleftrightarrow> distinct ks"
proof (induction ks)
  case (Cons a ks)
  have "length (filter (\<lambda>x. x = k) (a # ks)) \<le> 1 \<longleftrightarrow>
      length (filter (\<lambda>x. x = k) ks) \<le> 1 \<and> (k = a \<longrightarrow> a \<notin> set ks)" for k
    by (auto simp: filter_empty_conv)
  then show ?case using Cons.IH by (metis distinct.simps(2))
qed simp

lemma set_duplicates_count [simp]:
  "set (duplicates (count_keys ks)) = {k. 1 < length (filter (\<lambda>x. x = k) ks)}"
proof -
  have wf: "bt_wf (count_keys ks)"
    unfolding count_keys_def
    by (rule bt_wf_fold_update [where key = "\<lambda>k. k" and upd = "\<lambda>_. opt_incr"]) simp
  have "(k, n) \<in> set (count_keys ks) \<longleftrightarrow>
      n = length (filter (\<lambda>x. x = k) ks) \<and> n \<noteq> 0" for k n
    unfolding bt.entries_get [OF wf] unfolding count_keys_def bt_get_count [where key = "\<lambda>k. k"]
    by (auto simp: Let_def)
  moreover have "k \<in> set (duplicates (count_keys ks)) \<longleftrightarrow> (\<exists>n. (k, n) \<in> set (count_keys ks) \<and> 1 < n)" for k
    by (auto simp: duplicates_def image_iff)
  ultimately show ?thesis by auto
qed

lemma duplicates_Nil_iff: "duplicates (count_keys ks) = [] \<longleftrightarrow> distinct ks"
proof -
  have "duplicates (count_keys ks) = [] \<longleftrightarrow> set (duplicates (count_keys ks)) = {}"
    by (simp only: set_empty)
  also have "\<dots> \<longleftrightarrow> distinct ks"
    unfolding set_duplicates_count count_at_most_one_distinct [symmetric] by (auto simp: not_less)
  finally show ?thesis .
qed

abbreviation skipped :: "FileIndexesV1 \<Rightarrow> EvaluateFileV1 \<Rightarrow> bool" where
  "skipped files f \<equiv> is_skipped (fi_duplicate_paths files) (fi_duplicate_baseline_paths files) f"

text \<open>
  Which facts are usable, counted over the facts themselves: no other fact has the current
  path of a usable fact, and no other fact with a current path of its own claims its
  comparison path.
\<close>

definition unique_current :: "EvaluateFileV1 list \<Rightarrow> EvaluateFileV1 \<Rightarrow> bool" where
  "unique_current files f \<longleftrightarrow> length (filter (\<lambda>g. ef_current_path g = ef_current_path f) files) = 1"

definition unique_claim :: "EvaluateFileV1 list \<Rightarrow> EvaluateFileV1 \<Rightarrow> bool" where
  "unique_claim files f \<longleftrightarrow>
     (case ef_baseline_path f of
        None \<Rightarrow> True
      | Some p \<Rightarrow> length (filter (\<lambda>g. unique_current files g \<and> ef_baseline_path g = Some p) files) = 1)"

definition indexed :: "EvaluateFileV1 list \<Rightarrow> EvaluateFileV1 list" where
  "indexed files = filter (\<lambda>f. unique_current files f \<and> unique_claim files f) files"

lemma fold_index_file:
  "fold index_file fs (a, b) =
     (fold (\<lambda>f. bt_insert (ef_current_path f) f) fs a,
      fold (\<lambda>f. bt_update (the (ef_baseline_path f)) (opt_push f))
        (filter (\<lambda>f. ef_baseline_path f \<noteq> None) fs) b)"
  by (induction fs arbitrary: a b) (auto simp: index_file_def split: option.splits)

lemma filter_baseline_claims:
  "length (filter (\<lambda>x. x = p) (baseline_claims files)) =
     length (filter (\<lambda>f. ef_baseline_path f = Some p) files)"
  by (induction files) (auto simp: baseline_claims_def split: option.splits)

lemma duplicate_current_iff:
  "p \<in> set (duplicates (count_keys (map ef_current_path files))) \<longleftrightarrow>
     2 \<le> length (filter (\<lambda>g. ef_current_path g = p) files)"
  by (simp add: filter_map comp_def) linarith

lemma member_count_pos: "f \<in> set files \<Longrightarrow> P f \<Longrightarrow> 1 \<le> length (filter P files)"
  by (induction files) auto

lemma unique_current_iff:
  assumes "f \<in> set files"
  shows "unique_current files f \<longleftrightarrow> ef_current_path f \<notin> set (duplicates (count_keys (map ef_current_path files)))"
  using member_count_pos [OF assms, of "\<lambda>g. ef_current_path g = ef_current_path f", OF refl]
  unfolding duplicate_current_iff unique_current_def by linarith

lemma index_files_duplicates:
  "fi_duplicate_paths (index_files files) = duplicates (count_keys (map ef_current_path files))"
  "fi_duplicate_baseline_paths (index_files files) = duplicates (count_keys (baseline_claims
     (filter (\<lambda>f. ef_current_path f \<notin> set (duplicates (count_keys (map ef_current_path files)))) files)))"
  by (simp_all add: index_files_def Let_def split_beta)

lemma duplicate_claim_iff:
  "p \<in> set (fi_duplicate_baseline_paths (index_files files)) \<longleftrightarrow>
     2 \<le> length (filter (\<lambda>g. unique_current files g \<and> ef_baseline_path g = Some p) files)"
proof -
  have "filter (\<lambda>g. ef_baseline_path g = Some p)
      (filter (\<lambda>g. ef_current_path g \<notin> set (duplicates (count_keys (map ef_current_path files)))) files) =
    filter (\<lambda>g. unique_current files g \<and> ef_baseline_path g = Some p) files"
    unfolding filter_filter by (rule filter_cong) (auto simp only: unique_current_iff)
  then show ?thesis
    unfolding index_files_duplicates(2) set_duplicates_count filter_baseline_claims by auto
qed

lemma indexed_eq: "indexed files = filter (\<lambda>f. \<not> skipped (index_files files) f) files"
  unfolding indexed_def
proof (rule filter_cong [OF refl])
  fix f assume f: "f \<in> set files"
  have claim: "unique_claim files f \<longleftrightarrow>
      (case ef_baseline_path f of None \<Rightarrow> True | Some p \<Rightarrow> p \<notin> set (fi_duplicate_baseline_paths (index_files files)))"
    if u: "unique_current files f"
  proof (cases "ef_baseline_path f")
    case (Some p)
    with u have "1 \<le> length (filter (\<lambda>g. unique_current files g \<and> ef_baseline_path g = Some p) files)"
      by (intro member_count_pos [OF f] conjI)
    then show ?thesis unfolding unique_claim_def Some option.case duplicate_claim_iff by linarith
  qed (simp add: unique_claim_def)
  show "(unique_current files f \<and> unique_claim files f) = (\<not> skipped (index_files files) f)"
    using claim unique_current_iff [OF f]
    unfolding is_skipped_def index_files_duplicates(1) by (cases "ef_baseline_path f") auto
qed

lemma index_files_maps:
  "fi_by_current (index_files files) =
     fold (\<lambda>f. bt_insert (ef_current_path f) f) (indexed files) bt_empty"
  "fi_by_baseline (index_files files) =
     fold (\<lambda>f. bt_update (the (ef_baseline_path f)) (opt_push f))
       (filter (\<lambda>f. ef_baseline_path f \<noteq> None) (indexed files)) bt_empty"
  by (simp_all add: indexed_eq index_files_def Let_def split_beta fold_index_file)

lemmas index_files_simps = index_files_duplicates index_files_maps

lemma length_le_one: "length xs \<le> 1 \<longleftrightarrow> xs = [] \<or> (\<exists>x. xs = [x])"
  by (cases xs rule: remdups_adj.cases) auto

lemma length_filter_mono:
  "(\<And>x. S x \<Longrightarrow> Q x) \<Longrightarrow> length (filter P (filter S xs)) \<le> length (filter P (filter Q xs))"
  by (induction xs) auto

lemma indexed_current_unique:
  "length (filter (\<lambda>f. ef_current_path f = p) (indexed files)) \<le> 1"
proof (cases "p \<in> set (duplicates (count_keys (map ef_current_path files)))")
  case True
  then have "filter (\<lambda>f. ef_current_path f = p) (indexed files) = []"
    by (auto simp: indexed_eq filter_empty_conv is_skipped_def index_files_simps(1))
  then show ?thesis by simp
next
  case False
  then have "length (filter (\<lambda>f. ef_current_path f = p) files) \<le> 1"
    by (simp add: filter_map comp_def)
  moreover have "length (filter (\<lambda>f. ef_current_path f = p) (indexed files)) \<le>
      length (filter (\<lambda>f. ef_current_path f = p) (filter (\<lambda>_. True) files))"
    unfolding indexed_eq by (rule length_filter_mono) simp
  ultimately show ?thesis by simp
qed

lemma indexed_baseline_unique:
  "length (filter (\<lambda>f. ef_baseline_path f = Some p) (indexed files)) \<le> 1"
proof (cases "p \<in> set (fi_duplicate_baseline_paths (index_files files))")
  case True
  then have "filter (\<lambda>f. ef_baseline_path f = Some p) (indexed files) = []"
    by (auto simp: indexed_eq filter_empty_conv is_skipped_def)
  then show ?thesis by simp
next
  case False
  let ?Q = "\<lambda>f. ef_current_path f \<notin> set (duplicates (count_keys (map ef_current_path files)))"
  have "length (filter (\<lambda>f. ef_baseline_path f = Some p) (filter ?Q files)) \<le> 1"
    using False unfolding index_files_simps(2) set_duplicates_count filter_baseline_claims by simp
  moreover have "length (filter (\<lambda>f. ef_baseline_path f = Some p) (indexed files)) \<le>
      length (filter (\<lambda>f. ef_baseline_path f = Some p) (filter ?Q files))"
    unfolding indexed_eq by (rule length_filter_mono) (simp add: is_skipped_def index_files_simps(1))
  ultimately show ?thesis by simp
qed

lemma by_current_iff:
  "bt_get (fi_by_current (index_files files)) p = Some f \<longleftrightarrow> f \<in> set (indexed files) \<and> ef_current_path f = p"
proof -
  let ?fs = "filter (\<lambda>f. ef_current_path f = p) (indexed files)"
  have get: "bt_get (fi_by_current (index_files files)) p =
      (case ?fs of [] \<Rightarrow> None | _ \<Rightarrow> Some (last ?fs))"
    unfolding index_files_simps(3) bt_fold_insert_index
    by (simp add: bt.get_index_last bt.get_empty split: list.splits)
  have mem: "f \<in> set (indexed files) \<and> ef_current_path f = p \<longleftrightarrow> f \<in> set ?fs" by auto
  from indexed_current_unique [of p files] consider "?fs = []" | g where "?fs = [g]"
    unfolding length_le_one by blast
  then show ?thesis by cases (simp_all add: get mem, auto)
qed

lemma by_baseline_iff:
  "bt_get (fi_by_baseline (index_files files)) p = Some fs \<longleftrightarrow>
     (\<exists>f. fs = [f] \<and> f \<in> set (indexed files) \<and> ef_baseline_path f = Some p)"
proof -
  let ?fs = "filter (\<lambda>f. ef_baseline_path f = Some p) (indexed files)"
  have "filter (\<lambda>f. the (ef_baseline_path f) = p) (filter (\<lambda>f. ef_baseline_path f \<noteq> None) (indexed files)) = ?fs"
    by (auto simp: filter_filter intro!: filter_cong)
  then have get: "bt_get (fi_by_baseline (index_files files)) p = (case ?fs of [] \<Rightarrow> None | _ \<Rightarrow> Some ?fs)"
    unfolding index_files_simps(4) bt_get_group by (simp split: list.splits)
  have mem: "f \<in> set (indexed files) \<and> ef_baseline_path f = Some p \<longleftrightarrow> f \<in> set ?fs" for f by auto
  from indexed_baseline_unique [of p files] consider "?fs = []" | g where "?fs = [g]"
    unfolding length_le_one by blast
  then show ?thesis by cases (simp_all add: get mem, auto)
qed

lemma bt_get_index_facts:
  "bt_get (index_waiver_facts facts) p =
     (case filter (\<lambda>f. fact_path f = p) facts of [] \<Rightarrow> None | ys \<Rightarrow> Some ys)"
  by (simp add: index_waiver_facts_def bt_get_group)

section \<open>Lemmas on the diagnostics\<close>

abbreviation has_error :: "BudgetDiagnosticV1 list \<Rightarrow> bool" where
  "has_error ds \<equiv> list_ex is_error ds"

lemma list_ex_when_diag [simp]: "list_ex P (when_diag b d) \<longleftrightarrow> b \<and> P d"
  by (simp add: when_diag_def)

lemma has_error_concat_map [simp]:
  "has_error (concat (map f xs)) \<longleftrightarrow> (\<exists>x \<in> set xs. has_error (f x))"
  by (auto simp: list_ex_iff)

lemma all_errors_has_error: "list_all is_error ds \<Longrightarrow> has_error ds \<longleftrightarrow> ds \<noteq> []"
  by (cases ds) auto

lemma no_error_policy_changes [simp]: "\<not> has_error (record_policy_changes input)"
proof -
  have "\<not> has_error (waiver_change ident a b)" for ident a b
    by (simp add: waiver_change_def Let_def split: option.split)
  then show ?thesis
    by (simp add: record_policy_changes_def Let_def split: ComparisonPolicyV1.split)
qed

lemma list_all_removed:
  "list_all is_error (validate_historical_waiver_fact historical affected facts)"
  "list_all is_error (removed_file_debt env input historical rl rb f)"
  "list_all is_error (removed_waiver_debt env input files facts historical)"
proof -
  have h: "is_error (historical_waiver_diagnostic code w message)" for code w message
    by (simp add: historical_waiver_diagnostic_def)
  show v: "list_all is_error (validate_historical_waiver_fact historical affected facts)" for affected
    by (simp add: validate_historical_waiver_fact_def Let_def h split: option.split list.split
        ExactCurrentPathStateV1.split CurrentFileStateV1.split)
  show f: "list_all is_error (removed_file_debt env input historical rl rb f)" for rl rb f
    by (simp add: removed_file_debt_def removed_metric_debt_def
        split: CurrentFileStateV1.split sum.split PathDispositionV1.split option.split)
  show "list_all is_error (removed_waiver_debt env input files facts historical)"
    by (simp add: removed_waiver_debt_def Let_def h v f)
qed

lemma has_error_removed:
  "has_error (record_removed_waiver_debt env input files facts) \<longleftrightarrow>
     record_removed_waiver_debt env input files facts \<noteq> []"
proof (rule all_errors_has_error)
  show "list_all is_error (record_removed_waiver_debt env input files facts)"
    by (simp add: record_removed_waiver_debt_def list_all_removed split: ComparisonPolicyV1.split)
qed

lemma check_current_waivers:
  "set (fst (fold (check_current_waiver env input facts) ws (ids, ds))) =
     set ids \<union> w_id ` {w \<in> set ws. current_waiver_error env input facts w \<noteq> None} \<and>
   (has_error (snd (fold (check_current_waiver env input facts) ws (ids, ds))) \<longleftrightarrow>
     has_error ds \<or> (\<exists>w \<in> set ws. current_waiver_error env input facts w \<noteq> None))"
  by (induction ws arbitrary: ids ds) (auto simp: check_current_waiver_def split: option.splits)

lemma invalid_waivers_iff:
  assumes "length (in_waiver_targets input) \<le> MAX_WAIVER_TARGET_FACTS_V1"
  shows "set (fst (validate_current_waivers env input facts)) =
     w_id ` {w \<in> set (p_waivers (in_policy input)). current_waiver_error env input facts w \<noteq> None}"
  using assms check_current_waivers [of env input facts "p_waivers (in_policy input)" "[]" "[]"]
  by (simp add: validate_current_waivers_def split_beta)

lemma has_error_current_waivers:
  "has_error (snd (validate_current_waivers env input facts)) \<longleftrightarrow>
     MAX_WAIVER_TARGET_FACTS_V1 < length (in_waiver_targets input) \<or>
     (\<exists>w \<in> set (p_waivers (in_policy input)). current_waiver_error env input facts w \<noteq> None) \<or>
     (\<exists>target \<in> set (in_waiver_targets input). fact_path target \<notin> set (known_waiver_paths input))"
  using check_current_waivers [of env input facts "p_waivers (in_policy input)" "[]" "[]"]
  by (simp add: validate_current_waivers_def split_beta)

declare set_duplicates_count [simp del]

end
