(* ===== verification/Budget_Evaluation.thy ===== *)
theory Budget_Evaluation
  imports Budget_Waiver
begin

text \<open>
  \<open>crates/jig-file-budget/src/evaluation.rs\<close>: the evaluation of the facts of a repository
  against a policy. Each governed regular file is checked per metric against its rule's
  thresholds, its waiver and its comparison measurement; the counters saturate at the
  width of \<open>u64\<close>.
\<close>

section \<open>Metrics\<close>

record BudgetEvaluationV1 =
  be_diagnostics :: "BudgetDiagnosticV1 list"
  be_evaluated_files :: u64
  be_excluded_files :: u64
  be_waived_files :: u64

definition passed :: "BudgetEvaluationV1 \<Rightarrow> bool" where
  "passed ev \<longleftrightarrow> \<not> list_ex (\<lambda>d. d_severity d = Error) (be_diagnostics ev)"

primrec maximum_code :: "BudgetMetricV1 \<Rightarrow> BudgetDiagnosticCodeV1" where
  "maximum_code Lines = MaxLines"
| "maximum_code Bytes = MaxBytes"

primrec debt_growth_code :: "BudgetMetricV1 \<Rightarrow> BudgetDiagnosticCodeV1" where
  "debt_growth_code Lines = DebtGrowthLines"
| "debt_growth_code Bytes = DebtGrowthBytes"

primrec notice_code :: "BudgetMetricV1 \<Rightarrow> BudgetDiagnosticCodeV1" where
  "notice_code Lines = NoticeLines"
| "notice_code Bytes = NoticeBytes"

primrec warning_code :: "BudgetMetricV1 \<Rightarrow> BudgetDiagnosticCodeV1" where
  "warning_code Lines = WarningLines"
| "warning_code Bytes = WarningBytes"

definition metric_diagnostic ::
  "BudgetSeverityV1 \<Rightarrow> BudgetDiagnosticCodeV1 \<Rightarrow> string \<Rightarrow> EvaluateFileV1 \<Rightarrow> RuleV1 \<Rightarrow> BudgetMetricV1
     \<Rightarrow> u64 \<Rightarrow> u64 option \<Rightarrow> u64 \<Rightarrow> BudgetDiagnosticV1" where
  "metric_diagnostic severity code message file rule metric current comparison limit =
     (for_rule (r_id rule) (at_path (ef_current_path file) (new_diagnostic severity code message)))
       \<lparr>d_metric := Some metric, d_current := Some current, d_comparison := comparison,
        d_limit := Some limit\<rparr>"

definition unsupported_diagnostic ::
  "string \<Rightarrow> string \<Rightarrow> UnsupportedFileKindV1 \<Rightarrow> BudgetDiagnosticV1" where
  "unsupported_diagnostic path rule_id kind =
     for_rule rule_id (at_path path (new_diagnostic Error
       (if kind = ChangedDuringRead then ChangedDuringReadCode else UnsupportedFile)
       (''governed path is unsupported ('' @ unsupported_name kind @ '')'')))"

text \<open>The notice and warning thresholds, which never end the evaluation of a metric.\<close>

definition threshold_diagnostics ::
  "EvaluateFileV1 \<Rightarrow> RuleV1 \<Rightarrow> BudgetMetricV1 \<Rightarrow> u64 \<Rightarrow> u64 option \<Rightarrow> u64 option \<Rightarrow> u64 option
     \<Rightarrow> BudgetDiagnosticV1 list" where
  "threshold_diagnostics file rule metric current comparison notice warning =
     (case notice of
        None \<Rightarrow> []
      | Some t \<Rightarrow> when_diag (current > t)
          (metric_diagnostic Notice (notice_code metric)
            (metric_name metric @ '' measurement '' @ dec64 current @ '' exceeds notice threshold ''
             @ dec64 t) file rule metric current comparison t)) @
     (case warning of
        None \<Rightarrow> []
      | Some t \<Rightarrow> when_diag (current > t)
          (metric_diagnostic Warning (warning_code metric)
            (metric_name metric @ '' measurement '' @ dec64 current @ '' exceeds warning threshold ''
             @ dec64 t) file rule metric current comparison t))"

text \<open>The comparison of a debt with the debt of the comparison side.\<close>

definition debt_diagnostic ::
  "EvaluateFileV1 \<Rightarrow> RuleV1 \<Rightarrow> BudgetMetricV1 \<Rightarrow> u64 \<Rightarrow> u64 \<Rightarrow> u64 \<Rightarrow> BudgetDiagnosticV1" where
  "debt_diagnostic file rule metric current comparison maximum =
     (let debt = u64_sat_sub current maximum;
          comparison_debt = u64_sat_sub comparison maximum
      in
      if debt > comparison_debt
      then (metric_diagnostic Error (debt_growth_code metric)
              (metric_name metric @ '' debt grew by '' @ dec64 (debt - comparison_debt) @ '', from ''
               @ dec64 comparison_debt @ '' to '' @ dec64 debt)
              file rule metric current (Some comparison) maximum)
             \<lparr>d_debt := Some debt, d_debt_growth := Some (debt - comparison_debt)\<rparr>
      else if debt = comparison_debt
      then (metric_diagnostic Warning LegacyDebt
              (metric_name metric @ '' legacy debt remains unchanged at '' @ dec64 debt)
              file rule metric current (Some comparison) maximum)\<lparr>d_debt := Some debt\<rparr>
      else (metric_diagnostic Notice DebtImproved
              (metric_name metric @ '' debt improved by '' @ dec64 (comparison_debt - debt)
               @ '', from '' @ dec64 comparison_debt @ '' to '' @ dec64 debt)
              file rule metric current (Some comparison) maximum)\<lparr>d_debt := Some debt\<rparr>)"

definition retired_diagnostics ::
  "EvaluateFileV1 \<Rightarrow> RuleV1 \<Rightarrow> BudgetMetricV1 \<Rightarrow> u64 \<Rightarrow> u64 option \<Rightarrow> u64 \<Rightarrow> BudgetDiagnosticV1 list" where
  "retired_diagnostics file rule metric current comparison maximum =
     (case comparison of
        None \<Rightarrow> []
      | Some compared \<Rightarrow>
          (let retired = u64_sat_sub compared maximum in
           when_diag (retired > 0)
             ((metric_diagnostic Notice DebtImproved
                (metric_name metric @ '' debt improved by '' @ dec64 retired @ '' and is now retired'')
                file rule metric current (Some compared) maximum)\<lparr>d_debt := Some 0\<rparr>)))"

definition evaluate_metric ::
  "EvaluateFileV1 \<Rightarrow> RuleV1 \<Rightarrow> WaiverV1 option \<Rightarrow> BudgetMetricV1 \<Rightarrow> u64 \<Rightarrow> u64 option \<Rightarrow> u64 option
     \<Rightarrow> u64 option \<Rightarrow> u64 option \<Rightarrow> u64 option \<Rightarrow> bool \<Rightarrow> BudgetDiagnosticV1 list \<times> bool" where
  "evaluate_metric file rule waiver metric current comparison notice warning maximum waiver_ceiling
     exercised =
     (let thresholds = threshold_diagnostics file rule metric current comparison notice warning in
      case maximum of
        None \<Rightarrow> (thresholds, exercised)
      | Some limit \<Rightarrow>
        (case waiver_ceiling of
           Some ceiling \<Rightarrow>
             if current > ceiling
             then (thresholds @
                   [(metric_diagnostic Error (maximum_code metric)
                      (metric_name metric @ '' measurement '' @ dec64 current
                       @ '' exceeds waiver ceiling '' @ dec64 ceiling)
                      file rule metric current comparison ceiling)
                     \<lparr>d_debt := Some (u64_sat_sub current limit),
                      d_waiver_id := map_option w_id waiver\<rparr>], exercised)
             else if u64_sat_sub current limit = 0
             then (thresholds @ retired_diagnostics file rule metric current comparison limit, exercised)
             else (thresholds, True)
         | None \<Rightarrow>
             if u64_sat_sub current limit = 0
             then (thresholds @ retired_diagnostics file rule metric current comparison limit, exercised)
             else
               (case comparison of
                  None \<Rightarrow>
                    (thresholds @
                     [(metric_diagnostic Error (maximum_code metric)
                        (''new file '' @ metric_name metric @ '' measurement '' @ dec64 current
                         @ '' exceeds maximum '' @ dec64 limit)
                        file rule metric current None limit)
                       \<lparr>d_debt := Some (u64_sat_sub current limit)\<rparr>], exercised)
                | Some compared \<Rightarrow>
                    (thresholds @ [debt_diagnostic file rule metric current compared limit],
                     exercised))))"

section \<open>Evaluation\<close>

record eval_counts =
  ec_diagnostics :: "BudgetDiagnosticV1 list"
  ec_evaluated :: u64
  ec_excluded :: u64
  ec_waived :: u64

definition push_diags :: "BudgetDiagnosticV1 list \<Rightarrow> eval_counts \<Rightarrow> eval_counts" where
  "push_diags ds st = st\<lparr>ec_diagnostics := ec_diagnostics st @ ds\<rparr>"

text \<open>The waiver of a file, unless it was found invalid.\<close>

definition effective_waiver ::
  "PolicyV1 \<Rightarrow> string btree_set \<Rightarrow> RuleV1 \<Rightarrow> string \<Rightarrow> WaiverV1 option" where
  "effective_waiver policy invalid rule path =
     (case waiver_for policy (r_id rule) path of
        None \<Rightarrow> None
      | Some w \<Rightarrow> if w_id w \<in> set invalid then None else Some w)"

definition active_diagnostic :: "EvaluateFileV1 \<Rightarrow> RuleV1 \<Rightarrow> WaiverV1 \<Rightarrow> BudgetDiagnosticV1" where
  "active_diagnostic file rule w =
     for_waiver (w_id w) (for_rule (r_id rule) (at_path (ef_current_path file)
       (new_diagnostic Warning WaiverActive
         (''waiver `'' @ w_id w @ ''` authorizes bounded debt through '' @ date_display (w_expires w)))))"

text \<open>
  The two metrics share the flag \<open>exercised_waiver\<close>. A waiver that is exercised exists
  (\<open>metrics_exercise_waiver\<close> below), so the \<open>expect\<close> of the source never panics.
\<close>

definition evaluate_regular ::
  "EvaluateFileV1 \<Rightarrow> RuleV1 \<Rightarrow> WaiverV1 option \<Rightarrow> MeasurementV1 \<Rightarrow> eval_counts \<Rightarrow> eval_counts" where
  "evaluate_regular file rule waiver current st =
     (let (line_ds, exercised) =
            evaluate_metric file rule waiver Lines (m_lines current)
              (map_option m_lines (ef_comparison file))
              (r_notice_lines rule) (r_warn_lines rule) (r_max_lines rule)
              (Option.bind waiver w_ceiling_lines) False;
          (byte_ds, exercised) =
            evaluate_metric file rule waiver Bytes (m_bytes current)
              (map_option m_bytes (ef_comparison file))
              (r_notice_bytes rule) (r_warn_bytes rule) (r_max_bytes rule)
              (Option.bind waiver w_ceiling_bytes) exercised;
          st = push_diags (line_ds @ byte_ds) st
      in
      case (exercised, waiver) of
        (True, Some w) \<Rightarrow>
          (push_diags [active_diagnostic file rule w] st)
          \<lparr>ec_waived := u64_sat_add (ec_waived st) 1\<rparr>
      | _ \<Rightarrow> st)"

definition evaluate_file ::
  "budget_env \<Rightarrow> PolicyV1 \<Rightarrow> string btree_set \<Rightarrow> FileIndexesV1 \<Rightarrow> EvaluateFileV1 \<Rightarrow> eval_counts
     \<Rightarrow> eval_counts" where
  "evaluate_file env policy invalid files file st =
     (if is_skipped (fi_duplicate_paths files) (fi_duplicate_baseline_paths files) file then st
      else
        (case classify_path env policy (ef_current_path file) of
           Inl d \<Rightarrow> push_diags [d] st
         | Inr Outside \<Rightarrow> st
         | Inr (Excluded _) \<Rightarrow> st\<lparr>ec_excluded := u64_sat_add (ec_excluded st) 1\<rparr>
         | Inr LocallyExcluded \<Rightarrow> st\<lparr>ec_excluded := u64_sat_add (ec_excluded st) 1\<rparr>
         | Inr (Governed rule) \<Rightarrow>
           (let st = st\<lparr>ec_evaluated := u64_sat_add (ec_evaluated st) 1\<rparr> in
            case ef_current file of
              Unsupported kind \<Rightarrow>
                push_diags [unsupported_diagnostic (ef_current_path file) (r_id rule) kind] st
            | Regular current \<Rightarrow>
                if (ef_baseline_path file \<noteq> None) \<noteq> (ef_comparison file \<noteq> None)
                then push_diags
                  [for_rule (r_id rule) (at_path (ef_current_path file)
                     (new_diagnostic Error BaselineUnavailable
                       ''baseline path and comparison measurement must either both be supplied or both be absent''))]
                  st
                else evaluate_regular file rule
                  (effective_waiver policy invalid rule (ef_current_path file)) current st)))"

definition duplicate_diagnostics :: "FileIndexesV1 \<Rightarrow> BudgetDiagnosticV1 list" where
  "duplicate_diagnostics files =
     map (\<lambda>path. at_path path (new_diagnostic Error ScopeIncomplete
       (''current evaluation facts contain duplicate path `'' @ path @ ''`''))) (fi_duplicate_paths files) @
     map (\<lambda>path. at_path path (new_diagnostic Error ScopeIncomplete
       (''comparison path `'' @ path @ ''` is claimed by multiple current files'')))
       (fi_duplicate_baseline_paths files)"

definition evaluate_v1 :: "budget_env \<Rightarrow> EvaluationInputV1 \<Rightarrow> BudgetEvaluationV1" where
  "evaluate_v1 env input =
     (let unavailable = when_diag (in_comparison_policy input = Unavailable)
            (at_path POLICY_PATH (new_diagnostic Error BaselineUnavailable
              ''comparison-side policy authority is unavailable''));
          files = index_files (in_files input);
          exceeded = MAX_WAIVER_TARGET_FACTS_V1 < length (in_waiver_targets input);
          facts = (if exceeded then bt_empty else index_waiver_facts (in_waiver_targets input));
          (invalid, waiver_ds) = validate_current_waivers env input facts;
          removed = (if exceeded then [] else record_removed_waiver_debt env input files facts);
          start = \<lparr>ec_diagnostics = unavailable @ waiver_ds @ record_policy_changes input @ removed @
                     duplicate_diagnostics files,
                   ec_evaluated = 0, ec_excluded = 0, ec_waived = 0\<rparr>;
          st = fold (evaluate_file env (in_policy input) invalid files) (in_files input) start
      in \<lparr>be_diagnostics = sort_diagnostics (ec_diagnostics st), be_evaluated_files = ec_evaluated st,
          be_excluded_files = ec_excluded st, be_waived_files = ec_waived st\<rparr>)"

section \<open>One metric\<close>

text \<open>
  A measurement exceeds its limits when it is above the waiver's ceiling, or, with no
  ceiling, above the maximum and above the comparison measurement, if there is one.
\<close>

definition exceeds :: "u64 \<Rightarrow> u64 option \<Rightarrow> u64 option \<Rightarrow> u64 option \<Rightarrow> bool" where
  "exceeds current comparison maximum ceiling \<longleftrightarrow>
     (case maximum of
        None \<Rightarrow> False
      | Some limit \<Rightarrow>
          (case ceiling of
             Some c \<Rightarrow> c < current
           | None \<Rightarrow> limit < current \<and> (case comparison of None \<Rightarrow> True | Some b \<Rightarrow> b < current)))"

definition exercises :: "u64 \<Rightarrow> u64 option \<Rightarrow> u64 option \<Rightarrow> bool" where
  "exercises current maximum ceiling \<longleftrightarrow>
     (case (maximum, ceiling) of (Some limit, Some c) \<Rightarrow> limit < current \<and> current \<le> c | _ \<Rightarrow> False)"

lemma d_severity_metric [simp]:
  "d_severity (metric_diagnostic severity code message file rule metric current comparison limit) = severity"
  by (simp add: metric_diagnostic_def)

lemma no_error_thresholds [simp]:
  "\<not> has_error (threshold_diagnostics file rule metric current comparison notice warning)"
  by (simp add: threshold_diagnostics_def split: option.split)

lemma no_error_retired [simp]:
  "\<not> has_error (retired_diagnostics file rule metric current comparison maximum)"
  by (simp add: retired_diagnostics_def Let_def split: option.split)

lemma sat_sub_less_iff:
  "u64_sat_sub b m < u64_sat_sub a m \<longleftrightarrow> m < a \<and> b < a"
  by (simp add: word_less_nat_alt unat_sat_sub less_diff_iff) linarith

lemma is_error_debt: "is_error (debt_diagnostic file rule metric current comparison maximum) \<longleftrightarrow>
    maximum < current \<and> comparison < current"
  by (simp add: debt_diagnostic_def Let_def sat_sub_less_iff [symmetric])

lemma evaluate_metric_error:
  "has_error (fst (evaluate_metric file rule waiver metric current comparison notice warning maximum
      ceiling exercised)) \<longleftrightarrow> exceeds current comparison maximum ceiling"
  by (simp add: evaluate_metric_def exceeds_def Let_def is_error_debt not_le not_less
      split: option.split) auto

lemma evaluate_metric_exercised:
  "snd (evaluate_metric file rule waiver metric current comparison notice warning maximum
      ceiling exercised) \<longleftrightarrow> exercised \<or> exercises current maximum ceiling"
  by (simp add: evaluate_metric_def exercises_def Let_def not_le not_less split: option.split) auto

section \<open>One file\<close>

definition metrics_exceed :: "EvaluateFileV1 \<Rightarrow> RuleV1 \<Rightarrow> WaiverV1 option \<Rightarrow> MeasurementV1 \<Rightarrow> bool" where
  "metrics_exceed file rule waiver m \<longleftrightarrow>
     exceeds (m_lines m) (map_option m_lines (ef_comparison file)) (r_max_lines rule)
       (Option.bind waiver w_ceiling_lines) \<or>
     exceeds (m_bytes m) (map_option m_bytes (ef_comparison file)) (r_max_bytes rule)
       (Option.bind waiver w_ceiling_bytes)"

definition metrics_exercise :: "RuleV1 \<Rightarrow> WaiverV1 option \<Rightarrow> MeasurementV1 \<Rightarrow> bool" where
  "metrics_exercise rule waiver m \<longleftrightarrow>
     exercises (m_lines m) (r_max_lines rule) (Option.bind waiver w_ceiling_lines) \<or>
     exercises (m_bytes m) (r_max_bytes rule) (Option.bind waiver w_ceiling_bytes)"

lemma metrics_exercise_waiver: "metrics_exercise rule waiver m \<Longrightarrow> waiver \<noteq> None"
  by (cases waiver) (auto simp: metrics_exercise_def exercises_def split: option.splits)

lemma push_diags_simps [simp]:
  "ec_diagnostics (push_diags ds st) = ec_diagnostics st @ ds"
  "ec_evaluated (push_diags ds st) = ec_evaluated st"
  "ec_excluded (push_diags ds st) = ec_excluded st"
  "ec_waived (push_diags ds st) = ec_waived st"
  by (simp_all add: push_diags_def)

text \<open>The effect of a file on the state: diagnostics appended and counters advanced.\<close>

definition bump :: "bool \<Rightarrow> u64 \<Rightarrow> u64" where
  "bump b n = (if b then u64_sat_add n 1 else n)"

definition advances ::
  "(eval_counts \<Rightarrow> eval_counts) \<Rightarrow> BudgetDiagnosticV1 list \<Rightarrow> bool \<Rightarrow> bool \<Rightarrow> bool \<Rightarrow> bool" where
  "advances f ds ev ex wv \<longleftrightarrow>
     (\<forall>st. f st = \<lparr>ec_diagnostics = ec_diagnostics st @ ds, ec_evaluated = bump ev (ec_evaluated st),
        ec_excluded = bump ex (ec_excluded st), ec_waived = bump wv (ec_waived st)\<rparr>)"

lemma evaluate_regular_advances:
  "\<exists>ds. advances (evaluate_regular file rule waiver m) ds False False (metrics_exercise rule waiver m) \<and>
     (has_error ds \<longleftrightarrow> metrics_exceed file rule waiver m)"
proof -
  obtain line_ds e1 where l: "evaluate_metric file rule waiver Lines (m_lines m)
      (map_option m_lines (ef_comparison file)) (r_notice_lines rule) (r_warn_lines rule)
      (r_max_lines rule) (Option.bind waiver w_ceiling_lines) False = (line_ds, e1)"
    by (metis surj_pair)
  obtain byte_ds e2 where b: "evaluate_metric file rule waiver Bytes (m_bytes m)
      (map_option m_bytes (ef_comparison file)) (r_notice_bytes rule) (r_warn_bytes rule)
      (r_max_bytes rule) (Option.bind waiver w_ceiling_bytes) e1 = (byte_ds, e2)"
    by (metis surj_pair)
  have e: "e2 \<longleftrightarrow> metrics_exercise rule waiver m"
    using l b evaluate_metric_exercised by (metis metrics_exercise_def snd_conv)
  have err: "has_error (line_ds @ byte_ds) \<longleftrightarrow> metrics_exceed file rule waiver m"
    using l b evaluate_metric_error by (metis metrics_exceed_def fst_conv list_ex_append)
  let ?ds = "line_ds @ byte_ds @ (if e2 then [active_diagnostic file rule (the waiver)] else [])"
  have reg: "evaluate_regular file rule waiver m st =
      (case (e2, waiver) of
         (True, Some w) \<Rightarrow>
           (push_diags [active_diagnostic file rule w] (push_diags (line_ds @ byte_ds) st))
             \<lparr>ec_waived := u64_sat_add (ec_waived st) 1\<rparr>
       | _ \<Rightarrow> push_diags (line_ds @ byte_ds) st)" for st
    by (simp add: evaluate_regular_def l b Let_def split: bool.split option.split)
  have "evaluate_regular file rule waiver m st =
      \<lparr>ec_diagnostics = ec_diagnostics st @ ?ds, ec_evaluated = bump False (ec_evaluated st),
       ec_excluded = bump False (ec_excluded st), ec_waived = bump e2 (ec_waived st)\<rparr>" for st
    using metrics_exercise_waiver [of rule waiver m] e unfolding reg
    by (cases st; cases e2; cases waiver) (auto simp: push_diags_def bump_def)
  then have "advances (evaluate_regular file rule waiver m) ?ds False False (metrics_exercise rule waiver m)"
    unfolding advances_def e by blast
  moreover have "has_error ?ds \<longleftrightarrow> metrics_exceed file rule waiver m"
    using err by (simp add: active_diagnostic_def)
  ultimately show ?thesis by blast
qed
definition is_excluded :: "budget_env \<Rightarrow> PolicyV1 \<Rightarrow> string \<Rightarrow> bool" where
  "is_excluded env policy path =
     (case classify_path env policy path of
        Inr (Excluded _) \<Rightarrow> True | Inr LocallyExcluded \<Rightarrow> True | _ \<Rightarrow> False)"

text \<open>A file that fails the evaluation, and a file whose waiver is exercised.\<close>

definition file_fails ::
  "budget_env \<Rightarrow> PolicyV1 \<Rightarrow> string btree_set \<Rightarrow> EvaluateFileV1 \<Rightarrow> bool" where
  "file_fails env policy invalid f =
     (case classify_path env policy (ef_current_path f) of
        Inl _ \<Rightarrow> True
      | Inr (Governed rule) \<Rightarrow>
          (case ef_current f of
             Unsupported _ \<Rightarrow> True
           | Regular m \<Rightarrow>
               (ef_baseline_path f \<noteq> None) \<noteq> (ef_comparison f \<noteq> None) \<or>
               metrics_exceed f rule (effective_waiver policy invalid rule (ef_current_path f)) m)
      | _ \<Rightarrow> False)"

definition file_waived ::
  "budget_env \<Rightarrow> PolicyV1 \<Rightarrow> string btree_set \<Rightarrow> EvaluateFileV1 \<Rightarrow> bool" where
  "file_waived env policy invalid f =
     (case (classify_path env policy (ef_current_path f), ef_current f) of
        (Inr (Governed rule), Regular m) \<Rightarrow>
          (ef_baseline_path f \<noteq> None) = (ef_comparison f \<noteq> None) \<and>
          metrics_exercise rule (effective_waiver policy invalid rule (ef_current_path f)) m
      | _ \<Rightarrow> False)"

lemma classify_error: "classify_path env policy path = Inl d \<Longrightarrow> is_error d"
  by (auto simp: classify_path_def Let_def split: option.splits if_splits prod.splits list.splits)

lemma advances_id: "advances (\<lambda>st. st) [] False False False"
  by (simp add: advances_def bump_def)

lemma advances_push: "advances (push_diags ds) ds False False False"
  by (simp add: advances_def bump_def push_diags_def)

lemma advances_excluded: "advances (\<lambda>st. st\<lparr>ec_excluded := u64_sat_add (ec_excluded st) 1\<rparr>) [] False True False"
  by (simp add: advances_def bump_def)

lemma advances_evaluated:
  "advances f ds False False wv \<Longrightarrow>
     advances (\<lambda>st. f (st\<lparr>ec_evaluated := u64_sat_add (ec_evaluated st) 1\<rparr>)) ds True False wv"
  by (simp add: advances_def bump_def)

lemma evaluate_governed_advances:
  assumes "classify_path env policy (ef_current_path f) = Inr (Governed rule)" and "\<not> skipped files f"
  shows "\<exists>ds. advances (evaluate_file env policy invalid files f) ds True False
      (file_waived env policy invalid f) \<and> (has_error ds \<longleftrightarrow> file_fails env policy invalid f)"
proof (cases "ef_current f")
  case (Unsupported kind)
  let ?ds = "[unsupported_diagnostic (ef_current_path f) (r_id rule) kind]"
  have "evaluate_file env policy invalid files f =
      (\<lambda>st. push_diags ?ds (st\<lparr>ec_evaluated := u64_sat_add (ec_evaluated st) 1\<rparr>))"
    using assms Unsupported by (simp add: evaluate_file_def fun_eq_iff Let_def)
  moreover have "has_error ?ds" by (simp add: unsupported_diagnostic_def)
  moreover have "file_fails env policy invalid f" "\<not> file_waived env policy invalid f"
    using assms Unsupported by (auto simp: file_fails_def file_waived_def)
  ultimately show ?thesis
    using advances_evaluated [OF advances_push, of ?ds] by (intro exI [of _ ?ds]) simp
next
  case (Regular m)
  show ?thesis
  proof (cases "(ef_baseline_path f \<noteq> None) \<noteq> (ef_comparison f \<noteq> None)")
    case True
    let ?ds = "[for_rule (r_id rule) (at_path (ef_current_path f)
        (new_diagnostic Error BaselineUnavailable
          ''baseline path and comparison measurement must either both be supplied or both be absent''))]"
    have "evaluate_file env policy invalid files f =
        (\<lambda>st. push_diags ?ds (st\<lparr>ec_evaluated := u64_sat_add (ec_evaluated st) 1\<rparr>))"
      using assms Regular True by (simp add: evaluate_file_def fun_eq_iff Let_def)
    moreover have "has_error ?ds" by simp
    moreover have "file_fails env policy invalid f" "\<not> file_waived env policy invalid f"
      using assms Regular True by (auto simp: file_fails_def file_waived_def)
    ultimately show ?thesis
    using advances_evaluated [OF advances_push, of ?ds] by (intro exI [of _ ?ds]) simp
  next
    case False
    let ?w = "effective_waiver policy invalid rule (ef_current_path f)"
    obtain ds where ds: "advances (evaluate_regular f rule ?w m) ds False False (metrics_exercise rule ?w m)"
      "has_error ds \<longleftrightarrow> metrics_exceed f rule ?w m"
      using evaluate_regular_advances by blast
    have "evaluate_file env policy invalid files f =
        (\<lambda>st. evaluate_regular f rule ?w m (st\<lparr>ec_evaluated := u64_sat_add (ec_evaluated st) 1\<rparr>))"
      using assms Regular False by (simp add: evaluate_file_def fun_eq_iff Let_def)
    moreover have "file_fails env policy invalid f = has_error ds"
      "file_waived env policy invalid f = metrics_exercise rule ?w m"
      using assms Regular False ds(2) by (auto simp: file_fails_def file_waived_def)
    ultimately show ?thesis using advances_evaluated [OF ds(1)] by (intro exI [of _ ds]) simp
  qed
qed

lemma evaluate_file_advances:
  "\<exists>ds. advances (evaluate_file env policy invalid files f) ds
      (\<not> skipped files f \<and> is_governed env policy (ef_current_path f))
      (\<not> skipped files f \<and> is_excluded env policy (ef_current_path f))
      (\<not> skipped files f \<and> file_waived env policy invalid f) \<and>
    (has_error ds \<longleftrightarrow> \<not> skipped files f \<and> file_fails env policy invalid f)"
proof (cases "skipped files f")
  case True
  then have "evaluate_file env policy invalid files f = (\<lambda>st. st)"
    by (simp add: evaluate_file_def fun_eq_iff)
  with True advances_id show ?thesis by auto
next
  case ns: False
  show ?thesis
  proof (cases "classify_path env policy (ef_current_path f)")
    case (Inl d)
    then have "evaluate_file env policy invalid files f = push_diags [d]"
      using ns by (simp add: evaluate_file_def fun_eq_iff)
    with ns Inl advances_push [of "[d]"] classify_error [OF Inl] show ?thesis
      by (auto simp: is_governed_def is_excluded_def file_waived_def file_fails_def)
  next
    case (Inr disposition)
    show ?thesis
    proof (cases disposition)
      case Outside
      then have "evaluate_file env policy invalid files f = (\<lambda>st. st)"
        using ns Inr by (simp add: evaluate_file_def fun_eq_iff)
      with ns Inr Outside advances_id show ?thesis
        by (auto simp: is_governed_def is_excluded_def file_waived_def file_fails_def)
    next
      case (Excluded x)
      then have "evaluate_file env policy invalid files f =
          (\<lambda>st. st\<lparr>ec_excluded := u64_sat_add (ec_excluded st) 1\<rparr>)"
        using ns Inr by (simp add: evaluate_file_def fun_eq_iff)
      with ns Inr Excluded advances_excluded show ?thesis
        by (auto simp: is_governed_def is_excluded_def file_waived_def file_fails_def)
    next
      case LocallyExcluded
      then have "evaluate_file env policy invalid files f =
          (\<lambda>st. st\<lparr>ec_excluded := u64_sat_add (ec_excluded st) 1\<rparr>)"
        using ns Inr by (simp add: evaluate_file_def fun_eq_iff)
      with ns Inr LocallyExcluded advances_excluded show ?thesis
        by (auto simp: is_governed_def is_excluded_def file_waived_def file_fails_def)
    next
      case (Governed rule)
      with ns Inr evaluate_governed_advances [of env policy f rule files invalid] show ?thesis
        by (simp add: is_governed_def is_excluded_def)
    qed
  qed
qed

section \<open>All files\<close>

lemma fold_advances:
  assumes "\<And>f. f \<in> set fs \<Longrightarrow> advances (g f) (D f) (E f) (X f) (W f)"
  shows "fold g fs st = \<lparr>ec_diagnostics = ec_diagnostics st @ concat (map D fs),
     ec_evaluated = fold (\<lambda>f. bump (E f)) fs (ec_evaluated st),
     ec_excluded = fold (\<lambda>f. bump (X f)) fs (ec_excluded st),
     ec_waived = fold (\<lambda>f. bump (W f)) fs (ec_waived st)\<rparr>"
  using assms
proof (induction fs arbitrary: st)
  case (Cons f fs)
  from Cons.prems have "g f st = \<lparr>ec_diagnostics = ec_diagnostics st @ D f,
      ec_evaluated = bump (E f) (ec_evaluated st), ec_excluded = bump (X f) (ec_excluded st),
      ec_waived = bump (W f) (ec_waived st)\<rparr>"
    unfolding advances_def by simp
  with Cons show ?case by simp
qed simp

lemma unat_fold_bump:
  "unat (fold (\<lambda>f. bump (P f)) fs n) = min (unat n + length (filter P fs)) (2 ^ 64 - 1)"
proof (induction fs arbitrary: n)
  case Nil
  have "unat n < 2 ^ 64" by simp
  then have "unat n \<le> 2 ^ 64 - 1" by linarith
  then show ?case by simp
next
  case (Cons f fs)
  then show ?case by (auto simp: bump_def unat_sat_add)
qed

text \<open>The state the loop over the files starts from, and its result.\<close>

definition preliminary ::
  "budget_env \<Rightarrow> EvaluationInputV1 \<Rightarrow> string btree_set \<times> BudgetDiagnosticV1 list" where
  "preliminary env input =
     (let files = index_files (in_files input);
          exceeded = MAX_WAIVER_TARGET_FACTS_V1 < length (in_waiver_targets input);
          facts = (if exceeded then bt_empty else index_waiver_facts (in_waiver_targets input));
          (invalid, waiver_ds) = validate_current_waivers env input facts
      in (invalid,
          when_diag (in_comparison_policy input = Unavailable)
            (at_path POLICY_PATH (new_diagnostic Error BaselineUnavailable
              ''comparison-side policy authority is unavailable'')) @
          waiver_ds @ record_policy_changes input @
          (if exceeded then [] else record_removed_waiver_debt env input files facts) @
          duplicate_diagnostics files))"

abbreviation invalid_waivers :: "budget_env \<Rightarrow> EvaluationInputV1 \<Rightarrow> string btree_set" where
  "invalid_waivers env input \<equiv> fst (preliminary env input)"

lemma evaluate_v1_fold:
  "evaluate_v1 env input =
     (let st = fold (evaluate_file env (in_policy input) (invalid_waivers env input)
                 (index_files (in_files input))) (in_files input)
                 \<lparr>ec_diagnostics = snd (preliminary env input), ec_evaluated = 0, ec_excluded = 0, ec_waived = 0\<rparr>
      in \<lparr>be_diagnostics = sort_diagnostics (ec_diagnostics st), be_evaluated_files = ec_evaluated st,
          be_excluded_files = ec_excluded st, be_waived_files = ec_waived st\<rparr>)"
  by (simp add: evaluate_v1_def preliminary_def Let_def split_beta)

lemma evaluate_v1_result:
  fixes env input
  defines "files \<equiv> index_files (in_files input)" and "invalid \<equiv> invalid_waivers env input"
    and "policy \<equiv> in_policy input"
  shows "\<exists>ds. evaluate_v1 env input =
    \<lparr>be_diagnostics = sort_diagnostics (snd (preliminary env input) @ ds),
     be_evaluated_files = fold (\<lambda>f. bump (\<not> skipped files f \<and> is_governed env policy (ef_current_path f))) (in_files input) 0,
     be_excluded_files = fold (\<lambda>f. bump (\<not> skipped files f \<and> is_excluded env policy (ef_current_path f))) (in_files input) 0,
     be_waived_files = fold (\<lambda>f. bump (\<not> skipped files f \<and> file_waived env policy invalid f)) (in_files input) 0\<rparr> \<and>
    (has_error ds \<longleftrightarrow> (\<exists>f \<in> set (in_files input). \<not> skipped files f \<and> file_fails env policy invalid f))"
proof -
  obtain D where D: "\<And>f. advances (evaluate_file env policy invalid files f) (D f)
      (\<not> skipped files f \<and> is_governed env policy (ef_current_path f))
      (\<not> skipped files f \<and> is_excluded env policy (ef_current_path f))
      (\<not> skipped files f \<and> file_waived env policy invalid f) \<and>
    (has_error (D f) \<longleftrightarrow> \<not> skipped files f \<and> file_fails env policy invalid f)"
    using evaluate_file_advances [of env policy invalid files] by metis
  have "has_error (concat (map D (in_files input))) \<longleftrightarrow>
      (\<exists>f \<in> set (in_files input). \<not> skipped files f \<and> file_fails env policy invalid f)"
    using D by simp
  moreover note fold_advances [where g = "evaluate_file env policy invalid files" and D = D
      and fs = "in_files input", OF conjunct1 [OF D]]
  ultimately show ?thesis
    unfolding evaluate_v1_fold files_def [symmetric] invalid_def [symmetric] policy_def [symmetric]
    by (intro exI [of _ "concat (map D (in_files input))"]) (simp add: Let_def)
qed

lemma passed_split:
  "passed (evaluate_v1 env input) \<longleftrightarrow>
     \<not> has_error (snd (preliminary env input)) \<and>
     (\<forall>f \<in> set (in_files input). \<not> skipped (index_files (in_files input)) f \<longrightarrow>
        \<not> file_fails env (in_policy input) (invalid_waivers env input) f)"
proof -
  obtain ds where "be_diagnostics (evaluate_v1 env input) = sort_diagnostics (snd (preliminary env input) @ ds)"
    and "has_error ds \<longleftrightarrow> (\<exists>f \<in> set (in_files input). \<not> skipped (index_files (in_files input)) f \<and>
      file_fails env (in_policy input) (invalid_waivers env input) f)"
    using evaluate_v1_result [of env input] by (metis (no_types, lifting) BudgetEvaluationV1.select_convs(1))
  then show ?thesis by (auto simp: passed_def list_ex_iff)
qed

section \<open>When an evaluation passes\<close>

abbreviation claims :: "EvaluateFileV1 list \<Rightarrow> string list" where
  "claims files \<equiv> baseline_claims files"

lemma duplicate_diagnostics_error:
  "has_error (duplicate_diagnostics (index_files files)) \<longleftrightarrow>
     \<not> (distinct (map ef_current_path files) \<and> distinct (claims files))"
proof -
  have "has_error (duplicate_diagnostics ix) \<longleftrightarrow>
      fi_duplicate_paths ix \<noteq> [] \<or> fi_duplicate_baseline_paths ix \<noteq> []" for ix
    by (cases "fi_duplicate_paths ix"; cases "fi_duplicate_baseline_paths ix")
      (simp_all add: duplicate_diagnostics_def)
  then have "has_error (duplicate_diagnostics (index_files files)) \<longleftrightarrow>
      duplicates (count_keys (map ef_current_path files)) \<noteq> [] \<or>
      duplicates (count_keys (claims (filter
        (\<lambda>f. ef_current_path f \<notin> set (duplicates (count_keys (map ef_current_path files)))) files))) \<noteq> []"
    by (simp only: index_files_simps)
  then show ?thesis
    using duplicates_Nil_iff [of "map ef_current_path files"] duplicates_Nil_iff [of "claims files"]
    by (cases "distinct (map ef_current_path files)") simp_all
qed

lemma not_skipped:
  assumes "distinct (map ef_current_path files)" and "distinct (claims files)"
  shows "\<not> skipped (index_files files) f"
proof -
  have "fi_duplicate_paths (index_files files) = []"
    using assms(1) duplicates_Nil_iff by (simp only: index_files_simps)
  moreover from this have "fi_duplicate_baseline_paths (index_files files) = []"
    using assms duplicates_Nil_iff [of "claims files"] unfolding index_files_simps by simp
  ultimately show ?thesis by (simp add: is_skipped_def split: option.split)
qed

text \<open>The conditions on the facts that do not concern a single file.\<close>

definition facts_admissible :: "budget_env \<Rightarrow> EvaluationInputV1 \<Rightarrow> bool" where
  "facts_admissible env input \<longleftrightarrow>
     in_comparison_policy input \<noteq> Unavailable \<and>
     length (in_waiver_targets input) \<le> MAX_WAIVER_TARGET_FACTS_V1 \<and>
     (\<forall>w \<in> set (p_waivers (in_policy input)).
        current_waiver_error env input (index_waiver_facts (in_waiver_targets input)) w = None) \<and>
     (\<forall>target \<in> set (in_waiver_targets input). fact_path target \<in> set (known_waiver_paths input)) \<and>
     record_removed_waiver_debt env input (index_files (in_files input))
       (index_waiver_facts (in_waiver_targets input)) = [] \<and>
     distinct (map ef_current_path (in_files input)) \<and> distinct (claims (in_files input))"

lemma preliminary_error:
  "has_error (snd (preliminary env input)) \<longleftrightarrow> \<not> facts_admissible env input"
proof (cases "MAX_WAIVER_TARGET_FACTS_V1 < length (in_waiver_targets input)")
  case True
  then have "has_error (snd (validate_current_waivers env input bt_empty))"
    by (simp add: has_error_current_waivers)
  with True show ?thesis by (simp add: preliminary_def Let_def split_beta facts_admissible_def)
next
  case False
  then show ?thesis
    by (auto simp: preliminary_def Let_def split_beta facts_admissible_def has_error_current_waivers
        has_error_removed duplicate_diagnostics_error)
qed

lemma invalid_waivers_Nil:
  assumes "facts_admissible env input"
  shows "set (invalid_waivers env input) = {}"
proof -
  have "length (in_waiver_targets input) \<le> MAX_WAIVER_TARGET_FACTS_V1"
    using assms by (simp add: facts_admissible_def)
  from invalid_waivers_iff [OF this, of env "index_waiver_facts (in_waiver_targets input)"] assms this
  show ?thesis by (auto simp: preliminary_def Let_def split_beta facts_admissible_def not_less)
qed

lemma passed_iff:
  "passed (evaluate_v1 env input) \<longleftrightarrow>
     facts_admissible env input \<and>
     (\<forall>f \<in> set (in_files input). \<not> file_fails env (in_policy input) [] f)"
proof (cases "facts_admissible env input")
  case True
  then have ns: "\<not> skipped (index_files (in_files input)) f" for f
    by (intro not_skipped) (simp_all add: facts_admissible_def)
  from invalid_waivers_Nil [OF True] have "invalid_waivers env input = []" by simp
  with True show ?thesis by (simp add: passed_split preliminary_error ns)
next
  case False
  then show ?thesis by (simp add: passed_split preliminary_error)
qed

lemma evaluate_counts:
  defines "ix input \<equiv> index_files (in_files input)"
  shows "unat (be_evaluated_files (evaluate_v1 env input)) = min (2 ^ 64 - 1)
      (length (filter (\<lambda>f. \<not> skipped (ix input) f \<and> is_governed env (in_policy input) (ef_current_path f)) (in_files input)))"
    and "unat (be_excluded_files (evaluate_v1 env input)) = min (2 ^ 64 - 1)
      (length (filter (\<lambda>f. \<not> skipped (ix input) f \<and> is_excluded env (in_policy input) (ef_current_path f)) (in_files input)))"
    and "unat (be_waived_files (evaluate_v1 env input)) = min (2 ^ 64 - 1)
      (length (filter (\<lambda>f. \<not> skipped (ix input) f \<and>
         file_waived env (in_policy input) (invalid_waivers env input) f) (in_files input)))"
proof -
  obtain ds where "evaluate_v1 env input =
    \<lparr>be_diagnostics = ds,
     be_evaluated_files = fold (\<lambda>f. bump (\<not> skipped (ix input) f \<and>
       is_governed env (in_policy input) (ef_current_path f))) (in_files input) 0,
     be_excluded_files = fold (\<lambda>f. bump (\<not> skipped (ix input) f \<and>
       is_excluded env (in_policy input) (ef_current_path f))) (in_files input) 0,
     be_waived_files = fold (\<lambda>f. bump (\<not> skipped (ix input) f \<and>
       file_waived env (in_policy input) (invalid_waivers env input) f)) (in_files input) 0\<rparr>"
    using evaluate_v1_result [of env input] unfolding ix_def by blast
  then show "unat (be_evaluated_files (evaluate_v1 env input)) = min (2 ^ 64 - 1)
      (length (filter (\<lambda>f. \<not> skipped (ix input) f \<and> is_governed env (in_policy input) (ef_current_path f)) (in_files input)))"
    and "unat (be_excluded_files (evaluate_v1 env input)) = min (2 ^ 64 - 1)
      (length (filter (\<lambda>f. \<not> skipped (ix input) f \<and> is_excluded env (in_policy input) (ef_current_path f)) (in_files input)))"
    and "unat (be_waived_files (evaluate_v1 env input)) = min (2 ^ 64 - 1)
      (length (filter (\<lambda>f. \<not> skipped (ix input) f \<and>
         file_waived env (in_policy input) (invalid_waivers env input) f) (in_files input)))"
    by (simp_all add: unat_fold_bump min.commute)
qed

lemma file_waived_governed:
  "file_waived env policy invalid f \<Longrightarrow> is_governed env policy (ef_current_path f)"
  by (auto simp: file_waived_def is_governed_def split: sum.splits PathDispositionV1.splits)

lemma governed_not_excluded:
  "is_governed env policy path \<Longrightarrow> \<not> is_excluded env policy path"
  by (auto simp: is_excluded_def is_governed_def split: sum.splits PathDispositionV1.splits)

lemma filter_disjoint_length:
  "(\<And>x. P x \<Longrightarrow> \<not> Q x) \<Longrightarrow> length (filter P xs) + length (filter Q xs) \<le> length xs"
  by (induction xs) (auto simp: le_SucI)

lemma filter_mono_length: "(\<And>x. P x \<Longrightarrow> Q x) \<Longrightarrow> length (filter P xs) \<le> length (filter Q xs)"
  by (induction xs) auto

section \<open>Debt left by a removed waiver\<close>

lemma set_bt_values_insert: "bt_wf m \<Longrightarrow> v \<in> set (bt_values (bt_insert k v m))"
  by (induction m) (auto simp: bt_values_def bt_wf_def)

lemma bt_values_get: "bt_wf m \<Longrightarrow> bt_get m k = Some v \<Longrightarrow> v \<in> set (bt_values m)"
  unfolding bt.entries_get [symmetric] by (force simp: bt_values_def)

lemma affected_wf: "bt_wf (affected_files ix h)"
proof -
  have fold: "bt_wf m \<Longrightarrow> bt_wf (fold (\<lambda>f. bt_insert (ef_current_path f) f) fs m)" for fs m
    by (induction fs arbitrary: m) auto
  show ?thesis by (auto simp: affected_files_def Let_def intro!: fold split: option.splits)
qed

lemma affected_member:
  assumes "f \<in> set (indexed files)"
    and "ef_current_path f = w_path h \<or> ef_baseline_path f = Some (w_path h)"
  shows "\<exists>g \<in> set (bt_values (affected_files (index_files files) h)).
    g \<in> set (indexed files) \<and> ef_current_path g = ef_current_path f"
proof -
  let ?ix = "index_files files"
  define base where "base = (case bt_get (fi_by_current ?ix) (w_path h) of
      None \<Rightarrow> bt_empty | Some g \<Rightarrow> bt_insert (ef_current_path g) g bt_empty)"
  have wf: "bt_wf base" by (auto simp: base_def split: option.split)
  have aff: "affected_files ?ix h = (case bt_get (fi_by_baseline ?ix) (w_path h) of
      None \<Rightarrow> base | Some gs \<Rightarrow> fold (\<lambda>g. bt_insert (ef_current_path g) g) gs base)"
    unfolding affected_files_def base_def Let_def ..
  have get: "\<exists>g. bt_get (affected_files ?ix h) (ef_current_path f) = Some g \<and>
      g \<in> set (indexed files) \<and> ef_current_path g = ef_current_path f"
  proof (cases "bt_get (fi_by_baseline ?ix) (w_path h)")
    case None
    then have "ef_current_path f = w_path h"
      using assms by_baseline_iff [of files "w_path h" "[f]"] by auto
    then have "bt_get (fi_by_current ?ix) (w_path h) = Some f"
      using assms(1) by (simp add: by_current_iff)
    with None assms(1) \<open>ef_current_path f = w_path h\<close> show ?thesis
      by (simp add: aff base_def bt.get_put)
  next
    case (Some gs)
    then obtain g where g: "gs = [g]" "g \<in> set (indexed files)" "ef_baseline_path g = Some (w_path h)"
      by (auto simp: by_baseline_iff)
    have lookup: "bt_get (affected_files ?ix h) p =
        (if p = ef_current_path g then Some g else bt_get base p)" for p
      using Some g(1) wf by (simp add: aff bt.get_put)
    show ?thesis
    proof (cases "ef_current_path f = ef_current_path g")
      case True
      with g lookup show ?thesis by auto
    next
      case False
      have "ef_baseline_path f \<noteq> Some (w_path h)"
      proof
        assume "ef_baseline_path f = Some (w_path h)"
        with assms(1) have "bt_get (fi_by_baseline ?ix) (w_path h) = Some [f]" by (simp add: by_baseline_iff)
        with Some g(1) False show False by simp
      qed
      with assms(2) have p: "ef_current_path f = w_path h" by simp
      with assms(1) have "bt_get (fi_by_current ?ix) (w_path h) = Some f" by (simp add: by_current_iff)
      with p assms(1) False show ?thesis by (auto simp: lookup base_def bt.get_put)
    qed
  qed
  then obtain g where "bt_get (affected_files ?ix h) (ef_current_path f) = Some g"
    "g \<in> set (indexed files)" "ef_current_path g = ef_current_path f" by blast
  with bt_values_get [OF affected_wf] show ?thesis by blast
qed

lemma removed_debt_found:
  assumes "removed_ceiling input ix h w_ceiling_lines \<or> removed_ceiling input ix h w_ceiling_bytes"
    and "f \<in> set (bt_values (affected_files ix h))" and "ef_current f = Regular m"
    and "classify_path env (in_policy input) (ef_current_path f) = Inr (Governed rule)"
    and "removed_ceiling input ix h w_ceiling_lines \<and> r_max_lines rule = Some limit \<and> limit < m_lines m \<or>
         removed_ceiling input ix h w_ceiling_bytes \<and> r_max_bytes rule = Some limit \<and> limit < m_bytes m"
  shows "removed_waiver_debt env input ix facts h \<noteq> []"
proof -
  let ?rl = "removed_ceiling input ix h w_ceiling_lines"
  let ?rb = "removed_ceiling input ix h w_ceiling_bytes"
  have "removed_file_debt env input h ?rl ?rb f \<noteq> []"
    using assms(3-5) by (auto simp: removed_file_debt_def removed_metric_debt_def)
  moreover have "list_ex (\<lambda>f. is_governed env (in_policy input) (ef_current_path f)) (bt_values (affected_files ix h))"
    using assms(2,4) unfolding list_ex_iff is_governed_def by force
  ultimately show ?thesis
    using assms(1,2) by (auto simp: removed_waiver_debt_def Let_def)
qed
section \<open>Properties\<close>

text \<open>
  C11. The verdict on one metric. The evaluation of a metric reports an error exactly when a
  maximum is set and the measurement is above the waiver's ceiling, or, with no ceiling,
  above the maximum and not covered by an equal or larger comparison measurement; and it
  marks the waiver as exercised exactly when the measurement is above the maximum and
  within the ceiling. The saturating subtractions on \<open>u64\<close> never hide a debt.
\<close>

theorem metric_verdict:
  "(has_error (fst (evaluate_metric file rule waiver metric current comparison notice warning maximum
      ceiling exercised)) \<longleftrightarrow>
     (\<exists>limit. maximum = Some limit \<and>
        (case ceiling of
           Some c \<Rightarrow> unat c < unat current
         | None \<Rightarrow> unat limit < unat current \<and>
             (case comparison of None \<Rightarrow> True | Some b \<Rightarrow> unat b < unat current)))) \<and>
   (snd (evaluate_metric file rule waiver metric current comparison notice warning maximum
      ceiling exercised) \<longleftrightarrow>
     exercised \<or> (\<exists>limit c. maximum = Some limit \<and> ceiling = Some c \<and>
        unat limit < unat current \<and> unat current \<le> unat c))"
proof -
  have "exceeds current comparison maximum ceiling \<longleftrightarrow>
     (\<exists>limit. maximum = Some limit \<and>
        (case ceiling of
           Some c \<Rightarrow> unat c < unat current
         | None \<Rightarrow> unat limit < unat current \<and>
             (case comparison of None \<Rightarrow> True | Some b \<Rightarrow> unat b < unat current)))"
    by (simp add: exceeds_def word_less_nat_alt split: option.split)
  moreover have "exercises current maximum ceiling \<longleftrightarrow>
      (\<exists>limit c. maximum = Some limit \<and> ceiling = Some c \<and>
        unat limit < unat current \<and> unat current \<le> unat c)"
    by (simp add: exercises_def word_less_nat_alt word_le_nat_alt split: option.split)
  ultimately show ?thesis by (simp only: evaluate_metric_error evaluate_metric_exercised)
qed

text \<open>
  C10. When an evaluation passes. The evaluation has no error exactly when the comparison
  policy is available, the waiver-target facts are within their limit and all correspond
  to a waiver, every current waiver is unexpired with one regular governed target, no
  removed waiver leaves a debt, no path and no comparison path is claimed twice, and no
  file fails: each governed file is regular, has a consistent baseline and exceeds neither
  metric under its waiver.
\<close>

theorem evaluation_passes_iff:
  "passed (evaluate_v1 env input) \<longleftrightarrow>
     facts_admissible env input \<and>
     list_all (\<lambda>f. \<not> file_fails env (in_policy input) [] f) (in_files input)"
  by (simp only: passed_iff list_all_iff)

definition sample_file :: "u64 \<Rightarrow> u64 option \<Rightarrow> EvaluateFileV1" where
  "sample_file lines comparison =
     \<lparr>ef_current_path = ''src/big'',
      ef_baseline_path = map_option (\<lambda>_. ''src/big'') comparison,
      ef_current = Regular \<lparr>m_lines = lines, m_bytes = 10\<rparr>,
      ef_comparison = map_option (\<lambda>l. \<lparr>m_lines = l, m_bytes = 10\<rparr>) comparison\<rparr>"

definition sample_built :: PolicyV1 where
  "sample_built = built_policy sample_env sample_dto (sha256_hex sample_env []) [sample_waiver]"

definition sample_input :: "EvaluateFileV1 list \<Rightarrow> ComparisonPolicyV1 \<Rightarrow> EvaluationInputV1" where
  "sample_input files comparison_policy =
     \<lparr>in_policy = sample_built, in_comparison_policy = comparison_policy,
      in_current_date = \<lparr>date_year = 2026, date_month = 12, date_day = 31\<rparr>,
      in_waiver_targets = [\<lparr>fact_path = ''src/big'', fact_state = RegularPath\<rparr>],
      in_files = files\<rparr>"

lemma sample_built_simps [simp]:
  "p_rules sample_built = [sample_rule]" "p_exclusions sample_built = [sample_exclusion]"
  "p_waivers sample_built = [sample_waiver]"
  by (simp_all add: sample_built_def sample_dto_def)

lemma sample_built_classify:
  "classify_path sample_env sample_built ''src/big'' = Inr (Governed sample_rule)"
proof -
  have "candidate_path ''src/big''" by code_simp
  then show ?thesis
    unfolding sample_built_def classify_governed [OF glob_laws_literal matchers_ok_built]
    by (simp add: sample_dto_def excluded_by_def sample_exclusion_def governs_def sample_rule_def
        literal_match_def)
qed

lemma sample_waiver_for: "waiver_for sample_built ''src'' ''src/big'' = Some sample_waiver"
  unfolding sample_built_def
  by (subst built_policy_lookup(2) [OF sample_authority_ok]) (simp add: sample_waiver_def)

lemma sample_admissible:
  assumes "length files \<le> 1"
  shows "facts_admissible sample_env (sample_input files Absent)"
proof -
  let ?input = "sample_input files Absent"
  have "bt_get (index_waiver_facts (in_waiver_targets ?input)) ''src/big'' =
      Some [\<lparr>fact_path = ''src/big'', fact_state = RegularPath\<rparr>]"
    by (simp add: bt_get_index_facts sample_input_def)
  then have "current_waiver_error sample_env ?input (index_waiver_facts (in_waiver_targets ?input)) sample_waiver = None"
    using sample_built_classify
    by (simp add: current_waiver_error_def sample_input_def sample_waiver_def date_less_def date_key_def
        sample_rule_def)
  moreover have "distinct (claims files)"
    using assms unfolding length_le_one by (auto simp: baseline_claims_def split: option.split)
  moreover have "''src/big'' \<in> set (known_waiver_paths ?input)"
    by (simp add: known_waiver_paths_def sample_input_def sample_waiver_def)
  ultimately show ?thesis
    using assms unfolding length_le_one by (auto simp: facts_admissible_def sample_input_def record_removed_waiver_debt_def
        MAX_WAIVER_TARGET_FACTS_V1_def MAX_WAIVERS_V1_def)
qed

text \<open>
  A history of a file: a sequence of evaluations that pass, each with a fact of the file,
  which a rule governs and which is compared with the measurement of the step before. The
  policy, the path, the rule and the waivers may change from step to step.
\<close>

fun passing_history :: "budget_env \<Rightarrow> MeasurementV1 \<Rightarrow> (EvaluationInputV1 \<times> EvaluateFileV1) list \<Rightarrow> bool" where
  "passing_history env previous [] \<longleftrightarrow> True"
| "passing_history env previous ((input, f) # history) \<longleftrightarrow>
     passed (evaluate_v1 env input) \<and> f \<in> set (in_files input) \<and>
     is_governed env (in_policy input) (ef_current_path f) \<and> ef_comparison f = Some previous \<and>
     (case ef_current f of Regular m \<Rightarrow> passing_history env m history | Unsupported _ \<Rightarrow> False)"

primrec metric_of :: "BudgetMetricV1 \<Rightarrow> MeasurementV1 \<Rightarrow> u64" where
  "metric_of Lines m = m_lines m"
| "metric_of Bytes m = m_bytes m"

primrec rule_maximum :: "BudgetMetricV1 \<Rightarrow> RuleV1 \<Rightarrow> u64 option" where
  "rule_maximum Lines rule = r_max_lines rule"
| "rule_maximum Bytes rule = r_max_bytes rule"

primrec waiver_ceiling :: "BudgetMetricV1 \<Rightarrow> WaiverV1 \<Rightarrow> u64 option" where
  "waiver_ceiling Lines w = w_ceiling_lines w"
| "waiver_ceiling Bytes w = w_ceiling_bytes w"

text \<open>
  The limit of a governed file: the ceiling of its waiver, or without one the maximum of
  its rule; none when the rule has no maximum.
\<close>

definition limit_in_force :: "budget_env \<Rightarrow> BudgetMetricV1 \<Rightarrow> PolicyV1 \<Rightarrow> string \<Rightarrow> u64 option" where
  "limit_in_force env metric policy path =
     (case classify_path env policy path of
        Inr (Governed rule) \<Rightarrow>
          (case rule_maximum metric rule of
             None \<Rightarrow> None
           | Some limit \<Rightarrow>
               (case Option.bind (waiver_for policy (r_id rule) path) (waiver_ceiling metric) of
                  None \<Rightarrow> Some limit
                | Some ceiling \<Rightarrow> Some ceiling))
      | _ \<Rightarrow> None)"

lemma metrics_exceed_iff:
  "metrics_exceed file rule waiver m \<longleftrightarrow>
     (\<exists>metric. exceeds (metric_of metric m) (map_option (metric_of metric) (ef_comparison file))
        (rule_maximum metric rule) (Option.bind waiver (waiver_ceiling metric)))"
proof -
  have names: "metric_of Lines = m_lines" "metric_of Bytes = m_bytes"
    "waiver_ceiling Lines = w_ceiling_lines" "waiver_ceiling Bytes = w_ceiling_bytes" by (simp_all add: fun_eq_iff)
  have "(\<exists>metric. P metric) \<longleftrightarrow> P Lines \<or> P Bytes" for P by (metis BudgetMetricV1.exhaust)
  then show ?thesis by (simp only: metrics_exceed_def names rule_maximum.simps)
qed

lemma passing_step:
  assumes "passed (evaluate_v1 env input)" "f \<in> set (in_files input)" "ef_comparison f = Some previous"
    "ef_current f = Regular m" "limit_in_force env metric (in_policy input) (ef_current_path f) = Some limit"
  shows "metric_of metric m \<le> limit \<or> metric_of metric m \<le> metric_of metric previous"
proof -
  from assms(5) obtain rule maximum where rule: "classify_path env (in_policy input) (ef_current_path f) = Inr (Governed rule)"
    "rule_maximum metric rule = Some maximum"
    "limit = (case Option.bind (waiver_for (in_policy input) (r_id rule) (ef_current_path f)) (waiver_ceiling metric) of
       None \<Rightarrow> maximum | Some ceiling \<Rightarrow> ceiling)"
    by (auto simp: limit_in_force_def split: sum.splits PathDispositionV1.splits option.splits)
  have "\<not> file_fails env (in_policy input) [] f" using assms(1,2) by (simp add: passed_iff)
  then have "\<not> metrics_exceed f rule (effective_waiver (in_policy input) [] rule (ef_current_path f)) m"
    using rule(1) assms(4) by (simp add: file_fails_def)
  moreover have "effective_waiver (in_policy input) [] rule (ef_current_path f) =
      waiver_for (in_policy input) (r_id rule) (ef_current_path f)"
    by (simp add: effective_waiver_def split: option.split)
  ultimately have "\<not> exceeds (metric_of metric m) (Some (metric_of metric previous)) (Some maximum)
      (Option.bind (waiver_for (in_policy input) (r_id rule) (ef_current_path f)) (waiver_ceiling metric))"
    unfolding metrics_exceed_iff using rule(2) assms(3) by (metis option.map(2))
  then show ?thesis unfolding rule(3) by (auto simp: exceeds_def not_less split: option.splits)
qed

text \<open>
  C12. The ratchet. Along every sequence of passing evaluations in which a governed file is
  each time compared with its measurement of the step before, neither metric exceeds the
  larger of its first measurement and a bound on the limits in force, where the limit of a
  step is the ceiling of the file's waiver for the metric, or the maximum of the rule if the
  file has no such waiver; and a step above its own limit is no larger than the step before.
  So debt never grows, and only a waiver or a rule with a higher limit can raise the bound.
\<close>

theorem debt_never_grows:
  assumes "passing_history env first history"
    and "list_all (\<lambda>(input, f). case limit_in_force env metric (in_policy input) (ef_current_path f) of
      None \<Rightarrow> False | Some limit \<Rightarrow> unat limit \<le> bound) history"
  shows "list_all (\<lambda>(input, f). \<exists>m previous limit. ef_current f = Regular m \<and> ef_comparison f = Some previous \<and>
      limit_in_force env metric (in_policy input) (ef_current_path f) = Some limit \<and>
      unat (metric_of metric m) \<le> max bound (unat (metric_of metric first)) \<and>
      (limit < metric_of metric m \<longrightarrow> metric_of metric m \<le> metric_of metric previous)) history"
  using assms
proof (induction env first history rule: passing_history.induct)
  case (2 env previous input f history)
  from 2(2) obtain m where step: "passed (evaluate_v1 env input)" "f \<in> set (in_files input)"
    "ef_comparison f = Some previous" "ef_current f = Regular m" "passing_history env m history"
    by (auto split: CurrentFileStateV1.splits)
  from 2(3) obtain limit where limit: "limit_in_force env metric (in_policy input) (ef_current_path f) = Some limit"
    "unat limit \<le> bound" by (auto split: option.splits)
  note le = passing_step [OF step(1-4) limit(1)]
  then have bounded: "unat (metric_of metric m) \<le> max bound (unat (metric_of metric previous))"
    using limit(2) by (auto simp: word_le_nat_alt)
  have "list_all (\<lambda>(input, f). \<exists>m' previous limit. ef_current f = Regular m' \<and> ef_comparison f = Some previous \<and>
      limit_in_force env metric (in_policy input) (ef_current_path f) = Some limit \<and>
      unat (metric_of metric m') \<le> max bound (unat (metric_of metric m)) \<and>
      (limit < metric_of metric m' \<longrightarrow> metric_of metric m' \<le> metric_of metric previous)) history"
    using 2(1) [OF step(4,5)] 2(3) by simp
  then have "list_all (\<lambda>(input, f). \<exists>m' previous' limit. ef_current f = Regular m' \<and> ef_comparison f = Some previous' \<and>
      limit_in_force env metric (in_policy input) (ef_current_path f) = Some limit \<and>
      unat (metric_of metric m') \<le> max bound (unat (metric_of metric previous)) \<and>
      (limit < metric_of metric m' \<longrightarrow> metric_of metric m' \<le> metric_of metric previous')) history"
    using bounded by (elim list.pred_mono_strong) (auto intro: order_trans)
  then show ?case using step limit(1) le bounded by (auto simp: not_le)
qed simp

text \<open>A file without a waiver, above the maximum of its rule.\<close>

definition sample_debt_file :: "u64 \<Rightarrow> u64 \<Rightarrow> EvaluateFileV1" where
  "sample_debt_file lines previous =
     (sample_file lines (Some previous)) \<lparr>ef_current_path := ''src/old'', ef_baseline_path := Some ''src/old''\<rparr>"

lemma sample_debt_step:
  assumes "lines \<le> previous"
  shows "passed (evaluate_v1 sample_env (sample_input [sample_debt_file lines previous] Absent))"
    "limit_in_force sample_env Lines sample_built ''src/old'' = Some 100"
    "is_governed sample_env sample_built ''src/old''"
proof -
  have "candidate_path ''src/old''" by code_simp
  then have governed: "classify_path sample_env sample_built ''src/old'' = Inr (Governed sample_rule)"
    unfolding sample_built_def classify_governed [OF glob_laws_literal matchers_ok_built]
    by (simp add: sample_dto_def excluded_by_def sample_exclusion_def governs_def sample_rule_def literal_match_def)
  have unwaived: "waiver_for sample_built ''src'' ''src/old'' = None"
    unfolding sample_built_def
    by (subst built_policy_lookup(2) [OF sample_authority_ok]) (simp add: sample_waiver_def)
  have "\<not> file_fails sample_env sample_built [] (sample_debt_file lines previous)"
    using assms unwaived governed
    by (simp add: file_fails_def sample_debt_file_def sample_file_def metrics_exceed_def exceeds_def effective_waiver_def
        sample_rule_def not_less)
  then show "passed (evaluate_v1 sample_env (sample_input [sample_debt_file lines previous] Absent))"
    using sample_admissible [of "[sample_debt_file lines previous]"] by (simp add: passed_iff sample_input_def)
  show "limit_in_force sample_env Lines sample_built ''src/old'' = Some 100"
    using governed unwaived by (simp add: limit_in_force_def sample_rule_def)
  show "is_governed sample_env sample_built ''src/old''" using governed by (simp add: is_governed_def)
qed

theorem debt_never_grows_witness:
  "let step = \<lambda>lines previous. (sample_input [sample_debt_file lines previous] Absent, sample_debt_file lines previous);
       history = [step 120 130, step 115 120]
   in passing_history sample_env \<lparr>m_lines = 130, m_bytes = 10\<rparr> history \<and>
      list_all (\<lambda>(input, f). \<exists>m. ef_current f = Regular m \<and> unat (m_lines m) \<le> 130) history"
proof -
  define step where "step lines previous =
    (sample_input [sample_debt_file lines previous] Absent, sample_debt_file lines previous)" for lines previous :: u64
  have facts: "ef_current_path (sample_debt_file l p) = ''src/old''" "ef_comparison (sample_debt_file l p) = Some \<lparr>m_lines = p, m_bytes = 10\<rparr>"
    "ef_current (sample_debt_file l p) = Regular \<lparr>m_lines = l, m_bytes = 10\<rparr>"
    "in_policy (sample_input fs Absent) = sample_built" "in_files (sample_input fs Absent) = fs" for l p fs
    by (simp_all add: sample_debt_file_def sample_file_def sample_input_def)
  have "passing_history sample_env \<lparr>m_lines = 130, m_bytes = 10\<rparr> [step 120 130, step 115 120]"
    using sample_debt_step [of 120 130] sample_debt_step [of 115 120] by (simp add: step_def facts)
  moreover have "list_all (\<lambda>(input, f). case limit_in_force sample_env Lines (in_policy input) (ef_current_path f) of
      None \<Rightarrow> False | Some limit \<Rightarrow> unat limit \<le> 100) [step 120 130, step 115 120]"
    using sample_debt_step(2) [OF order_refl] by (simp add: step_def facts)
  ultimately have "list_all (\<lambda>(input, f). \<exists>m. ef_current f = Regular m \<and> unat (m_lines m) \<le> 130) [step 120 130, step 115 120]"
    using debt_never_grows [where env = sample_env and first = "\<lparr>m_lines = 130, m_bytes = 10\<rparr>" and history = "[step 120 130, step 115 120]"
        and metric = Lines and bound = 100]
    by (simp add: step_def facts)
  then show ?thesis
    using \<open>passing_history sample_env \<lparr>m_lines = 130, m_bytes = 10\<rparr> [step 120 130, step 115 120]\<close>
    unfolding Let_def step_def by blast
qed

text \<open>
  C14. The counters. Without reaching the width of the counters, the evaluated files are those
  governed by a rule, the excluded files those an exclusion takes out; no file is counted
  in both, at most the evaluated files are waived, and saturation never makes the counts
  exceed the number of files.
\<close>

theorem evaluation_counts:
  "unat (be_waived_files (evaluate_v1 env input)) \<le> unat (be_evaluated_files (evaluate_v1 env input)) \<and>
   unat (be_evaluated_files (evaluate_v1 env input)) + unat (be_excluded_files (evaluate_v1 env input))
     \<le> length (in_files input) \<and>
   unat (be_evaluated_files (evaluate_v1 env input)) = min (2 ^ 64 - 1)
     (length (filter (\<lambda>f. is_governed env (in_policy input) (ef_current_path f))
       (indexed (in_files input)))) \<and>
   unat (be_excluded_files (evaluate_v1 env input)) = min (2 ^ 64 - 1)
     (length (filter (\<lambda>f. is_excluded env (in_policy input) (ef_current_path f))
       (indexed (in_files input))))"
proof -
  let ?ns = "\<lambda>f. \<not> skipped (index_files (in_files input)) f"
  let ?G = "\<lambda>f. ?ns f \<and> is_governed env (in_policy input) (ef_current_path f)"
  let ?X = "\<lambda>f. ?ns f \<and> is_excluded env (in_policy input) (ef_current_path f)"
  let ?W = "\<lambda>f. ?ns f \<and> file_waived env (in_policy input) (invalid_waivers env input) f"
  have "length (filter ?W (in_files input)) \<le> length (filter ?G (in_files input))"
    by (rule filter_mono_length) (auto dest: file_waived_governed)
  moreover have "length (filter ?G (in_files input)) + length (filter ?X (in_files input)) \<le> length (in_files input)"
    by (rule filter_disjoint_length) (auto dest: governed_not_excluded)
  moreover have "filter (\<lambda>f. P (ef_current_path f)) (indexed (in_files input)) =
      filter (\<lambda>f. ?ns f \<and> P (ef_current_path f)) (in_files input)" for P
    by (auto simp: indexed_eq filter_filter intro!: filter_cong)
  ultimately show ?thesis
    unfolding evaluate_counts by (simp only:) linarith
qed

text \<open>
  C13. A removed waiver cannot hide a debt. When a waiver of the comparison policy is gone from
  the current policy, and the file at its path, or the file renamed from it, is regular,
  governed and above a maximum the waiver covered, then the evaluation does not pass,
  whatever the comparison measurement says.
\<close>

theorem removed_waiver_debt_blocks:
  assumes "in_comparison_policy input = Present comparison_policy"
    and "h \<in> set (p_waivers comparison_policy)"
    and "waiver_by_id (in_policy input) (w_id h) = None"
    and "f \<in> set (in_files input)"
    and "ef_current_path f = w_path h \<or> ef_baseline_path f = Some (w_path h)"
    and "ef_current f = Regular m"
    and "classify_path env (in_policy input) (ef_current_path f) = Inr (Governed rule)"
    and "w_ceiling_lines h \<noteq> None \<and> r_max_lines rule = Some limit \<and> limit < m_lines m \<or>
         w_ceiling_bytes h \<noteq> None \<and> r_max_bytes rule = Some limit \<and> limit < m_bytes m"
  shows "\<not> passed (evaluate_v1 env input)"
proof
  assume "passed (evaluate_v1 env input)"
  then have adm: "facts_admissible env input" by (simp add: passed_iff)
  let ?ix = "index_files (in_files input)"
  let ?facts = "index_waiver_facts (in_waiver_targets input)"
  have dist: "distinct (map ef_current_path (in_files input))" "distinct (claims (in_files input))"
    using adm by (simp_all add: facts_admissible_def)
  have f: "f \<in> set (indexed (in_files input))" using assms(4) not_skipped [OF dist] by (simp add: indexed_eq)
  then obtain g where g: "g \<in> set (bt_values (affected_files ?ix h))" "g \<in> set (indexed (in_files input))"
    "ef_current_path g = ef_current_path f"
    using affected_member [OF f assms(5)] by blast
  have "g = f"
    using g(2,3) f by_current_iff [of "in_files input" "ef_current_path f"] by (metis option.inject)
  have rm: "removed_ceiling input ?ix h c \<longleftrightarrow> c h \<noteq> None" for c
    using assms(3) by (simp add: removed_ceiling_def target_continues_def)
  have "removed_waiver_debt env input ?ix ?facts h \<noteq> []"
    using g(1) assms(6-8) unfolding \<open>g = f\<close> by (intro removed_debt_found [of input ?ix h f]) (auto simp: rm)
  with assms(1,2) have "record_removed_waiver_debt env input ?ix ?facts \<noteq> []"
    by (auto simp: record_removed_waiver_debt_def)
  with adm show False by (simp add: facts_admissible_def)
qed

theorem removed_waiver_debt_blocks_witness:
  "\<not> passed (evaluate_v1 sample_env (sample_input [sample_file 120 (Some 130)]
     (Present (sample_built\<lparr>p_waivers := [sample_waiver\<lparr>w_id := ''old''\<rparr>]\<rparr>))))"
proof (rule removed_waiver_debt_blocks [where h = "sample_waiver\<lparr>w_id := ''old''\<rparr>"
      and f = "sample_file 120 (Some 130)" and m = "\<lparr>m_lines = 120, m_bytes = 10\<rparr>"
      and rule = sample_rule and limit = 100
      and comparison_policy = "sample_built\<lparr>p_waivers := [sample_waiver\<lparr>w_id := ''old''\<rparr>]\<rparr>"])
  show "waiver_by_id (in_policy (sample_input [sample_file 120 (Some 130)]
     (Present (sample_built\<lparr>p_waivers := [sample_waiver\<lparr>w_id := ''old''\<rparr>]\<rparr>))))
     (w_id (sample_waiver\<lparr>w_id := ''old''\<rparr>)) = None"
    unfolding sample_input_def sample_built_def
    by (simp add: built_policy_lookup(1) [OF sample_authority_ok]) (simp add: sample_waiver_def)
  show "w_ceiling_lines (sample_waiver\<lparr>w_id := ''old''\<rparr>) \<noteq> None \<and>
      r_max_lines sample_rule = Some 100 \<and> 100 < m_lines \<lparr>m_lines = 120, m_bytes = 10\<rparr> \<or>
      w_ceiling_bytes (sample_waiver\<lparr>w_id := ''old''\<rparr>) \<noteq> None \<and>
      r_max_bytes sample_rule = Some 100 \<and> 100 < m_bytes \<lparr>m_lines = 120, m_bytes = 10\<rparr>"
    by (simp add: sample_waiver_def sample_rule_def)
qed (simp_all add: sample_input_def sample_file_def sample_built_classify sample_waiver_def)

text \<open>
  C15. The order of the diagnostics. The diagnostics of an evaluation are in the canonical
  order, so errors come first: the evaluation passes exactly when the first diagnostic, if
  there is one, is not an error.
\<close>

theorem evaluation_errors_first:
  "sorted_wrt compare_diagnostic (be_diagnostics (evaluate_v1 env input)) \<and>
   (passed (evaluate_v1 env input) \<longleftrightarrow>
      \<not> (be_diagnostics (evaluate_v1 env input) \<noteq> [] \<and> is_error (hd (be_diagnostics (evaluate_v1 env input)))))"
proof -
  obtain ds where ds: "be_diagnostics (evaluate_v1 env input) = sort_diagnostics ds"
    using evaluate_v1_fold [of env input] by (simp add: Let_def)
  then have sorted: "sorted_wrt compare_diagnostic (be_diagnostics (evaluate_v1 env input))"
    by (simp add: sorted_sort_diagnostics)
  moreover have "has_error xs \<longleftrightarrow> xs \<noteq> [] \<and> is_error (hd xs)"
    if "sorted_wrt compare_diagnostic xs" for xs
    using that by (cases xs) (auto simp: list_ex_iff dest: no_error_after)
  ultimately show ?thesis by (auto simp: passed_def)
qed

text \<open>
  C16. The indexes of the file facts. Counted over the facts: a current path is a duplicate
  when at least two facts have it, and a comparison path when at least two facts whose own
  current path is no duplicate claim it. A path is found in the index of current paths
  exactly with the one fact that has it, and in the index of comparison paths exactly with
  the one fact that claims it, provided the fact has neither a duplicate path nor a
  duplicate claim; every fact that is free of both is found, so nothing else is dropped.
\<close>

theorem index_files_spec:
  "set (fi_duplicate_paths (index_files files)) = {p. 2 \<le> length (filter (\<lambda>g. ef_current_path g = p) files)} \<and>
   set (fi_duplicate_baseline_paths (index_files files)) =
     {p. 2 \<le> length (filter (\<lambda>g. unique_current files g \<and> ef_baseline_path g = Some p) files)} \<and>
   (bt_get (fi_by_current (index_files files)) p = Some f \<longleftrightarrow>
      f \<in> set files \<and> ef_current_path f = p \<and> unique_current files f \<and> unique_claim files f) \<and>
   (bt_get (fi_by_baseline (index_files files)) p = Some fs \<longleftrightarrow>
      (\<exists>g. fs = [g] \<and> g \<in> set files \<and> ef_baseline_path g = Some p \<and> unique_current files g \<and> unique_claim files g))"
proof (intro conjI)
  show "set (fi_duplicate_paths (index_files files)) = {p. 2 \<le> length (filter (\<lambda>g. ef_current_path g = p) files)}"
    unfolding index_files_duplicates(1) using duplicate_current_iff by blast
  show "set (fi_duplicate_baseline_paths (index_files files)) =
     {p. 2 \<le> length (filter (\<lambda>g. unique_current files g \<and> ef_baseline_path g = Some p) files)}"
    using duplicate_claim_iff by blast
qed (auto simp: by_current_iff by_baseline_iff indexed_def)

end
