(* ===== verification/Contract.thy ===== *)
theory Contract
  imports Ordered_Map "HOL-Library.Option_ord"
begin

text \<open>
  \<open>crates/jig-contract/src/repository.rs\<close>, \<open>run.rs\<close>, \<open>rust_focus.rs\<close>, \<open>cargo.rs\<close> and
  \<open>resources.rs\<close>: the identifiers of components, actions and profiles, the canonical
  \<open>component:action\<close> syntax, and the records of the repository contract.

  The identifier types wrap a string and are constructed by \<open>parse\<close> only; they are
  strings here, ordered as the derived \<open>Ord\<close> orders them. A \<open>TargetId\<close> is the pair of its
  fields, whose lexicographic order is the derived one. Where the source reports an
  error as a message, the error is a constructor that carries the data of the message.
\<close>

section \<open>Identifiers\<close>

type_synonym ComponentId = string
type_synonym ActionId = string
type_synonym ProfileId = string
type_synonym TargetId = "ComponentId \<times> ActionId"

abbreviation t_component :: "TargetId \<Rightarrow> ComponentId" where "t_component \<equiv> fst"
abbreviation t_action :: "TargetId \<Rightarrow> ActionId" where "t_action \<equiv> snd"

definition MAX_IDENTIFIER_BYTES :: nat where "MAX_IDENTIFIER_BYTES = 64"

datatype identifier_kind = ComponentKind | ActionKind | ProfileKind

datatype identifier_reason = EmptyIdentifier | LongIdentifier | BadStart | BadEnd | BadByte

record IdentifierError =
  ie_kind :: identifier_kind
  ie_value :: string
  ie_reason :: identifier_reason

definition validate_identifier :: "identifier_kind \<Rightarrow> string \<Rightarrow> IdentifierError option" where
  "validate_identifier kind value =
     (let error = (\<lambda>reason. Some \<lparr>ie_kind = kind, ie_value = value, ie_reason = reason\<rparr>) in
      if value = [] then error EmptyIdentifier
      else if MAX_IDENTIFIER_BYTES < length value then error LongIdentifier
      else if \<not> is_ascii_lowercase (value ! 0) \<and> \<not> is_ascii_digit (value ! 0) then error BadStart
      else if \<not> is_ascii_lowercase (value ! (length value - 1)) \<and>
              \<not> is_ascii_digit (value ! (length value - 1)) then error BadEnd
      else if \<not> list_all (\<lambda>b. is_ascii_lowercase b \<or> is_ascii_digit b \<or> b = CHR ''-'' \<or> b = CHR ''_'') value
      then error BadByte
      else None)"

definition parse_identifier :: "identifier_kind \<Rightarrow> string \<Rightarrow> IdentifierError + string" where
  "parse_identifier kind value =
     (case validate_identifier kind value of Some e \<Rightarrow> Inl e | None \<Rightarrow> Inr value)"

section \<open>Target identities\<close>

datatype TargetIdError =
    MissingSeparator string
  | TooManySeparators string
  | ComponentError IdentifierError
  | ActionError IdentifierError

definition target_display :: "TargetId \<Rightarrow> string" where
  "target_display t = t_component t @ '':'' @ t_action t"

definition parse_target :: "string \<Rightarrow> TargetIdError + TargetId" where
  "parse_target value =
     (case split_once (CHR '':'') value of
        None \<Rightarrow> Inl (MissingSeparator value)
      | Some (component, action) \<Rightarrow>
          if CHR '':'' \<in> set action then Inl (TooManySeparators value)
          else
            (case parse_identifier ComponentKind component of
               Inl e \<Rightarrow> Inl (ComponentError e)
             | Inr c \<Rightarrow>
                 (case parse_identifier ActionKind action of
                    Inl e \<Rightarrow> Inl (ActionError e)
                  | Inr a \<Rightarrow> Inr (c, a))))"

section \<open>Components, actions and profiles\<close>

datatype FieldProvenance = Declared | Inferred | Inherited | Overridden

record ComponentSpec =
  c_id :: ComponentId
  c_root :: string
  c_description :: "string option"
  c_tags :: "string list"
  c_depends_on :: "ComponentId list"
  c_propagate_affected_to_dependents :: bool
  c_adapters :: "string list"
  c_guidance :: "string option"
  c_provenance :: "(string, FieldProvenance) btree_map"

definition new_component :: "ComponentId \<Rightarrow> string \<Rightarrow> ComponentSpec" where
  "new_component ident root =
     \<lparr>c_id = ident, c_root = root, c_description = None, c_tags = [], c_depends_on = [],
      c_propagate_affected_to_dependents = False, c_adapters = [], c_guidance = None,
      c_provenance = bt_empty\<rparr>"

datatype ActionIntent = Check | Generate | Serve | Operate

datatype ActionEffect = ReadOnly | Worktree | Process | External

primrec effect_rank :: "ActionEffect \<Rightarrow> nat" where
  "effect_rank ReadOnly = 0"
| "effect_rank Worktree = 1"
| "effect_rank Process = 2"
| "effect_rank External = 3"

lemma effect_rank_inj: "effect_rank a = effect_rank b \<Longrightarrow> a = b"
  by (cases a; cases b) auto

instantiation ActionEffect :: linorder
begin

definition less_eq_ActionEffect :: "ActionEffect \<Rightarrow> ActionEffect \<Rightarrow> bool" where
  "a \<le> b \<longleftrightarrow> effect_rank a \<le> effect_rank b"

definition less_ActionEffect :: "ActionEffect \<Rightarrow> ActionEffect \<Rightarrow> bool" where
  "a < b \<longleftrightarrow> effect_rank a < effect_rank b"

instance
  by standard (auto simp: less_eq_ActionEffect_def less_ActionEffect_def dest: effect_rank_inj)

end

record CargoImpactContextV1 =
  cc_metadata_format_version :: nat
  cc_target :: "string option"
  cc_features :: "string list"
  cc_no_default_features :: bool
  cc_all_features :: bool
  cc_locked :: bool
  cc_offline :: bool

definition default_context :: CargoImpactContextV1 where
  "default_context =
     \<lparr>cc_metadata_format_version = 1, cc_target = None, cc_features = [],
      cc_no_default_features = False, cc_all_features = False, cc_locked = True, cc_offline = True\<rparr>"

record RustNextestConfigV1 =
  rn_workspace_manifest :: string
  rn_focused :: bool
  rn_context :: CargoImpactContextV1
  rn_cargo_profile :: "string option"
  rn_nextest_profile :: "string option"

record RustFeaturesV1 =
  rf_features :: "string list"
  rf_no_default_features :: bool
  rf_all_features :: bool

datatype RustTargetV1 = Lib | Bin string | Test string | Example string | Bench string

datatype RustFocusV1 =
    Automatic
  | ExplicitFocus "string list" "RustTargetV1 list" "RustFeaturesV1 option" "string option"

datatype MissingComparisonV1 = Block | StrictInventory

record NativeFileBudgetConfigV1 =
  fb_max_candidates :: u64
  fb_max_total_bytes :: u64
  fb_missing_comparison :: MissingComparisonV1

definition default_file_budget :: NativeFileBudgetConfigV1 where
  "default_file_budget =
     \<lparr>fb_max_candidates = 10000, fb_max_total_bytes = 256 * 1024 * 1024,
      fb_missing_comparison = Block\<rparr>"

datatype NativeActionConfigurationV1 = FileBudget NativeFileBudgetConfigV1

datatype ArgvValue = Literal string | Argument string

type_synonym environment = "(string, string) btree_map"

datatype ActionRunner =
    RustNextestV1 RustNextestConfigV1
  | Command string "string option" environment
  | Shell string "string option" environment
  | Argv string "ArgvValue list" "string option" environment
  | Native string "NativeActionConfigurationV1 option"

datatype ResultParser = ExitCode | JsonLines

datatype ActionArgumentSpec =
    RustFocusArgument
  | StringArgument bool bool nat

definition migration_name :: ActionArgumentSpec where
  "migration_name = StringArgument True False 200"

datatype ActionInputsPolicy = WholeRepository | Exhaustive

datatype ActionSourceState = GitState | WorktreeState

datatype ExecutionResourceV1 =
    CargoV1 string "string option" CargoImpactContextV1
  | PlaywrightServersV1

record ActionSpec =
  a_target :: TargetId
  a_description :: "string option"
  a_intent :: ActionIntent
  a_effects :: "ActionEffect list"
  a_runner :: ActionRunner
  a_resources :: "ExecutionResourceV1 list"
  a_arguments :: "(string, ActionArgumentSpec) btree_map"
  a_inputs :: "string list"
  a_inputs_policy :: "ActionInputsPolicy option"
  a_source_state :: "ActionSourceState option"
  a_depends_on :: "TargetId list"
  a_timeout_seconds :: "u64 option"
  a_result_parser :: ResultParser
  a_legacy_aliases :: "string list"
  a_provenance :: "(string, FieldProvenance) btree_map"

definition new_action :: "TargetId \<Rightarrow> ActionIntent \<Rightarrow> ActionRunner \<Rightarrow> ActionSpec" where
  "new_action target intent runner =
     \<lparr>a_target = target, a_description = None, a_intent = intent, a_effects = [],
      a_runner = runner, a_resources = [], a_arguments = bt_empty, a_inputs = [],
      a_inputs_policy = None, a_source_state = None, a_depends_on = [], a_timeout_seconds = None,
      a_result_parser = ExitCode, a_legacy_aliases = [], a_provenance = bt_empty\<rparr>"

record ProfileSpec =
  pr_id :: ProfileId
  pr_description :: "string option"
  pr_targets :: "TargetId list"
  pr_provenance :: "(string, FieldProvenance) btree_map"

definition new_profile :: "ProfileId \<Rightarrow> TargetId list \<Rightarrow> ProfileSpec" where
  "new_profile ident targets =
     \<lparr>pr_id = ident, pr_description = None, pr_targets = targets, pr_provenance = bt_empty\<rparr>"

record ManifestTool =
  mt_name :: string
  mt_kind :: string
  mt_description :: string
  mt_command :: "string option"

section \<open>Selection reasons\<close>

datatype SelectionReason =
    Explicit string
  | ProfileReason ProfileId
  | DirectInput string
  | UnclaimedInput string
  | ComponentDependency ComponentId "string option"
  | ActionDependency TargetId
  | LegacyAlias string

text \<open>The derived order: the constructor first, then its fields.\<close>

primrec reason_key :: "SelectionReason \<Rightarrow> nat \<times> string \<times> string option" where
  "reason_key (Explicit s) = (0, s, None)"
| "reason_key (ProfileReason p) = (1, p, None)"
| "reason_key (DirectInput p) = (2, p, None)"
| "reason_key (UnclaimedInput p) = (3, p, None)"
| "reason_key (ComponentDependency c p) = (4, c, p)"
| "reason_key (ActionDependency t) = (5, t_component t, Some (t_action t))"
| "reason_key (LegacyAlias a) = (6, a, None)"

lemma reason_key_inj: "reason_key a = reason_key b \<Longrightarrow> a = b"
  by (cases a; cases b) (auto intro: prod_eqI)

instantiation SelectionReason :: linorder
begin

definition less_eq_SelectionReason :: "SelectionReason \<Rightarrow> SelectionReason \<Rightarrow> bool" where
  "a \<le> b \<longleftrightarrow> reason_key a \<le> reason_key b"

definition less_SelectionReason :: "SelectionReason \<Rightarrow> SelectionReason \<Rightarrow> bool" where
  "a < b \<longleftrightarrow> reason_key a < reason_key b"

instance
  by standard (auto simp: less_eq_SelectionReason_def less_SelectionReason_def dest: reason_key_inj)

end

text \<open>Native operations and tool names of the contract.\<close>

definition tool_MIGRATION_ADD :: string where "tool_MIGRATION_ADD = ''jig.migration_add''"
definition tool_FILE_BUDGET :: string where "tool_FILE_BUDGET = ''jig.file_budget''"
definition tool_SCHEMA_CHECK :: string where "tool_SCHEMA_CHECK = ''jig.schema_check''"
definition tool_SCHEMA_DUMP :: string where "tool_SCHEMA_DUMP = ''jig.schema_dump''"
definition tool_BOOTSTRAP :: string where "tool_BOOTSTRAP = ''jig.bootstrap''"
definition tool_TEST_LOCKED :: string where "tool_TEST_LOCKED = ''jig.test_locked''"

section \<open>Lemmas\<close>

definition identifier_ok :: "string \<Rightarrow> bool" where
  "identifier_ok value \<longleftrightarrow>
     value \<noteq> [] \<and> length value \<le> MAX_IDENTIFIER_BYTES \<and>
     (is_ascii_lowercase (hd value) \<or> is_ascii_digit (hd value)) \<and>
     (is_ascii_lowercase (last value) \<or> is_ascii_digit (last value)) \<and>
     list_all (\<lambda>b. is_ascii_lowercase b \<or> is_ascii_digit b \<or> b = CHR ''-'' \<or> b = CHR ''_'') value"

lemma validate_identifier_None_iff: "validate_identifier kind value = None \<longleftrightarrow> identifier_ok value"
  by (cases "value") (auto simp: validate_identifier_def identifier_ok_def Let_def last_conv_nth)

lemma parse_identifier_Inr_iff: "parse_identifier kind value = Inr ident \<longleftrightarrow> ident = value \<and> identifier_ok value"
  using validate_identifier_None_iff [of kind "value"]
  by (auto simp: parse_identifier_def split: option.splits)

lemma identifier_no_colon: "identifier_ok value \<Longrightarrow> CHR '':'' \<notin> set value"
  by (auto simp: identifier_ok_def list_all_iff is_ascii_lowercase_def is_ascii_digit_def)

definition target_ok :: "TargetId \<Rightarrow> bool" where
  "target_ok t \<longleftrightarrow> identifier_ok (t_component t) \<and> identifier_ok (t_action t)"

lemma parse_target_Inr_iff:
  "parse_target value = Inr t \<longleftrightarrow> value = target_display t \<and> target_ok t"
proof
  assume "parse_target value = Inr t"
  then show "value = target_display t \<and> target_ok t"
    by (auto simp: parse_target_def target_display_def target_ok_def split_once_Some_iff
        parse_identifier_Inr_iff split: option.splits if_splits sum.splits)
next
  assume t: "value = target_display t \<and> target_ok t"
  then have "split_once (CHR '':'') value = Some (t_component t, t_action t)"
    unfolding split_once_Some_iff by (simp add: target_display_def target_ok_def identifier_no_colon)
  moreover have "parse_identifier ComponentKind (t_component t) = Inr (t_component t)"
    "parse_identifier ActionKind (t_action t) = Inr (t_action t)"
    using t by (simp_all add: parse_identifier_Inr_iff target_ok_def)
  ultimately show "parse_target value = Inr t"
    using t identifier_no_colon [of "t_action t"] by (simp add: parse_target_def target_ok_def case_prod_beta)
qed

text \<open>
  C18. The target syntax round trips. A string parses as a target exactly when it is the
  display of a target whose component and action are valid identifiers, and then it
  parses as that target: parsing inverts display, display inverts parsing, and no other
  string is accepted.
\<close>

theorem target_id_roundtrip:
  "parse_target value = Inr t \<longleftrightarrow> value = target_display t \<and> target_ok t"
  by (rule parse_target_Inr_iff)

end
