(* ===== verification/Rust_Focus.thy ===== *)
theory Rust_Focus
  imports Contract
begin

text \<open>
  \<open>crates/jig-rust/src/rust_focus.rs\<close>: admission and normalisation of a Rust execution
  scope and the literal arguments of the one Cargo Nextest invocation built from it.
\<close>

section \<open>Definitions\<close>

datatype focus_error =
    BadManifest
  | BadSelectorCount
  | PackageWithoutVersion
  | PackageNotPortable
  | BadFilter
  | BadTargetTriple
  | BadFeatureContext
  | BadToken

primrec rust_target_key :: "RustTargetV1 \<Rightarrow> nat \<times> string" where
  "rust_target_key Lib = (0, [])"
| "rust_target_key (Bin n) = (1, n)"
| "rust_target_key (Test n) = (2, n)"
| "rust_target_key (Example n) = (3, n)"
| "rust_target_key (Bench n) = (4, n)"

lemma rust_target_key_inj: "rust_target_key a = rust_target_key b \<Longrightarrow> a = b"
  by (cases a; cases b) auto

instantiation RustTargetV1 :: linorder
begin

definition less_eq_RustTargetV1 :: "RustTargetV1 \<Rightarrow> RustTargetV1 \<Rightarrow> bool" where
  "a \<le> b \<longleftrightarrow> rust_target_key a \<le> rust_target_key b"

definition less_RustTargetV1 :: "RustTargetV1 \<Rightarrow> RustTargetV1 \<Rightarrow> bool" where
  "a < b \<longleftrightarrow> rust_target_key a < rust_target_key b"

instance
  by standard (auto simp: less_eq_RustTargetV1_def less_RustTargetV1_def dest: rust_target_key_inj)

end

text \<open>\<open>Vec::sort\<close> followed by \<open>Vec::dedup\<close>, which drops equal neighbours.\<close>

definition sort_dedup :: "'a::linorder list \<Rightarrow> 'a list" where
  "sort_dedup xs = remdups_adj (sort xs)"

definition token :: "string \<Rightarrow> focus_error option" where
  "token value =
     (if value = [] \<or> 4096 < length value \<or> take 1 value = ''-'' \<or>
         has_control value \<or> has_whitespace value \<or> CHR '','' \<in> set value
      then Some BadToken else None)"

fun tokens :: "string list \<Rightarrow> focus_error option" where
  "tokens [] = None"
| "tokens (v # rest) = (case token v of Some e \<Rightarrow> Some e | None \<Rightarrow> tokens rest)"

definition contains_any :: "char list \<Rightarrow> string \<Rightarrow> bool" where
  "contains_any cs s \<longleftrightarrow> list_ex (\<lambda>c. c \<in> set cs) s"

definition validate_context :: "CargoImpactContextV1 \<Rightarrow> focus_error option" where
  "validate_context context =
     (if (case cc_target context of
            None \<Rightarrow> False
          | Some target \<Rightarrow> contains_any [CHR ''/'', CHR 0x5C, CHR '':''] target)
      then Some BadTargetTriple
      else if cc_metadata_format_version context \<noteq> 1 \<or> 256 < length (cc_features context) \<or>
              65536 < sum_list (map length (cc_features context)) \<or>
              cc_all_features context \<and> (cc_no_default_features context \<or> cc_features context \<noteq> [])
      then Some BadFeatureContext
      else tokens (cc_features context @ (case cc_target context of None \<Rightarrow> [] | Some t \<Rightarrow> [t])))"

definition ends_with :: "string \<Rightarrow> string \<Rightarrow> bool" where
  "ends_with suffix s \<longleftrightarrow> length suffix \<le> length s \<and> drop (length s - length suffix) s = suffix"

definition validate_config :: "RustNextestConfigV1 \<Rightarrow> focus_error option" where
  "validate_config config =
     (let path = rn_workspace_manifest config in
      if path = [] \<or> 4096 < length path \<or> take 1 path = ''/'' \<or> take 1 path = ''-'' \<or>
         contains_any [CHR 0x5C, CHR 0x00, CHR '':''] path \<or>
         list_ex (\<lambda>part. part = [] \<or> part = ''..'' \<or> part = ''.'') (split_on (CHR ''/'') path) \<or>
         \<not> ends_with ''Cargo.toml'' path
      then Some BadManifest
      else
        (case validate_context (rn_context config) of
           Some e \<Rightarrow> Some e
         | None \<Rightarrow>
             tokens ((case rn_cargo_profile config of None \<Rightarrow> [] | Some p \<Rightarrow> [p]) @
                     (case rn_nextest_profile config of None \<Rightarrow> [] | Some p \<Rightarrow> [p]))))"

primrec target_name :: "RustTargetV1 \<Rightarrow> string option" where
  "target_name Lib = None"
| "target_name (Bin n) = Some n"
| "target_name (Test n) = Some n"
| "target_name (Example n) = Some n"
| "target_name (Bench n) = Some n"

fun check_packages :: "string list \<Rightarrow> focus_error option" where
  "check_packages [] = None"
| "check_packages (package # rest) =
     (case token package of
        Some e \<Rightarrow> Some e
      | None \<Rightarrow>
          (case split_once (CHR ''@'') package of
             None \<Rightarrow> Some PackageWithoutVersion
           | Some (name, version) \<Rightarrow>
               if name = [] \<or> version = [] \<or>
                  contains_any [CHR ''/'', CHR '':'', CHR ''#'', CHR ''*''] package \<or> CHR ''@'' \<in> set version
               then Some PackageNotPortable
               else check_packages rest))"

definition normalize_features :: "RustFeaturesV1 option \<Rightarrow> focus_error + RustFeaturesV1 option" where
  "normalize_features features =
     (case features of
        None \<Rightarrow> Inr None
      | Some f \<Rightarrow>
          (case validate_context
                  (default_context \<lparr>cc_features := rf_features f, cc_all_features := rf_all_features f,
                     cc_no_default_features := rf_no_default_features f\<rparr>) of
             Some e \<Rightarrow> Inl e
           | None \<Rightarrow> Inr (Some (f \<lparr>rf_features := sort_dedup (rf_features f)\<rparr>))))"

primrec normalize_focus :: "RustFocusV1 \<Rightarrow> focus_error + RustFocusV1" where
  "normalize_focus Automatic = Inr Automatic"
| "normalize_focus (ExplicitFocus packages targets features filt) =
     (if packages = [] \<or> 32 < length packages \<or> 32 < length targets then Inl BadSelectorCount
      else
        (case check_packages packages of
           Some e \<Rightarrow> Inl e
         | None \<Rightarrow>
             (case tokens (List.map_filter target_name targets) of
                Some e \<Rightarrow> Inl e
              | None \<Rightarrow>
                  (case normalize_features features of
                     Inl e \<Rightarrow> Inl e
                   | Inr features' \<Rightarrow>
                       if (case filt of None \<Rightarrow> False
                           | Some s \<Rightarrow> s = [] \<or> 4096 < length s \<or> CHR 0x00 \<in> set s)
                       then Inl BadFilter
                       else Inr (ExplicitFocus (sort_dedup packages) (sort_dedup targets) features' filt)))))"

definition LIBRARY_KINDS :: "string list" where
  "LIBRARY_KINDS = [''lib'', ''rlib'', ''dylib'', ''cdylib'', ''staticlib'', ''proc-macro'']"

primrec target_matches :: "RustTargetV1 \<Rightarrow> string \<Rightarrow> string list \<Rightarrow> bool" where
  "target_matches Lib name kinds \<longleftrightarrow> list_ex (\<lambda>kind. kind \<in> set LIBRARY_KINDS) kinds"
| "target_matches (Bin n) name kinds \<longleftrightarrow> n = name \<and> ''bin'' \<in> set kinds"
| "target_matches (Test n) name kinds \<longleftrightarrow> n = name \<and> ''test'' \<in> set kinds"
| "target_matches (Example n) name kinds \<longleftrightarrow> n = name \<and> ''example'' \<in> set kinds"
| "target_matches (Bench n) name kinds \<longleftrightarrow> n = name \<and> ''bench'' \<in> set kinds"

primrec target_args :: "RustTargetV1 \<Rightarrow> string list" where
  "target_args Lib = [''--lib'']"
| "target_args (Bin n) = [''--bin'', n]"
| "target_args (Test n) = [''--test'', n]"
| "target_args (Example n) = [''--example'', n]"
| "target_args (Bench n) = [''--bench'', n]"

definition flag_value :: "string \<Rightarrow> string option \<Rightarrow> string list" where
  "flag_value flag value = (case value of None \<Rightarrow> [] | Some v \<Rightarrow> [flag, v])"

definition flag_enabled :: "string \<Rightarrow> bool \<Rightarrow> string list" where
  "flag_enabled flag enabled = (if enabled then [flag] else [])"

definition nextest_args ::
    "RustNextestConfigV1 \<Rightarrow> CargoImpactContextV1 \<Rightarrow> string list \<Rightarrow> RustTargetV1 list \<Rightarrow> string option \<Rightarrow> string list" where
  "nextest_args config context packages targets filt =
     [''nextest'', ''run'', ''--manifest-path'', rn_workspace_manifest config, ''--no-tests=fail''] @
     (if rn_nextest_profile config = None then [''--profile'', ''default''] else []) @
     (if packages = [] then [''--workspace''] else []) @
     concat (map (\<lambda>package. [''--package'', package]) packages) @
     (if targets = [] then [''--all-targets''] else []) @
     concat (map target_args targets) @
     flag_value ''--target'' (cc_target context) @
     flag_value ''--cargo-profile'' (rn_cargo_profile config) @
     flag_value ''--profile'' (rn_nextest_profile config) @
     concat (map (\<lambda>feature. [''--features'', feature]) (cc_features context)) @
     flag_enabled ''--no-default-features'' (cc_no_default_features context) @
     flag_enabled ''--all-features'' (cc_all_features context) @
     flag_enabled ''--locked'' (cc_locked context) @
     flag_enabled ''--offline'' (cc_offline context) @
     flag_value ''--filter-expr'' filt"

section \<open>Lemmas\<close>

lemma sort_dedup_eq: "sort_dedup xs = sorted_list_of_set (set xs)"
  by (simp add: sort_dedup_def remdups_adj_sort)

lemma sort_dedup_idem [simp]: "sort_dedup (sort_dedup xs) = sort_dedup xs"
  by (simp add: sort_dedup_eq)

lemma set_sort_dedup [simp]: "set (sort_dedup xs) = set xs"
  by (simp add: sort_dedup_def)

lemma sort_dedup_Nil_iff [simp]: "sort_dedup xs = [] \<longleftrightarrow> xs = []"
  by (metis set_sort_dedup set_empty)

lemma length_sort_dedup: "length (sort_dedup xs) \<le> length xs"
  by (simp add: sort_dedup_def) (metis length_sort remdups_adj_length)

lemma sum_list_sort_dedup: "sum_list (map (f :: _ \<Rightarrow> nat) (sort_dedup xs)) \<le> sum_list (map f xs)"
proof -
  have "sum_list (map f (remdups_adj ys)) \<le> sum_list (map f ys)" for ys
    by (induction ys rule: remdups_adj.induct) auto
  moreover have "sum_list (map f (sort xs)) = sum_list (map f xs)"
    by (metis mset_map mset_sort sum_mset_sum_list)
  ultimately show ?thesis by (metis sort_dedup_def)
qed

lemma token_None_iff:
  "token v = None \<longleftrightarrow> v \<noteq> [] \<and> length v \<le> 4096 \<and> take 1 v \<noteq> ''-'' \<and>
     \<not> has_control v \<and> \<not> has_whitespace v \<and> CHR '','' \<notin> set v"
  by (auto simp: token_def)

lemma tokens_None_iff: "tokens vs = None \<longleftrightarrow> (\<forall>v \<in> set vs. token v = None)"
  by (induction vs) (auto split: option.splits)

definition package_ok :: "string \<Rightarrow> bool" where
  "package_ok package \<longleftrightarrow>
     token package = None \<and> \<not> contains_any [CHR ''/'', CHR '':'', CHR ''#'', CHR ''*''] package \<and>
     (\<exists>name version. package = name @ ''@'' @ version \<and> name \<noteq> [] \<and> version \<noteq> [] \<and>
        CHR ''@'' \<notin> set name \<and> CHR ''@'' \<notin> set version)"

lemma package_ok_split:
  "package_ok p \<longleftrightarrow>
     token p = None \<and> \<not> contains_any [CHR ''/'', CHR '':'', CHR ''#'', CHR ''*''] p \<and>
     (\<exists>name version. split_once (CHR ''@'') p = Some (name, version) \<and> name \<noteq> [] \<and> version \<noteq> [] \<and>
        CHR ''@'' \<notin> set version)"
  by (auto simp: package_ok_def split_once_Some_iff)

lemma check_packages_None_iff: "check_packages packages = None \<longleftrightarrow> (\<forall>p \<in> set packages. package_ok p)"
proof (induction packages)
  case (Cons p ps)
  show ?case
  proof (cases "split_once (CHR ''@'') p")
    case None
    then have "\<not> package_ok p" by (auto simp: package_ok_def split_once_None_iff)
    with None show ?thesis by (auto split: option.splits)
  next
    case (Some nv)
    then obtain name version where nv: "split_once (CHR ''@'') p = Some (name, version)" by (cases nv) auto
    have "package_ok p \<longleftrightarrow> token p = None \<and> name \<noteq> [] \<and> version \<noteq> [] \<and> CHR ''@'' \<notin> set version \<and>
        \<not> contains_any [CHR ''/'', CHR '':'', CHR ''#'', CHR ''*''] p"
      using package_ok_split [of p] nv by auto
    then show ?thesis using Cons nv by (auto split: option.splits)
  qed
qed simp

lemma validate_context_features:
  assumes "validate_context c = None"
  shows "validate_context (c \<lparr>cc_features := sort_dedup (cc_features c)\<rparr>) = None"
  using assms length_sort_dedup [of "cc_features c"] sum_list_sort_dedup [of length "cc_features c"]
  by (auto simp: validate_context_def tokens_None_iff split: if_splits)

lemma normalize_features_idem:
  assumes "normalize_features f = Inr g"
  shows "normalize_features g = Inr g"
proof (cases f)
  case None
  then show ?thesis using assms by (simp add: normalize_features_def)
next
  case (Some x)
  let ?c = "default_context \<lparr>cc_features := rf_features x, cc_all_features := rf_all_features x,
                     cc_no_default_features := rf_no_default_features x\<rparr>"
  have "validate_context ?c = None"
    using assms Some by (auto simp: normalize_features_def split: option.splits)
  then have "validate_context (?c \<lparr>cc_features := sort_dedup (cc_features ?c)\<rparr>) = None"
    by (rule validate_context_features)
  then show ?thesis
    using assms Some by (auto simp: normalize_features_def default_context_def split: option.splits)
qed

lemma set_map_filter_option: "set (List.map_filter f xs) = {y. \<exists>x \<in> set xs. f x = Some y}"
  by (induction xs) (auto simp: List.map_filter_simps split: option.splits)

lemma normalize_focus_Explicit_iff:
  "normalize_focus (ExplicitFocus packages targets features filt) = Inr g \<longleftrightarrow>
     packages \<noteq> [] \<and> length packages \<le> 32 \<and> length targets \<le> 32 \<and>
     (\<forall>p \<in> set packages. package_ok p) \<and>
     (\<forall>t \<in> set targets. \<forall>n. target_name t = Some n \<longrightarrow> token n = None) \<and>
     (case filt of None \<Rightarrow> True | Some s \<Rightarrow> s \<noteq> [] \<and> length s \<le> 4096 \<and> CHR 0x00 \<notin> set s) \<and>
     (\<exists>features'. normalize_features features = Inr features' \<and>
        g = ExplicitFocus (sort_dedup packages) (sort_dedup targets) features' filt)"
proof -
  have "tokens (List.map_filter target_name targets) = None \<longleftrightarrow>
      (\<forall>t \<in> set targets. \<forall>n. target_name t = Some n \<longrightarrow> token n = None)"
    by (auto simp: tokens_None_iff set_map_filter_option)
  then show ?thesis
    using check_packages_None_iff [of packages]
    by (auto split: option.splits sum.splits if_splits)
qed

text \<open>
  C21. Normalising a Rust focus is canonical: a normalised focus is accepted again
  and left unchanged, so the text hashed into an invocation does not depend on how often
  it was normalised.
\<close>

theorem normalize_focus_idempotent:
  assumes "normalize_focus focus = Inr g"
  shows "normalize_focus g = Inr g"
proof (cases focus)
  case (ExplicitFocus packages targets features filt)
  then show ?thesis
    using assms length_sort_dedup [of packages] length_sort_dedup [of targets]
    by (auto simp: normalize_focus_Explicit_iff simp del: normalize_focus.simps(2)
        dest: normalize_features_idem)
qed (use assms in simp)

theorem normalize_focus_idempotent_witness:
  "normalize_focus (ExplicitFocus [''b@1'', ''a@1'', ''b@1''] [Test ''t'', Lib] None None) =
     Inr (ExplicitFocus [''a@1'', ''b@1''] [Lib, Test ''t''] None None) \<and>
   normalize_focus (ExplicitFocus [''a@1'', ''b@1''] [Lib, Test ''t''] None None) =
     Inr (ExplicitFocus [''a@1'', ''b@1''] [Lib, Test ''t''] None None)"
proof -
  have "normalize_focus (ExplicitFocus [''b@1'', ''a@1'', ''b@1''] [Test ''t'', Lib] None None) =
     Inr (ExplicitFocus [''a@1'', ''b@1''] [Lib, Test ''t''] None None)"
    by code_simp
  then show ?thesis using normalize_focus_idempotent by blast
qed

text \<open>The options that an invocation may carry; the filter expression is the last argument.\<close>

definition NEXTEST_OPTIONS :: "string list" where
  "NEXTEST_OPTIONS =
     [''--manifest-path'', ''--no-tests=fail'', ''--profile'', ''--workspace'', ''--package'', ''--all-targets'',
      ''--lib'', ''--bin'', ''--test'', ''--example'', ''--bench'', ''--target'', ''--cargo-profile'', ''--features'',
      ''--no-default-features'', ''--all-features'', ''--locked'', ''--offline'']"

definition plain_or_known :: "string \<Rightarrow> bool" where
  "plain_or_known arg \<longleftrightarrow> take 1 arg \<noteq> ''-'' \<or> arg \<in> set NEXTEST_OPTIONS"

lemma plain_or_known_token: "token v = None \<Longrightarrow> plain_or_known v"
  by (simp add: plain_or_known_def token_None_iff)

lemma plain_or_known_options: "list_all plain_or_known NEXTEST_OPTIONS"
  by (simp add: plain_or_known_def list_all_iff)

lemma plain_or_known_constants:
  "plain_or_known ''nextest'' \<and> plain_or_known ''run'' \<and> plain_or_known ''default'' \<and>
   list_all plain_or_known NEXTEST_OPTIONS"
  using plain_or_known_options by (simp add: plain_or_known_def)

lemma target_args_plain:
  "(\<forall>n. target_name t = Some n \<longrightarrow> token n = None) \<Longrightarrow> list_all plain_or_known (target_args t)"
  using plain_or_known_options by (cases t) (auto simp: NEXTEST_OPTIONS_def plain_or_known_token)

lemma validate_context_tokens:
  "validate_context c = None \<Longrightarrow>
     (\<forall>v \<in> set (cc_features c). token v = None) \<and> (\<forall>t. cc_target c = Some t \<longrightarrow> token t = None)"
  by (auto simp: validate_context_def tokens_None_iff split: if_splits option.splits)

lemma validate_config_tokens:
  "validate_config c = None \<Longrightarrow>
     take 1 (rn_workspace_manifest c) \<noteq> ''-'' \<and> validate_context (rn_context c) = None \<and>
     (\<forall>p. rn_cargo_profile c = Some p \<longrightarrow> token p = None) \<and>
     (\<forall>p. rn_nextest_profile c = Some p \<longrightarrow> token p = None)"
  by (auto simp: validate_config_def tokens_None_iff Let_def split: if_splits option.splits)

lemma flag_value_plain:
  "plain_or_known flag \<Longrightarrow> (\<forall>v. value = Some v \<longrightarrow> token v = None) \<Longrightarrow>
     list_all plain_or_known (flag_value flag value)"
  by (auto simp: flag_value_def plain_or_known_token split: option.splits)

lemma flag_enabled_plain: "plain_or_known flag \<Longrightarrow> list_all plain_or_known (flag_enabled flag enabled)"
  by (simp add: flag_enabled_def)

lemma pair_args_plain:
  "plain_or_known flag \<Longrightarrow> (\<forall>v \<in> set vs. token v = None) \<Longrightarrow>
     list_all plain_or_known (concat (map (\<lambda>v. [flag, v]) vs))"
  by (induction vs) (auto simp: plain_or_known_token)

lemma nextest_args_plain:
  assumes "validate_config config = None" "validate_context context = None"
    "\<forall>p \<in> set packages. token p = None"
    "\<forall>t \<in> set targets. \<forall>n. target_name t = Some n \<longrightarrow> token n = None"
  shows "list_all plain_or_known (nextest_args config context packages targets None)"
proof -
  have known: "plain_or_known ''--manifest-path''" "plain_or_known ''--no-tests=fail''"
    "plain_or_known ''--profile''" "plain_or_known ''--workspace''" "plain_or_known ''--package''"
    "plain_or_known ''--all-targets''" "plain_or_known ''--target''" "plain_or_known ''--cargo-profile''"
    "plain_or_known ''--features''" "plain_or_known ''--no-default-features''"
    "plain_or_known ''--all-features''" "plain_or_known ''--locked''" "plain_or_known ''--offline''"
    "plain_or_known ''nextest''" "plain_or_known ''run''" "plain_or_known ''default''"
    using plain_or_known_constants by (simp_all add: NEXTEST_OPTIONS_def)
  have manifest: "plain_or_known (rn_workspace_manifest config)"
    using validate_config_tokens [OF assms(1)] by (simp add: plain_or_known_def)
  have args: "list_all plain_or_known (concat (map target_args targets))"
    using assms(4) target_args_plain by (induction targets) auto
  have head: "list_all plain_or_known
      [''nextest'', ''run'', ''--manifest-path'', rn_workspace_manifest config, ''--no-tests=fail'']"
    by (simp only: list.pred_inject simp_thms known manifest)
  have tail: "list_all plain_or_known (flag_value ''--filter-expr'' None)"
    by (simp add: flag_value_def)
  have ctx: "\<forall>v \<in> set (cc_features context). token v = None" "\<forall>t. cc_target context = Some t \<longrightarrow> token t = None"
    using validate_context_tokens [OF assms(2)] by blast+
  have config: "\<forall>p. rn_cargo_profile config = Some p \<longrightarrow> token p = None"
    "\<forall>p. rn_nextest_profile config = Some p \<longrightarrow> token p = None"
    using validate_config_tokens [OF assms(1)] by blast+
  show ?thesis
    unfolding nextest_args_def list_all_append
    by (intro conjI head tail args flag_value_plain flag_enabled_plain pair_args_plain known ctx config assms(3))
       (simp_all only: list.pred_inject simp_thms known split: if_split)
qed

text \<open>
  C22. A validated configuration and a normalised focus cannot inject an option: of all
  the arguments of the Nextest invocation, only options of a fixed list start with a dash,
  whatever the packages, targets, features, profiles and manifest are. A filter, the
  one value that may start with a dash, follows as the last argument, right after its own
  option.
\<close>

theorem nextest_no_option_injection:
  assumes "validate_config config = None" "validate_context context = None"
    "normalize_focus (ExplicitFocus packages targets features filt) = Inr (ExplicitFocus packages' targets' features' filt')"
  shows "list_all plain_or_known (nextest_args config context packages' targets' None) \<and>
    nextest_args config context packages' targets' (Some expr) =
      nextest_args config context packages' targets' None @ [''--filter-expr'', expr]"
proof
  have "\<forall>p \<in> set packages'. token p = None"
    "\<forall>t \<in> set targets'. \<forall>n. target_name t = Some n \<longrightarrow> token n = None"
    using assms(3) unfolding normalize_focus_Explicit_iff by (auto simp: package_ok_def)
  with assms(1,2) show "list_all plain_or_known (nextest_args config context packages' targets' None)"
    by (rule nextest_args_plain)
qed (simp add: nextest_args_def flag_value_def)

definition sample_config :: RustNextestConfigV1 where
  "sample_config =
     \<lparr>rn_workspace_manifest = ''Cargo.toml'', rn_focused = True, rn_context = default_context,
      rn_cargo_profile = None, rn_nextest_profile = Some ''ci''\<rparr>"

theorem nextest_no_option_injection_witness:
  "list_all plain_or_known (nextest_args sample_config default_context [''a@1''] [Lib] None) \<and>
   nextest_args sample_config default_context [''a@1''] [Lib] (Some ''-x'') =
     nextest_args sample_config default_context [''a@1''] [Lib] None @ [''--filter-expr'', ''-x'']"
proof -
  have "validate_context default_context = None"
    by (simp add: validate_context_def default_context_def)
  moreover from this have "validate_config sample_config = None"
    by (simp add: validate_config_def sample_config_def contains_any_def ends_with_def token_def)
  moreover have "normalize_focus (ExplicitFocus [''a@1''] [Lib] None (Some ''-x'')) =
      Inr (ExplicitFocus [''a@1''] [Lib] None (Some ''-x''))"
    by code_simp
  ultimately show ?thesis using nextest_no_option_injection by blast
qed

end
