(* ===== verification/Repository_Path.thy ===== *)
theory Repository_Path
  imports Ordered_Map
begin

text \<open>
  \<open>crates/jig-context/src/repository_path.rs\<close>: paths below the repository root. A path
  is its bytes; \<open>Path::components\<close> is \<open>path_components\<close>, for the \<open>/\<close>-separated paths of
  Unix. The file system is a parameter: \<open>symlink_metadata\<close> and \<open>canonicalize\<close> are functions
  of the path, given by its components. The label of a message is not modelled.
\<close>

section \<open>Definitions\<close>

datatype path_error =
    EmptyPath
  | AbsolutePath
  | NotPortable
  | BackslashSeparator
  | ControlCharacter
  | OutsideRepository
  | RootDirectory
  | Unresolvable
  | NotADirectory
  | StatFailed
  | SymlinkComponent
  | UnsafeRoot

text \<open>
  \<open>Path::components\<close>: repeated separators and inner \<open>.\<close> components disappear, a leading \<open>.\<close>
  is \<open>CurDir\<close>, \<open>..\<close> is kept.
\<close>

datatype path_component = RootDir | CurDir | ParentDir | Normal string

definition relative_components :: "string list \<Rightarrow> path_component list" where
  "relative_components parts =
     map (\<lambda>p. if p = ''..'' then ParentDir else Normal p)
       (filter (\<lambda>p. p \<noteq> [] \<and> p \<noteq> ''.'') parts)"

definition path_components :: "string \<Rightarrow> path_component list" where
  "path_components path =
     (let parts = split_on (CHR ''/'') path in
      (if take 1 path = ''/'' then [RootDir] else if hd parts = ''.'' then [CurDir] else []) @
      relative_components parts)"

fun push_components :: "path_component list \<Rightarrow> path_error + string list" where
  "push_components [] = Inr []"
| "push_components (CurDir # rest) = push_components rest"
| "push_components (Normal part # rest) =
     (case push_components rest of Inl e \<Rightarrow> Inl e | Inr parts \<Rightarrow> Inr (part # parts))"
| "push_components (ParentDir # rest) = Inl OutsideRepository"
| "push_components (RootDir # rest) = Inl OutsideRepository"

definition normalize_repo_relative_path :: "string \<Rightarrow> path_error + string list" where
  "normalize_repo_relative_path path =
     (if take 1 path = ''/'' then Inl AbsolutePath
      else
        (case push_components (path_components path) of
           Inl e \<Rightarrow> Inl e
         | Inr normalized \<Rightarrow> if normalized = [] then Inl EmptyPath else Inr normalized))"

definition normalize_portable_repo_path :: "string \<Rightarrow> path_error + string" where
  "normalize_portable_repo_path value =
     (if value = [] then Inl EmptyPath
      else if take 1 value = ''/'' \<or> take 1 value = [CHR 0x5C] \<or>
              2 \<le> length value \<and> is_ascii_alphabetic (value ! 0) \<and> value ! 1 = CHR '':'' then Inl NotPortable
      else if CHR 0x5C \<in> set value then Inl BackslashSeparator
      else if has_control value then Inl ControlCharacter
      else
        (let parts = split_on (CHR ''/'') value in
         if ''..'' \<in> set parts then Inl OutsideRepository
         else
           (let normalized = filter (\<lambda>p. p \<noteq> [] \<and> p \<noteq> ''.'') parts in
            if normalized = [] then Inr ''.'' else Inr (join_with ''/'' normalized))))"

definition normalize_portable_repository_directory :: "string \<Rightarrow> path_error + string" where
  "normalize_portable_repository_directory value =
     (case normalize_portable_repo_path value of
        Inl e \<Rightarrow> Inl e
      | Inr normalized \<Rightarrow> if normalized = ''.'' then Inl RootDirectory else Inr normalized)"

definition resolve_repository_working_directory ::
    "(string list \<Rightarrow> string list option) \<Rightarrow> (string list \<Rightarrow> bool) \<Rightarrow> string option \<Rightarrow> path_error + string list" where
  "resolve_repository_working_directory canonicalize is_dir configured =
     (case canonicalize [] of
        None \<Rightarrow> Inl Unresolvable
      | Some canonical_root \<Rightarrow>
          (case configured of
             None \<Rightarrow> Inr canonical_root
           | Some dir \<Rightarrow>
               if dir = ''.'' then Inr canonical_root
               else
                 (case normalize_repo_relative_path dir of
                    Inl e \<Rightarrow> Inl e
                  | Inr configured_path \<Rightarrow>
                      (case canonicalize configured_path of
                         None \<Rightarrow> Inl Unresolvable
                       | Some candidate \<Rightarrow>
                           if take (length canonical_root) candidate \<noteq> canonical_root
                           then Inl OutsideRepository
                           else if \<not> is_dir candidate then Inl NotADirectory
                           else Inr candidate))))"

datatype environment_error = InvalidName string | NulValue string

fun validate_runner_environment :: "(string, string) btree_map \<Rightarrow> environment_error option" where
  "validate_runner_environment [] = None"
| "validate_runner_environment ((name, val) # rest) =
     (if name = [] \<or> CHR ''='' \<in> set name \<or> CHR 0x00 \<in> set name then Some (InvalidName name)
      else if CHR 0x00 \<in> set val then Some (NulValue name)
      else validate_runner_environment rest)"

text \<open>\<open>fs::symlink_metadata\<close>: what stands at a path, a missing entry, or another error.\<close>

datatype metadata = Directory | Symlink | OtherFile | NotFound | StatError

fun walk_directory :: "(string list \<Rightarrow> metadata) \<Rightarrow> string list \<Rightarrow> string list \<Rightarrow> path_error option" where
  "walk_directory stat current [] = None"
| "walk_directory stat current (component # rest) =
     (let current = current @ [component] in
      case stat current of
        NotFound \<Rightarrow> walk_directory stat current rest
      | StatError \<Rightarrow> Some StatFailed
      | Symlink \<Rightarrow> Some SymlinkComponent
      | OtherFile \<Rightarrow> Some NotADirectory
      | Directory \<Rightarrow> walk_directory stat current rest)"

definition validate_repository_directory_path :: "(string list \<Rightarrow> metadata) \<Rightarrow> string \<Rightarrow> path_error option" where
  "validate_repository_directory_path stat path =
     (case normalize_repo_relative_path path of
        Inl e \<Rightarrow> Some e
      | Inr parts \<Rightarrow>
          (case stat [] of
             StatError \<Rightarrow> Some StatFailed
           | NotFound \<Rightarrow> Some StatFailed
           | Directory \<Rightarrow> walk_directory stat [] parts
           | Symlink \<Rightarrow> Some UnsafeRoot
           | OtherFile \<Rightarrow> Some UnsafeRoot))"

section \<open>Lemmas\<close>

definition segment_ok :: "string \<Rightarrow> bool" where
  "segment_ok p \<longleftrightarrow> p \<noteq> [] \<and> p \<noteq> ''.'' \<and> p \<noteq> ''..'' \<and> CHR ''/'' \<notin> set p"

lemma push_components_relative:
  "push_components (relative_components parts) =
     (if ''..'' \<in> set parts then Inl OutsideRepository
      else Inr (filter (\<lambda>p. p \<noteq> [] \<and> p \<noteq> ''.'') parts))"
  by (induction parts) (auto simp: relative_components_def)

lemma normalize_repo_relative_path_Inr_iff:
  "normalize_repo_relative_path path = Inr parts \<longleftrightarrow>
     take 1 path \<noteq> ''/'' \<and> ''..'' \<notin> set (split_on (CHR ''/'') path) \<and> parts \<noteq> [] \<and>
     parts = filter (\<lambda>p. p \<noteq> [] \<and> p \<noteq> ''.'') (split_on (CHR ''/'') path)"
  by (auto simp: normalize_repo_relative_path_def path_components_def Let_def push_components_relative)

lemma normalize_repo_relative_path_segments:
  "normalize_repo_relative_path path = Inr parts \<Longrightarrow> list_all segment_ok parts"
  by (auto simp: normalize_repo_relative_path_Inr_iff list_all_iff segment_ok_def split_on_pieces)

lemma walk_directory_None_iff:
  "walk_directory stat current parts = None \<longleftrightarrow>
     list_all (\<lambda>k. stat (current @ take k parts) = Directory \<or> stat (current @ take k parts) = NotFound)
       [1..<Suc (length parts)]"
proof (induction parts arbitrary: current)
  case (Cons p parts)
  have "[1..<Suc (length (p # parts))] = 1 # map Suc [1..<Suc (length parts)]"
    by (simp add: map_Suc_upt upt_conv_Cons del: upt_Suc)
  then show ?case
    using Cons.IH [of "current @ [p]"] by (simp add: Let_def list.pred_map comp_def del: upt_Suc split: metadata.splits)
qed simp

lemma validate_runner_environment_None_iff:
  "validate_runner_environment env = None \<longleftrightarrow>
     list_all (\<lambda>(name, val). name \<noteq> [] \<and> CHR ''='' \<notin> set name \<and> CHR 0x00 \<notin> set name \<and> CHR 0x00 \<notin> set val) env"
  by (induction env rule: validate_runner_environment.induct) auto

text \<open>A path that reads as a Windows drive, such as \<open>C:/x\<close>.\<close>

definition has_drive :: "string \<Rightarrow> bool" where
  "has_drive path \<longleftrightarrow> 2 \<le> length path \<and> is_ascii_alphabetic (path ! 0) \<and> path ! 1 = CHR '':''"

definition portable_form :: "string \<Rightarrow> bool" where
  "portable_form path \<longleftrightarrow>
     (path = ''.'' \<or> list_all segment_ok (split_on (CHR ''/'') path)) \<and>
     CHR 0x5C \<notin> set path \<and> \<not> has_control path"

lemma normalize_portable_form:
  assumes "normalize_portable_repo_path value = Inr n"
  shows "portable_form n"
proof -
  let ?parts = "filter (\<lambda>p. p \<noteq> [] \<and> p \<noteq> ''.'') (split_on (CHR ''/'') value)"
  have v: "CHR 0x5C \<notin> set value" "\<not> has_control value" "''..'' \<notin> set (split_on (CHR ''/'') value)"
    and n: "n = (if ?parts = [] then ''.'' else join_with ''/'' ?parts)"
    using assms by (auto simp: normalize_portable_repo_path_def Let_def split: if_splits)
  have segments: "list_all segment_ok ?parts"
    using v by (auto simp: list_all_iff segment_ok_def split_on_pieces)
  show ?thesis
  proof (cases "?parts = []")
    case False
    then have "split_on (CHR ''/'') n = ?parts"
      using segments n by (simp add: split_on_join list_all_iff segment_ok_def)
    moreover have "\<not> has_control n"
      using v(2) False n by (auto simp: has_control_join has_control_split [of "value"] list_ex_iff)
    moreover have "CHR 0x5C \<notin> set n"
      using v(1) False n by (auto dest!: set_join_with set_split_on)
    ultimately show ?thesis using segments by (simp add: portable_form_def)
  next
    case True
    then show ?thesis using n by (simp add: portable_form_def)
  qed
qed

lemma normalize_portable_fixed:
  assumes "portable_form n"
  shows "normalize_portable_repo_path n = (if has_drive n then Inl NotPortable else Inr n)"
proof (cases "n = ''.''")
  case False
  then have segments: "list_all segment_ok (split_on (CHR ''/'') n)"
    using assms by (simp add: portable_form_def)
  moreover from segments have "n \<noteq> []" by (auto simp: segment_ok_def)
  moreover have "take 1 n \<noteq> ''/''"
    using segments by (cases n) (auto simp: segment_ok_def)
  moreover have "take 1 n \<noteq> [CHR 0x5C]"
    using assms by (cases n) (auto simp: portable_form_def)
  moreover have "filter (\<lambda>p. p \<noteq> [] \<and> p \<noteq> ''.'') (split_on (CHR ''/'') n) = split_on (CHR ''/'') n"
    using segments by (simp add: list_all_iff segment_ok_def filter_id_conv)
  moreover have "''..'' \<notin> set (split_on (CHR ''/'') n)"
    using segments by (auto simp: list_all_iff segment_ok_def)
  ultimately show ?thesis
    using assms join_split_on [of "CHR ''/''" n]
    by (simp add: normalize_portable_repo_path_def portable_form_def Let_def has_drive_def)
qed (simp add: normalize_portable_repo_path_def has_drive_def)

text \<open>
  C19. Normalising a portable path gives its normal form: \<open>.\<close>, or non-empty segments other
  than \<open>.\<close> and \<open>..\<close> joined by single slashes, with no backslash and no control character.
  A normal form is normalised to itself, except when dropping a leading \<open>.\<close> has uncovered
  a drive prefix such as \<open>C:\<close>, which the function rejects when it is given directly.
\<close>

theorem portable_path_normal_form:
  assumes "normalize_portable_repo_path value = Inr n"
  shows "portable_form n \<and>
    normalize_portable_repo_path n = (if has_drive n then Inl NotPortable else Inr n)"
  using normalize_portable_form [OF assms] normalize_portable_fixed by blast

theorem portable_path_normal_form_witness:
  "normalize_portable_repo_path ''./C:/x'' = Inr ''C:/x'' \<and> portable_form ''C:/x'' \<and>
   normalize_portable_repo_path ''C:/x'' = Inl NotPortable"
proof -
  have "normalize_portable_repo_path ''./C:/x'' = Inr ''C:/x''" by code_simp
  then show ?thesis
    using portable_path_normal_form [of "''./C:/x''" "''C:/x''"] by (simp add: has_drive_def is_ascii_alphabetic_def)
qed

text \<open>
  C20. A directory path is accepted for writing exactly when the root is a real
  directory, the path normalises to segments below it, and every prefix of the path is a
  real directory or does not exist: no existing component is a symbolic link or a file,
  so no write below an accepted path is redirected.
\<close>

theorem directory_path_accepted_iff:
  "validate_repository_directory_path stat path = None \<longleftrightarrow>
     stat [] = Directory \<and>
     (\<exists>parts. normalize_repo_relative_path path = Inr parts \<and> list_all segment_ok parts \<and>
        list_all (\<lambda>k. stat (take k parts) = Directory \<or> stat (take k parts) = NotFound)
          [1..<Suc (length parts)])"
  using normalize_repo_relative_path_segments [of path]
  by (auto simp: validate_repository_directory_path_def walk_directory_None_iff
      split: sum.splits metadata.splits)

end
