(* ===== verification/Actions.thy ===== *)
theory Actions
  imports Rust_Focus Repository_Path
begin

text \<open>
  The rules for one action: \<open>crates/jig-repository/src/arguments.rs\<close> (argument declarations,
  binding and the command-line syntax), \<open>runners.rs\<close> (runner admission and the literal
  command line), \<open>planner/resources.rs\<close> (resource declarations and the input digest),
  \<open>normalize_native_configuration\<close> of \<open>lib.rs\<close>, and \<open>inputs_policy.rs\<close> and \<open>migration.rs\<close> of
  \<open>crates/jig-context\<close>.

  The crates that parse and print JSON, compute SHA-256 and match globs are the fields of
  \<open>repo_env\<close>. Encoding a value of the contract as JSON never fails, so the error that the
  code passes on there is not modelled.
\<close>

section \<open>Third-party functions\<close>

record repo_env =
  re_focus_parse :: "string \<Rightarrow> RustFocusV1 option"
  re_focus_print :: "RustFocusV1 \<Rightarrow> string"
  re_json_cargo :: "string \<times> string \<times> CargoImpactContextV1 \<Rightarrow> string"
  re_json_runner :: "ActionRunner \<Rightarrow> string"
  re_json_arguments :: "(string, ActionArgumentSpec) btree_map \<Rightarrow> string"
  re_json_resources :: "ExecutionResourceV1 list \<Rightarrow> string"
  re_json_reason :: "SelectionReason \<Rightarrow> string"
  re_sha256 :: "string \<Rightarrow> string"
  re_glob :: "string \<Rightarrow> (string \<Rightarrow> bool) option"

text \<open>\<open>u64::to_be_bytes\<close>, from the least significant byte.\<close>

fun le_bytes :: "nat \<Rightarrow> nat \<Rightarrow> string" where
  "le_bytes 0 n = []"
| "le_bytes (Suc k) n = char_of n # le_bytes k (n div 256)"

definition be_bytes64 :: "nat \<Rightarrow> string" where
  "be_bytes64 n = rev (le_bytes 8 n)"

section \<open>Errors\<close>

datatype argument_error =
    ArgumentsNeedVersion8 TargetId
  | TooManyArguments TargetId
  | BadArgumentName TargetId string
  | FocusNeedsFocusedRunner
  | BadMaxBytes TargetId string
  | NativeArgumentMismatch TargetId
  | UnexpectedArgument TargetId string
  | MissingArgument TargetId string
  | InvalidArgument TargetId string
  | EmptyArgument TargetId string
  | LongArgument TargetId string
  | NulArgument TargetId string
  | LongFocus
  | MalformedFocus
  | FocusRejected focus_error

datatype binding_error =
    BindingSyntax
  | BindingTarget TargetIdError
  | BindingName string
  | DuplicateBinding TargetId string

datatype runner_error =
    NextestNeedsVersion8
  | RunnerConfig focus_error
  | NextestArguments
  | NextestAliases
  | NextestCheckOnly
  | NextestInputs
  | CommandRetired TargetId
  | RunnerNeedsVersion8 TargetId
  | BadProgram TargetId
  | RunnerEnvironment environment_error
  | NulArgv TargetId
  | UndeclaredArgument TargetId string
  | ShellArguments TargetId

datatype resource_error =
    TooManyResources TargetId
  | ResourcesNeedCheck TargetId
  | NativeResources TargetId
  | LongManifest
  | ResourcePath path_error
  | NotACargoManifest
  | LongDirectory
  | ResourceContext focus_error
  | ResourceRunnerMismatch
  | DuplicateCargo TargetId
  | PlaywrightRunner TargetId
  | DuplicatePlaywright TargetId

datatype policy_error =
    SourceStateVersion TargetId
  | NativeSourceState TargetId
  | InputsPolicyVersion TargetId
  | ExhaustiveNeedsInputs TargetId
  | ExhaustiveGitMetadata TargetId
  | BudgetVersion TargetId
  | NativeConfiguration TargetId string
  | BudgetInputs TargetId
  | BadMaxCandidates TargetId
  | BadMaxTotalBytes TargetId

datatype migration_error =
    MultipleMigrationOwners "TargetId list"
  | MigrationIntent TargetId
  | MigrationEffect TargetId
  | MigrationComponent TargetId
  | MigrationBothAdapters TargetId
  | MigrationNoAdapter TargetId

definition ensure :: "bool \<Rightarrow> 'e \<Rightarrow> 'e option \<Rightarrow> 'e option" where
  "ensure condition error rest = (if condition then rest else Some error)"

lemma ensure_None_iff [simp]: "ensure c e rest = None \<longleftrightarrow> c \<and> rest = None"
  by (simp add: ensure_def)

definition FILE_BUDGET_CONTRACT_VERSION :: nat where "FILE_BUDGET_CONTRACT_VERSION = 7"
definition ACTION_EXECUTION_CONTRACT_VERSION :: nat where "ACTION_EXECUTION_CONTRACT_VERSION = 8"
definition TARGET_FRESHNESS_CONTRACT_VERSION :: nat where "TARGET_FRESHNESS_CONTRACT_VERSION = 8"
definition WORKTREE_FRESHNESS_CONTRACT_VERSION :: nat where "WORKTREE_FRESHNESS_CONTRACT_VERSION = 8"

section \<open>Arguments\<close>

definition MAX_ARGUMENTS :: nat where "MAX_ARGUMENTS = 32"
definition MAX_STRING_BYTES :: nat where "MAX_STRING_BYTES = 4096"

definition valid_name :: "string \<Rightarrow> bool" where
  "valid_name name \<longleftrightarrow>
     name \<noteq> [] \<and> length name \<le> 64 \<and> is_ascii_lowercase (name ! 0) \<and>
     list_all (\<lambda>b. is_ascii_lowercase b \<or> is_ascii_digit b \<or> b = CHR ''_'' \<or> b = CHR ''-'') name"

definition is_native :: "ActionRunner \<Rightarrow> bool" where
  "is_native runner = (case runner of Native operation configuration \<Rightarrow> True | _ \<Rightarrow> False)"

definition is_nextest :: "ActionRunner \<Rightarrow> bool" where
  "is_nextest runner = (case runner of RustNextestV1 configuration \<Rightarrow> True | _ \<Rightarrow> False)"

definition focused_runner :: "ActionRunner \<Rightarrow> bool" where
  "focused_runner runner = (case runner of RustNextestV1 configuration \<Rightarrow> rn_focused configuration | _ \<Rightarrow> False)"

definition migration_action :: "ActionSpec \<Rightarrow> bool" where
  "migration_action action =
     (case a_runner action of Native operation configuration \<Rightarrow> operation = tool_MIGRATION_ADD | _ \<Rightarrow> False)"

fun check_declarations :: "ActionSpec \<Rightarrow> (string \<times> ActionArgumentSpec) list \<Rightarrow> argument_error option" where
  "check_declarations action [] = None"
| "check_declarations action ((name, spec) # rest) =
     ensure (valid_name name) (BadArgumentName (a_target action) name)
       (case spec of
          StringArgument required allow_empty max_bytes \<Rightarrow>
            ensure (1 \<le> max_bytes \<and> max_bytes \<le> MAX_STRING_BYTES) (BadMaxBytes (a_target action) name)
              (check_declarations action rest)
        | RustFocusArgument \<Rightarrow>
            ensure (name = ''focus'' \<and> focused_runner (a_runner action)) FocusNeedsFocusedRunner
              (check_declarations action rest))"

definition normalize_declarations :: "nat \<Rightarrow> ActionSpec \<Rightarrow> argument_error option" where
  "normalize_declarations version action =
     (if version < ACTION_EXECUTION_CONTRACT_VERSION
      then ensure (a_arguments action = []) (ArgumentsNeedVersion8 (a_target action)) None
      else
        ensure (length (a_arguments action) \<le> MAX_ARGUMENTS) (TooManyArguments (a_target action))
          (case check_declarations action (a_arguments action) of
             Some e \<Rightarrow> Some e
           | None \<Rightarrow>
               if is_native (a_runner action)
               then ensure (a_arguments action =
                      (if migration_action action then [(''name'', migration_name)] else []))
                      (NativeArgumentMismatch (a_target action)) None
               else None))"

type_synonym ActionArguments = "(string, string) btree_map"

fun unexpected_argument :: "(string \<Rightarrow> bool) \<Rightarrow> TargetId \<Rightarrow> string list \<Rightarrow> argument_error option" where
  "unexpected_argument accepts target [] = None"
| "unexpected_argument accepts target (name # rest) =
     ensure (accepts name) (UnexpectedArgument target name) (unexpected_argument accepts target rest)"

definition check_string_argument ::
    "TargetId \<Rightarrow> string \<Rightarrow> bool \<Rightarrow> bool \<Rightarrow> nat \<Rightarrow> string option \<Rightarrow> argument_error option" where
  "check_string_argument target name required allow_empty max_bytes value =
     (case value of
        None \<Rightarrow> if required then Some (MissingArgument target name) else None
      | Some v \<Rightarrow>
          ensure (allow_empty \<or> v \<noteq> []) (EmptyArgument target name)
            (ensure (length v \<le> max_bytes) (LongArgument target name)
              (ensure (CHR 0x00 \<notin> set v) (NulArgument target name) None)))"

fun bind_declared ::
    "repo_env \<Rightarrow> TargetId \<Rightarrow> (string \<times> ActionArgumentSpec) list \<Rightarrow> ActionArguments \<Rightarrow> argument_error + ActionArguments" where
  "bind_declared env target [] supplied = Inr supplied"
| "bind_declared env target ((name, spec) # rest) supplied =
     (case spec of
        RustFocusArgument \<Rightarrow>
          (case bt_get supplied name of
             None \<Rightarrow> bind_declared env target rest supplied
           | Some value \<Rightarrow>
               if 65536 < length value then Inl LongFocus
               else
                 (case re_focus_parse env value of
                    None \<Rightarrow> Inl MalformedFocus
                  | Some focus \<Rightarrow>
                      (case normalize_focus focus of
                         Inl e \<Rightarrow> Inl (FocusRejected e)
                       | Inr focus' \<Rightarrow>
                           bind_declared env target rest (bt_insert name (re_focus_print env focus') supplied))))
      | StringArgument required allow_empty max_bytes \<Rightarrow>
          (case check_string_argument target name required allow_empty max_bytes (bt_get supplied name) of
             Some e \<Rightarrow> Inl e
           | None \<Rightarrow> bind_declared env target rest supplied))"

definition bind :: "repo_env \<Rightarrow> nat \<Rightarrow> ActionSpec \<Rightarrow> ActionArguments \<Rightarrow> argument_error + ActionArguments" where
  "bind env version action supplied =
     (let target = a_target action in
      if version < ACTION_EXECUTION_CONTRACT_VERSION \<and> migration_action action then
        (case unexpected_argument (\<lambda>name. name = ''name'') target (bt_keys supplied) of
           Some e \<Rightarrow> Inl e
         | None \<Rightarrow>
             (case bt_get supplied ''name'' of
                None \<Rightarrow> Inl (MissingArgument target ''name'')
              | Some name \<Rightarrow>
                  if trim name \<noteq> [] \<and> take 1 name \<noteq> ''-'' then Inr supplied
                  else Inl (InvalidArgument target ''name'')))
      else
        (case unexpected_argument (\<lambda>name. bt_get (a_arguments action) name \<noteq> None) target (bt_keys supplied) of
           Some e \<Rightarrow> Inl e
         | None \<Rightarrow>
             (case bind_declared env target (a_arguments action) supplied of
                Inl e \<Rightarrow> Inl e
              | Inr bound \<Rightarrow>
                  if migration_action action then
                    (case bt_get bound ''name'' of
                       None \<Rightarrow> Inl (MissingArgument target ''name'')
                     | Some name \<Rightarrow>
                         if take 1 name \<noteq> ''-'' \<and>
                            list_ex (\<lambda>c. is_ascii_alphabetic c \<or> is_ascii_digit c) name
                         then Inr bound
                         else Inl (InvalidArgument target ''name''))
                  else Inr bound)))"

definition rsplit_once :: "char \<Rightarrow> string \<Rightarrow> (string \<times> string) option" where
  "rsplit_once c s =
     (case split_once c (rev s) of None \<Rightarrow> None | Some (b, a) \<Rightarrow> Some (rev a, rev b))"

definition parse_binding :: "string \<Rightarrow> binding_error + TargetId \<times> string \<times> string" where
  "parse_binding val =
     (case split_once (CHR ''='') val of
        None \<Rightarrow> Inl BindingSyntax
      | Some (binding, value) \<Rightarrow>
          (case rsplit_once (CHR '':'') binding of
             None \<Rightarrow> Inl BindingSyntax
           | Some (target_text, name) \<Rightarrow>
               (case parse_target target_text of
                  Inl e \<Rightarrow> Inl (BindingTarget e)
                | Inr target \<Rightarrow>
                    if valid_name name then Inr (target, name, value) else Inl (BindingName name))))"

fun parse_cli_values ::
    "(TargetId, ActionArguments) btree_map \<Rightarrow> string list \<Rightarrow> binding_error + (TargetId, ActionArguments) btree_map" where
  "parse_cli_values targets [] = Inr targets"
| "parse_cli_values targets (val # rest) =
     (case parse_binding val of
        Inl e \<Rightarrow> Inl e
      | Inr (target, name, value) \<Rightarrow>
          (let args = (case bt_get targets target of None \<Rightarrow> bt_empty | Some a \<Rightarrow> a) in
           if bt_get args name \<noteq> None then Inl (DuplicateBinding target name)
           else parse_cli_values (bt_insert target (bt_insert name value args) targets) rest))"

definition parse_cli :: "string list \<Rightarrow> binding_error + (TargetId, ActionArguments) btree_map" where
  "parse_cli values = parse_cli_values bt_empty values"

section \<open>Runners\<close>

fun check_argv :: "ActionSpec \<Rightarrow> ArgvValue list \<Rightarrow> runner_error option" where
  "check_argv action [] = None"
| "check_argv action (Literal v # rest) =
     ensure (CHR 0x00 \<notin> set v) (NulArgv (a_target action)) (check_argv action rest)"
| "check_argv action (Argument name # rest) =
     ensure (bt_get (a_arguments action) name \<noteq> None) (UndeclaredArgument (a_target action) name)
       (check_argv action rest)"

definition inputs_policy_or_default :: "ActionSpec \<Rightarrow> ActionInputsPolicy" where
  "inputs_policy_or_default action =
     (case a_inputs_policy action of None \<Rightarrow> WholeRepository | Some p \<Rightarrow> p)"

definition validate_nextest :: "nat \<Rightarrow> ActionSpec \<Rightarrow> RustNextestConfigV1 \<Rightarrow> runner_error option" where
  "validate_nextest version action configuration =
     ensure (ACTION_EXECUTION_CONTRACT_VERSION \<le> version) NextestNeedsVersion8
       (case validate_config configuration of
          Some e \<Rightarrow> Some (RunnerConfig e)
        | None \<Rightarrow>
            ensure (a_arguments action = (if rn_focused configuration then [(''focus'', RustFocusArgument)] else []))
              NextestArguments
              (ensure (a_legacy_aliases action = []) NextestAliases
                (ensure (a_intent action = Check \<and> a_result_parser action = ExitCode) NextestCheckOnly
                  (ensure (inputs_policy_or_default action = WholeRepository) NextestInputs None))))"

definition validate_environment :: "environment \<Rightarrow> runner_error option" where
  "validate_environment env = map_option RunnerEnvironment (validate_runner_environment env)"

definition validate_runner :: "nat \<Rightarrow> ActionSpec \<Rightarrow> runner_error option" where
  "validate_runner version action =
     (case a_runner action of
        RustNextestV1 configuration \<Rightarrow> validate_nextest version action configuration
      | Command command directory environment \<Rightarrow>
          ensure (version < ACTION_EXECUTION_CONTRACT_VERSION) (CommandRetired (a_target action)) None
      | Shell command directory environment \<Rightarrow>
          ensure (ACTION_EXECUTION_CONTRACT_VERSION \<le> version) (RunnerNeedsVersion8 (a_target action))
            (ensure (a_arguments action = []) (ShellArguments (a_target action))
              (validate_environment environment))
      | Argv program args directory environment \<Rightarrow>
          ensure (ACTION_EXECUTION_CONTRACT_VERSION \<le> version) (RunnerNeedsVersion8 (a_target action))
            (ensure (program \<noteq> [] \<and> CHR 0x00 \<notin> set program) (BadProgram (a_target action))
              (case validate_environment environment of
                 Some e \<Rightarrow> Some e
               | None \<Rightarrow> check_argv action args))
      | Native operation configuration \<Rightarrow> None)"

text \<open>The program and the arguments of the process that is spawned.\<close>

record command_line =
  cl_program :: string
  cl_args :: "string list"

fun argv_args :: "ArgvValue list \<Rightarrow> ActionArguments \<Rightarrow> string list" where
  "argv_args [] supplied = []"
| "argv_args (Literal v # rest) supplied = v # argv_args rest supplied"
| "argv_args (Argument name # rest) supplied =
     (case bt_get supplied name of
        Some v \<Rightarrow> v # argv_args rest supplied
      | None \<Rightarrow> argv_args rest supplied)"

definition argv_command :: "string \<Rightarrow> ArgvValue list \<Rightarrow> ActionArguments \<Rightarrow> command_line" where
  "argv_command program args supplied = \<lparr>cl_program = program, cl_args = argv_args args supplied\<rparr>"

section \<open>Resources\<close>

definition cargo_identity ::
    "repo_env \<Rightarrow> ActionSpec \<Rightarrow> string \<Rightarrow> string option \<Rightarrow> CargoImpactContextV1 \<Rightarrow> resource_error + string" where
  "cargo_identity env action workspace_manifest working_directory context =
     (if 4096 < length workspace_manifest then Inl LongManifest
      else
        (case normalize_portable_repo_path workspace_manifest of
           Inl e \<Rightarrow> Inl (ResourcePath e)
         | Inr manifest \<Rightarrow>
             if last (split_on (CHR ''/'') manifest) \<noteq> ''Cargo.toml'' then Inl NotACargoManifest
             else
               (let cwd = (case working_directory of None \<Rightarrow> ''.'' | Some d \<Rightarrow> d) in
                if 4096 < length cwd then Inl LongDirectory
                else
                  (case normalize_portable_repo_path cwd of
                     Inl e \<Rightarrow> Inl (ResourcePath e)
                   | Inr cwd \<Rightarrow>
                       (case validate_context context of
                          Some e \<Rightarrow> Inl (ResourceContext e)
                        | None \<Rightarrow>
                            if (case a_runner action of
                                  RustNextestV1 configuration \<Rightarrow>
                                    \<not> (manifest = rn_workspace_manifest configuration \<and>
                                        context = rn_context configuration \<and> cwd = ''.'')
                                | _ \<Rightarrow> False)
                            then Inl ResourceRunnerMismatch
                            else Inr (re_json_cargo env
                                   (manifest, cwd, context \<lparr>cc_features := sort_dedup (cc_features context)\<rparr>)))))))"

fun check_resources ::
    "repo_env \<Rightarrow> ActionSpec \<Rightarrow> string list \<Rightarrow> bool \<Rightarrow> ExecutionResourceV1 list \<Rightarrow> resource_error option" where
  "check_resources env action seen browser_seen [] = None"
| "check_resources env action seen browser_seen (CargoV1 manifest directory context # rest) =
     (case cargo_identity env action manifest directory context of
        Inl e \<Rightarrow> Some e
      | Inr ident \<Rightarrow>
          ensure (ident \<notin> set seen) (DuplicateCargo (a_target action))
            (check_resources env action (ident # seen) browser_seen rest))"
| "check_resources env action seen browser_seen (PlaywrightServersV1 # rest) =
     ensure (\<not> is_nextest (a_runner action)) (PlaywrightRunner (a_target action))
       (ensure (\<not> browser_seen) (DuplicatePlaywright (a_target action))
         (check_resources env action seen True rest))"

definition validate_resource_declarations :: "repo_env \<Rightarrow> ActionSpec \<Rightarrow> resource_error option" where
  "validate_resource_declarations env action =
     (if a_resources action = [] then None
      else
        ensure (length (a_resources action) \<le> 8) (TooManyResources (a_target action))
          (ensure (a_intent action = Check \<and> ReadOnly \<in> set (a_effects action) \<and>
                   Process \<in> set (a_effects action) \<and>
                   list_all (\<lambda>e. e = ReadOnly \<or> e = Process) (a_effects action))
             (ResourcesNeedCheck (a_target action))
             (if is_native (a_runner action) then Some (NativeResources (a_target action))
              else check_resources env action [] False (a_resources action))))"

text \<open>\<open>Sha256\<close>: the updates of a hasher concatenate.\<close>

definition conservative_action_input_digest :: "repo_env \<Rightarrow> nat \<Rightarrow> ActionSpec \<Rightarrow> string \<Rightarrow> string" where
  "conservative_action_input_digest env version action worktree_fingerprint =
     (let runner = re_json_runner env (a_runner action);
          declarations = re_json_arguments env (a_arguments action);
          resources = re_json_resources env (a_resources action) in
      ''sha256:'' @ hex (re_sha256 env
        ((if version < FILE_BUDGET_CONTRACT_VERSION then ''jig-target-input-v1'' else ''jig-target-input-v2'') @
         [CHR 0x00] @ target_display (a_target action) @ [CHR 0x00] @ worktree_fingerprint @
         concat (map (\<lambda>input. CHR 0x00 # input) (a_inputs action)) @
         (if FILE_BUDGET_CONTRACT_VERSION \<le> version
          then [CHR 0x00] @ be_bytes64 (length runner) @ runner else []) @
         (if ACTION_EXECUTION_CONTRACT_VERSION \<le> version
          then [CHR 0x00] @ be_bytes64 (length declarations) @ declarations else []) @
         (if a_resources action \<noteq> []
          then [CHR 0x00] @ ''jig-execution-resources-v1'' @ [CHR 0x00] @ be_bytes64 (length resources) @ resources
          else []))))"

section \<open>Inputs, native configuration and migrations\<close>

definition validate_inputs_policy :: "nat \<Rightarrow> ActionSpec \<Rightarrow> policy_error option" where
  "validate_inputs_policy epoch action =
     ensure (WORKTREE_FRESHNESS_CONTRACT_VERSION \<le> epoch \<or> a_source_state action = None)
       (SourceStateVersion (a_target action))
       (ensure (a_source_state action \<noteq> Some WorktreeState \<or> \<not> is_native (a_runner action))
         (NativeSourceState (a_target action))
         (ensure (TARGET_FRESHNESS_CONTRACT_VERSION \<le> epoch \<or> a_inputs_policy action = None)
           (InputsPolicyVersion (a_target action))
           (ensure (a_inputs_policy action \<noteq> Some Exhaustive \<or> a_inputs action \<noteq> [])
             (ExhaustiveNeedsInputs (a_target action))
             (ensure (a_inputs_policy action \<noteq> Some Exhaustive \<or>
                \<not> list_ex (\<lambda>input. ''.git'' \<in> set (split_on (CHR ''/'') input)) (a_inputs action))
               (ExhaustiveGitMetadata (a_target action)) None))))"

definition FILE_BUDGET_MAX_CANDIDATES_HARD_CAP_V1 :: u64 where
  "FILE_BUDGET_MAX_CANDIDATES_HARD_CAP_V1 = 250000"
definition FILE_BUDGET_MAX_TOTAL_BYTES_HARD_CAP_V1 :: u64 where
  "FILE_BUDGET_MAX_TOTAL_BYTES_HARD_CAP_V1 = 4 * 1024 * 1024 * 1024"

definition normalize_file_budget ::
    "ActionSpec \<Rightarrow> NativeActionConfigurationV1 option \<Rightarrow> policy_error + ActionSpec" where
  "normalize_file_budget action configuration =
     (let configuration = (case configuration of None \<Rightarrow> FileBudget default_file_budget | Some c \<Rightarrow> c);
          inputs = (if a_inputs action = [] then [''**''] else a_inputs action);
          action = action \<lparr>a_runner := Native tool_FILE_BUDGET (Some configuration), a_inputs := inputs\<rparr> in
      if inputs \<noteq> [''**''] then Inl (BudgetInputs (a_target action))
      else
        (case configuration of
           FileBudget config \<Rightarrow>
             if fb_max_candidates config = 0 \<or> FILE_BUDGET_MAX_CANDIDATES_HARD_CAP_V1 < fb_max_candidates config
             then Inl (BadMaxCandidates (a_target action))
             else if fb_max_total_bytes config = 0 \<or>
                     FILE_BUDGET_MAX_TOTAL_BYTES_HARD_CAP_V1 < fb_max_total_bytes config
             then Inl (BadMaxTotalBytes (a_target action))
             else Inr action))"

definition normalize_native_configuration :: "nat \<Rightarrow> ActionSpec \<Rightarrow> policy_error + ActionSpec" where
  "normalize_native_configuration version action =
     (case a_runner action of
        Native operation configuration \<Rightarrow>
          if version < FILE_BUDGET_CONTRACT_VERSION then
            (if operation = tool_FILE_BUDGET \<or> configuration \<noteq> None
             then Inl (BudgetVersion (a_target action)) else Inr action)
          else if operation \<noteq> tool_FILE_BUDGET then
            (if configuration \<noteq> None then Inl (NativeConfiguration (a_target action) operation)
             else Inr action)
          else normalize_file_budget action configuration
      | _ \<Rightarrow> Inr action)"

datatype MigrationBackend = Sqlx | Goose

definition native_migration_backend ::
    "ComponentSpec list \<Rightarrow> ActionSpec list \<Rightarrow> migration_error + MigrationBackend option" where
  "native_migration_backend components actions =
     (case filter migration_action actions of
        [] \<Rightarrow> Inr None
      | [action] \<Rightarrow>
          (let target = a_target action in
           if a_intent action \<noteq> Generate then Inl (MigrationIntent target)
           else if Worktree \<notin> set (a_effects action) then Inl (MigrationEffect target)
           else
             (case find (\<lambda>c. c_id c = t_component target) components of
                None \<Rightarrow> Inl (MigrationComponent target)
              | Some component \<Rightarrow>
                  (case (''sqlx'' \<in> set (c_adapters component), ''go-postgres'' \<in> set (c_adapters component)) of
                     (True, False) \<Rightarrow> Inr (Some Sqlx)
                   | (False, True) \<Rightarrow> Inr (Some Goose)
                   | (True, True) \<Rightarrow> Inl (MigrationBothAdapters target)
                   | (False, False) \<Rightarrow> Inl (MigrationNoAdapter target))))
      | owners \<Rightarrow> Inl (MultipleMigrationOwners (map a_target owners)))"

section \<open>Lemmas\<close>

subsection \<open>The command-line syntax\<close>

definition binding_text :: "TargetId \<Rightarrow> string \<Rightarrow> string \<Rightarrow> string" where
  "binding_text target name value = target_display target @ '':'' @ name @ ''='' @ value"

lemma rsplit_once_Some_iff:
  "rsplit_once c s = Some (a, b) \<longleftrightarrow> s = a @ c # b \<and> c \<notin> set b"
proof -
  have "split_once c (rev s) = Some (rev b, rev a) \<longleftrightarrow> s = a @ c # b \<and> c \<notin> set b"
    unfolding split_once_Some_iff using rev_rev_ident [of s] by (auto simp: rev_swap)
  moreover have "rsplit_once c s = Some (a, b) \<longleftrightarrow> split_once c (rev s) = Some (rev b, rev a)"
    by (auto simp: rsplit_once_def split: option.splits)
  ultimately show ?thesis by simp
qed

lemma valid_name_chars: "valid_name name \<Longrightarrow> CHR '':'' \<notin> set name \<and> CHR ''='' \<notin> set name"
  by (auto simp: valid_name_def list_all_iff is_ascii_lowercase_def is_ascii_digit_def)

lemma identifier_no_equals: "identifier_ok value \<Longrightarrow> CHR ''='' \<notin> set value"
  by (auto simp: identifier_ok_def list_all_iff is_ascii_lowercase_def is_ascii_digit_def)

lemma target_display_no_equals: "target_ok target \<Longrightarrow> CHR ''='' \<notin> set (target_display target)"
  by (simp add: target_ok_def target_display_def identifier_no_equals)

lemma parse_binding_Inr_iff:
  "parse_binding val = Inr (target, name, v) \<longleftrightarrow>
     val = binding_text target name v \<and> target_ok target \<and> valid_name name"
proof
  assume "parse_binding val = Inr (target, name, v)"
  then show "val = binding_text target name v \<and> target_ok target \<and> valid_name name"
    by (auto simp: parse_binding_def binding_text_def split_once_Some_iff rsplit_once_Some_iff
        parse_target_Inr_iff split: option.splits sum.splits if_splits)
next
  assume ok: "val = binding_text target name v \<and> target_ok target \<and> valid_name name"
  then have "split_once (CHR ''='') val = Some (target_display target @ CHR '':'' # name, v)"
    unfolding split_once_Some_iff
    by (simp add: binding_text_def target_display_no_equals valid_name_chars)
  moreover have "rsplit_once (CHR '':'') (target_display target @ CHR '':'' # name) = Some (target_display target, name)"
    unfolding rsplit_once_Some_iff using ok valid_name_chars by simp
  moreover have "parse_target (target_display target) = Inr target"
    using ok by (simp add: parse_target_Inr_iff)
  ultimately show "parse_binding val = Inr (target, name, v)"
    using ok by (simp add: parse_binding_def)
qed

definition bound_value :: "(TargetId, ActionArguments) btree_map \<Rightarrow> TargetId \<Rightarrow> string \<Rightarrow> string option" where
  "bound_value m target name = (case bt_get m target of None \<Rightarrow> None | Some args \<Rightarrow> bt_get args name)"

definition nested_wf :: "(TargetId, ActionArguments) btree_map \<Rightarrow> bool" where
  "nested_wf m \<longleftrightarrow> bt_wf m \<and> (\<forall>t args. bt_get m t = Some args \<longrightarrow> bt_wf args)"

lemma bound_value_insert:
  assumes "nested_wf m"
  shows "nested_wf (bt_insert t (bt_insert n v (case bt_get m t of None \<Rightarrow> bt_empty | Some a \<Rightarrow> a)) m) \<and>
    bound_value (bt_insert t (bt_insert n v (case bt_get m t of None \<Rightarrow> bt_empty | Some a \<Rightarrow> a)) m) t' n' =
      (if t' = t \<and> n' = n then Some v else bound_value m t' n')"
proof -
  let ?args = "case bt_get m t of None \<Rightarrow> bt_empty | Some a \<Rightarrow> a"
  have args: "bt_wf ?args" using assms by (auto simp: nested_wf_def simp del: split_paired_All split: option.splits)
  have "bt_get (bt_empty :: ActionArguments) n' = None" by (rule bt.get_empty)
  then show ?thesis
    using assms args bt.wf_put [of m t] bt.wf_put [OF args] bt.get_put [of m t] bt.get_put [OF args]
    by (auto simp: nested_wf_def bound_value_def simp del: split_paired_All split: option.splits)
qed

lemma parse_cli_values_Inr:
  assumes "parse_cli_values targets vals = Inr m" "nested_wf targets"
  shows "nested_wf m \<and>
    (\<forall>t n v. bound_value m t n = Some v \<longleftrightarrow>
       bound_value targets t n = Some v \<or> target_ok t \<and> valid_name n \<and> binding_text t n v \<in> set vals)"
  using assms
proof (induction targets vals rule: parse_cli_values.induct)
  case (2 targets val rest)
  from 2(2) obtain t n v where b: "parse_binding val = Inr (t, n, v)"
    by (auto split: sum.splits)
  let ?args = "case bt_get targets t of None \<Rightarrow> bt_empty | Some a \<Rightarrow> a"
  let ?next = "bt_insert t (bt_insert n v ?args) targets"
  from 2(2) b have fresh: "bt_get ?args n = None" and rest: "parse_cli_values ?next rest = Inr m"
    by (auto simp: Let_def split: if_splits)
  have ins: "nested_wf ?next" "bound_value ?next t' n' = (if t' = t \<and> n' = n then Some v else bound_value targets t' n')"
    for t' n' using bound_value_insert [OF 2(3)] by blast+
  have none: "bound_value targets t n = None"
    using fresh by (auto simp: bound_value_def split: option.splits)
  from 2(1) [OF b refl refl] fresh rest ins(1)
  have IH: "nested_wf m" "\<And>t' n' v'. bound_value m t' n' = Some v' \<longleftrightarrow>
       bound_value ?next t' n' = Some v' \<or> target_ok t' \<and> valid_name n' \<and> binding_text t' n' v' \<in> set rest"
    by (auto simp: Let_def)
  have val: "target_ok t' \<and> valid_name n' \<and> binding_text t' n' v' = val \<longleftrightarrow> t' = t \<and> n' = n \<and> v' = v" for t' n' v'
    using b parse_binding_Inr_iff [of val t n v] parse_binding_Inr_iff [of val t' n' v'] by auto
  have "bound_value m t' n' = Some v' \<longleftrightarrow> bound_value targets t' n' = Some v' \<or>
      target_ok t' \<and> valid_name n' \<and> binding_text t' n' v' \<in> set (val # rest)" for t' n' v'
    using none val [of t' n' v'] unfolding IH(2) ins(2) by auto
  with IH(1) show ?case by blast
qed simp

text \<open>
  C23. What the command-line arguments bind. When the values parse, an argument of a target
  has a value exactly when its \<open>TARGET:NAME=VALUE\<close> text is one of the values, with a valid
  target and a valid name: the value is taken up to the end, equals signs and colons
  included, and nothing is bound that was not written.
\<close>

theorem parse_cli_spec:
  assumes "parse_cli vals = Inr m"
  shows "bound_value m target name = Some v \<longleftrightarrow>
    target_ok target \<and> valid_name name \<and> binding_text target name v \<in> set vals"
proof -
  have "nested_wf bt_empty" "bound_value bt_empty target name = None"
    by (simp_all add: nested_wf_def bound_value_def bt.get_empty)
  then show ?thesis
    using parse_cli_values_Inr [of bt_empty vals m] assms by (simp add: parse_cli_def del: split_paired_All)
qed

theorem parse_cli_spec_witness:
  "(\<exists>m. parse_cli [''api:gen:msg=  a=b:c''] = Inr m \<and> bound_value m (''api'', ''gen'') ''msg'' = Some ''  a=b:c'')"
proof -
  have "parse_cli [''api:gen:msg=  a=b:c''] = Inr [((''api'', ''gen''), [(''msg'', ''  a=b:c'')])]"
    by code_simp
  moreover have "target_ok (''api'', ''gen'') \<and> valid_name ''msg'' \<and>
      binding_text (''api'', ''gen'') ''msg'' ''  a=b:c'' \<in> set [''api:gen:msg=  a=b:c'']"
    by code_simp
  ultimately show ?thesis using parse_cli_spec by blast
qed

subsection \<open>Binding and the literal command line\<close>

definition argument_ok :: "ActionArgumentSpec \<Rightarrow> string option \<Rightarrow> bool" where
  "argument_ok spec value \<longleftrightarrow>
     (case spec of
        RustFocusArgument \<Rightarrow> True
      | StringArgument required allow_empty max_bytes \<Rightarrow>
          (case value of
             None \<Rightarrow> \<not> required
           | Some v \<Rightarrow> (allow_empty \<or> v \<noteq> []) \<and> length v \<le> max_bytes \<and> CHR 0x00 \<notin> set v))"

lemma check_string_argument_None_iff:
  "check_string_argument target name required allow_empty max_bytes value = None \<longleftrightarrow>
     argument_ok (StringArgument required allow_empty max_bytes) value"
  by (auto simp: check_string_argument_def argument_ok_def split: option.splits)

lemma unexpected_argument_None_iff:
  "unexpected_argument accepts target names = None \<longleftrightarrow> list_all accepts names"
  by (induction names) auto

lemma bind_declared_Inr:
  assumes "bind_declared env target decls supplied = Inr bound" "bt_wf supplied" "distinct (map fst decls)"
  shows "bt_wf bound \<and> dom (bt_get bound) = dom (bt_get supplied) \<and>
    (\<forall>(name, spec) \<in> set decls. argument_ok spec (bt_get bound name)) \<and>
    (\<forall>name. (name, RustFocusArgument) \<notin> set decls \<longrightarrow> bt_get bound name = bt_get supplied name)"
  using assms
proof (induction env target decls supplied rule: bind_declared.induct)
  case (2 env target name spec rest supplied)
  show ?case
  proof (cases spec)
    case RustFocusArgument
    show ?thesis
    proof (cases "bt_get supplied name")
      case None
      then show ?thesis
        using 2 RustFocusArgument by (auto simp: argument_ok_def)
    next
      case (Some v)
      then obtain f g where fg: "re_focus_parse env v = Some f" "normalize_focus f = Inr g"
        "\<not> 65536 < length v"
        and rest: "bind_declared env target rest (bt_insert name (re_focus_print env g) supplied) = Inr bound"
        using 2(4) RustFocusArgument by (auto split: option.splits sum.splits if_splits)
      have get: "bt_get (bt_insert name (re_focus_print env g) supplied) = (bt_get supplied)(name \<mapsto> re_focus_print env g)"
        using 2(5) by (rule bt.get_put)
      have "distinct (map fst rest)" using 2(6) by simp
      from 2(2) [OF RustFocusArgument Some fg(3,1,2) rest bt.wf_put [OF 2(5)] this]
      show ?thesis using RustFocusArgument Some 2(6) by (auto simp: get argument_ok_def split: if_splits)
    qed
  next
    case (StringArgument required allow_empty max_bytes)
    then have ok: "check_string_argument target name required allow_empty max_bytes (bt_get supplied name) = None"
      and rest: "bind_declared env target rest supplied = Inr bound"
      using 2(4) by (auto split: option.splits)
    have d: "distinct (map fst rest)" "name \<notin> fst ` set rest" using 2(6) by auto
    have focus: "(name, RustFocusArgument) \<notin> set rest" using d(2) by force
    from 2(3) [OF StringArgument ok rest 2(5) d(1)]
    have IH: "bt_wf bound" "dom (bt_get bound) = dom (bt_get supplied)"
      "\<forall>(name, spec) \<in> set rest. argument_ok spec (bt_get bound name)"
      "\<forall>n. (n, RustFocusArgument) \<notin> set rest \<longrightarrow> bt_get bound n = bt_get supplied n" by auto
    then have "argument_ok spec (bt_get bound name)"
      using focus ok StringArgument by (simp add: check_string_argument_None_iff)
    then show ?thesis using IH StringArgument by auto
  qed
qed simp

definition declared_arguments_ok :: "ActionSpec \<Rightarrow> ActionArguments \<Rightarrow> bool" where
  "declared_arguments_ok action bound \<longleftrightarrow>
     list_all (\<lambda>(name, spec). argument_ok spec (bt_get bound name)) (a_arguments action) \<and>
     list_all (\<lambda>name. bt_get (a_arguments action) name \<noteq> None) (bt_keys bound)"

lemma bt_keys_dom: "set (bt_keys m) = dom (bt_get m)"
  by (simp add: bt_keys_def bt_get_def [abs_def] dom_map_of_conv_image_fst)

lemma bind_Inr:
  assumes "bind env version action supplied = Inr bound" "bt_wf supplied" "bt_wf (a_arguments action)"
    "ACTION_EXECUTION_CONTRACT_VERSION \<le> version"
  shows "declared_arguments_ok action bound \<and> bt_wf bound \<and> dom (bt_get bound) = dom (bt_get supplied) \<and>
    (\<forall>name. (name, RustFocusArgument) \<notin> set (a_arguments action) \<longrightarrow> bt_get bound name = bt_get supplied name)"
proof -
  have accepted: "list_all (\<lambda>name. bt_get (a_arguments action) name \<noteq> None) (bt_keys supplied)"
    and declared: "bind_declared env (a_target action) (a_arguments action) supplied = Inr bound"
    using assms(1,4)
    by (auto simp: bind_def Let_def unexpected_argument_None_iff split: if_splits option.splits sum.splits)
  from bind_declared_Inr [OF declared assms(2) bt_wf_distinct [OF assms(3)]] accepted
  show ?thesis
    by (auto simp: declared_arguments_ok_def list_all_iff bt_keys_dom)
qed

lemma argv_args_cases:
  "v \<in> set (argv_args args supplied) \<Longrightarrow>
     Literal v \<in> set args \<or> (\<exists>name. Argument name \<in> set args \<and> bt_get supplied name = Some v)"
  by (induction args supplied rule: argv_args.induct) (auto split: option.splits)

lemma length_argv_args: "length (argv_args args supplied) \<le> length args"
  by (induction args supplied rule: argv_args.induct) (auto split: option.splits)

lemma check_argv_None_iff:
  "check_argv action args = None \<longleftrightarrow>
     (\<forall>v. Literal v \<in> set args \<longrightarrow> CHR 0x00 \<notin> set v) \<and>
     (\<forall>name. Argument name \<in> set args \<longrightarrow> bt_get (a_arguments action) name \<noteq> None)"
  by (induction action args rule: check_argv.induct) auto

lemma check_declarations_focus:
  "check_declarations action decls = None \<Longrightarrow> (name, RustFocusArgument) \<in> set decls \<Longrightarrow> focused_runner (a_runner action)"
  by (induction action decls rule: check_declarations.induct) (auto split: ActionArgumentSpec.splits)

text \<open>
  C24. The command line of an \<open>argv\<close> action. For an action that passed the declaration and
  runner rules, with supplied values that were bound, the spawned program and every one of
  its arguments are free of NUL bytes, each argument is one literal of the contract or the
  whole supplied value of a declared argument, unchanged and within its declared length,
  and no value takes more than its one position.
\<close>

theorem argv_command_literal:
  assumes "a_runner action = Argv program args directory environment"
    "normalize_declarations version action = None" "validate_runner version action = None"
    "bind env version action supplied = Inr bound" "bt_wf supplied" "bt_wf (a_arguments action)"
  shows "list_all (\<lambda>v. CHR 0x00 \<notin> set v) (program # cl_args (argv_command program args bound)) \<and>
    length (cl_args (argv_command program args bound)) \<le> length args \<and>
    list_all (\<lambda>v. Literal v \<in> set args \<or>
        list_ex (\<lambda>(name, spec). Argument name \<in> set args \<and> bt_get supplied name = Some v \<and> argument_ok spec (Some v))
          (a_arguments action))
      (cl_args (argv_command program args bound))"
proof -
  have v8: "ACTION_EXECUTION_CONTRACT_VERSION \<le> version" and nul: "CHR 0x00 \<notin> set program"
    and argv: "check_argv action args = None"
    using assms(1,3) by (auto simp: validate_runner_def split: option.splits)
  have "check_declarations action (a_arguments action) = None"
    using assms(2) v8 by (auto simp: normalize_declarations_def split: option.splits)
  then have focus: "(name, RustFocusArgument) \<notin> set (a_arguments action)" for name
    using assms(1) check_declarations_focus [of action "a_arguments action" name] by (auto simp: focused_runner_def)
  from bind_Inr [OF assms(4,5,6) v8] focus
  have bound: "declared_arguments_ok action bound" "\<And>name. bt_get bound name = bt_get supplied name"
    by auto
  have one: "CHR 0x00 \<notin> set v \<and> (Literal v \<in> set args \<or>
      (\<exists>(name, spec) \<in> set (a_arguments action). Argument name \<in> set args \<and> bt_get supplied name = Some v \<and>
         argument_ok spec (Some v)))"
    if "v \<in> set (argv_args args bound)" for v
    using argv_args_cases [OF that]
  proof (elim disjE exE conjE)
    fix name assume name: "Argument name \<in> set args" "bt_get bound name = Some v"
    then obtain spec where "map_of (a_arguments action) name = Some spec"
      using argv by (auto simp: check_argv_None_iff bt_get_def)
    then have spec: "(name, spec) \<in> set (a_arguments action)" by (rule map_of_SomeD)
    then have "argument_ok spec (Some v)" "spec \<noteq> RustFocusArgument"
      using bound(1) name(2) focus by (auto simp: declared_arguments_ok_def list_all_iff)
    moreover from this have "CHR 0x00 \<notin> set v" by (cases spec) (auto simp: argument_ok_def)
    ultimately show ?thesis using name spec bound(2) by auto
  qed (use argv in \<open>auto simp: check_argv_None_iff\<close>)
  then show ?thesis
    using nul length_argv_args [of args bound]
    by (fastforce simp: argv_command_def list_all_iff list_ex_iff)
qed

definition sample_argv_action :: ActionSpec where
  "sample_argv_action =
     (new_action (''api'', ''gen'') Generate (Argv ''tool'' [Literal ''-m'', Argument ''msg''] None []))
       \<lparr>a_arguments := [(''msg'', StringArgument True False 20)]\<rparr>"

definition sample_repo_env :: repo_env where
  "sample_repo_env =
     \<lparr>re_focus_parse = (\<lambda>s. None), re_focus_print = (\<lambda>f. []), re_json_cargo = (\<lambda>(m, c, x). m @ c),
      re_json_runner = (\<lambda>r. []), re_json_arguments = (\<lambda>a. []), re_json_resources = (\<lambda>r. []),
      re_json_reason = (\<lambda>r. []), re_sha256 = (\<lambda>s. replicate 32 (CHR 0x00)),
      re_glob = (\<lambda>p. Some (\<lambda>s. s = p))\<rparr>"

theorem argv_command_literal_witness:
  "argv_command ''tool'' [Literal ''-m'', Argument ''msg''] [(''msg'', ''-rf x'')] =
     \<lparr>cl_program = ''tool'', cl_args = [''-m'', ''-rf x'']\<rparr> \<and>
   list_all (\<lambda>v. CHR 0x00 \<notin> set v)
     (''tool'' # cl_args (argv_command ''tool'' [Literal ''-m'', Argument ''msg''] [(''msg'', ''-rf x'')]))"
proof -
  have "normalize_declarations 8 sample_argv_action = None" "validate_runner 8 sample_argv_action = None"
    "bind sample_repo_env 8 sample_argv_action [(''msg'', ''-rf x'')] = Inr [(''msg'', ''-rf x'')]"
    by code_simp+
  moreover have "a_runner sample_argv_action = Argv ''tool'' [Literal ''-m'', Argument ''msg''] None []"
    "bt_wf [(''msg'', ''-rf x'')]" "bt_wf (a_arguments sample_argv_action)"
    by (simp_all add: sample_argv_action_def new_action_def bt_wf_def)
  ultimately show ?thesis
    using argv_command_literal [of sample_argv_action "''tool''" "[Literal ''-m'', Argument ''msg'']" None "[]" 8
        sample_repo_env "[(''msg'', ''-rf x'')]" "[(''msg'', ''-rf x'')]"]
    by (simp add: argv_command_def bt_get_def)
qed

subsection \<open>Native configuration\<close>

definition native_ok :: "nat \<Rightarrow> ActionSpec \<Rightarrow> bool" where
  "native_ok version action \<longleftrightarrow>
     (case a_runner action of
        Native operation configuration \<Rightarrow>
          (case configuration of
             None \<Rightarrow> operation \<noteq> tool_FILE_BUDGET
           | Some (FileBudget config) \<Rightarrow>
               operation = tool_FILE_BUDGET \<and> FILE_BUDGET_CONTRACT_VERSION \<le> version \<and>
               a_inputs action = [''**''] \<and>
               0 < unat (fb_max_candidates config) \<and> unat (fb_max_candidates config) \<le> 250000 \<and>
               0 < unat (fb_max_total_bytes config) \<and> unat (fb_max_total_bytes config) \<le> 2 ^ 32)
      | _ \<Rightarrow> True)"

lemma hard_caps:
  "FILE_BUDGET_MAX_CANDIDATES_HARD_CAP_V1 < w \<longleftrightarrow> 250000 < unat w"
  "FILE_BUDGET_MAX_TOTAL_BYTES_HARD_CAP_V1 < w \<longleftrightarrow> 2 ^ 32 < unat w"
  by (simp_all add: FILE_BUDGET_MAX_CANDIDATES_HARD_CAP_V1_def FILE_BUDGET_MAX_TOTAL_BYTES_HARD_CAP_V1_def
      word_less_nat_alt)

lemma unat_pos_iff: "0 < unat (w :: 'a::len word) \<longleftrightarrow> w \<noteq> 0"
  by (simp add: unat_gt_0)

lemma normalize_file_budget_Inr_iff:
  "normalize_file_budget action configuration = Inr action' \<longleftrightarrow>
     action' = action \<lparr>a_runner := Native tool_FILE_BUDGET
         (Some (case configuration of None \<Rightarrow> FileBudget default_file_budget | Some c \<Rightarrow> c)), a_inputs := [''**'']\<rparr> \<and>
     (a_inputs action = [] \<or> a_inputs action = [''**'']) \<and>
     (case (case configuration of None \<Rightarrow> FileBudget default_file_budget | Some c \<Rightarrow> c) of
        FileBudget config \<Rightarrow>
          0 < unat (fb_max_candidates config) \<and> unat (fb_max_candidates config) \<le> 250000 \<and>
          0 < unat (fb_max_total_bytes config) \<and> unat (fb_max_total_bytes config) \<le> 2 ^ 32)"
  by (auto simp: normalize_file_budget_def Let_def hard_caps unat_pos_iff not_less
      split: NativeActionConfigurationV1.splits if_splits)

lemma normalize_native_ok: "normalize_native_configuration version action = Inr action' \<Longrightarrow> native_ok version action'"
  by (auto simp: normalize_native_configuration_def native_ok_def normalize_file_budget_Inr_iff not_less
      split: ActionRunner.splits if_splits option.splits NativeActionConfigurationV1.splits)

lemma native_ok_fixed: "native_ok version action \<Longrightarrow> normalize_native_configuration version action = Inr action"
  by (auto simp: normalize_native_configuration_def native_ok_def normalize_file_budget_Inr_iff
      split: ActionRunner.splits option.splits NativeActionConfigurationV1.splits intro: ActionSpec.equality)

text \<open>
  C25. Normalising the native configuration establishes its invariant: a file-budget action
  has the configuration of a contract version that knows it, exactly the inputs that cover
  every path, and limits between one and the hard caps; no other operation carries a
  configuration. A normalised action is not changed again.
\<close>

theorem native_configuration_normalised:
  assumes "normalize_native_configuration version action = Inr action'"
  shows "native_ok version action' \<and> normalize_native_configuration version action' = Inr action'"
  using normalize_native_ok [OF assms] native_ok_fixed by blast

theorem native_configuration_normalised_witness:
  "native_ok 7 ((new_action (''repo'', ''budget'') Check (Native tool_FILE_BUDGET None))
      \<lparr>a_runner := Native tool_FILE_BUDGET (Some (FileBudget default_file_budget)), a_inputs := [''**'']\<rparr>)"
proof -
  have "normalize_native_configuration 7 (new_action (''repo'', ''budget'') Check (Native tool_FILE_BUDGET None)) =
     Inr ((new_action (''repo'', ''budget'') Check (Native tool_FILE_BUDGET None))
      \<lparr>a_runner := Native tool_FILE_BUDGET (Some (FileBudget default_file_budget)), a_inputs := [''**'']\<rparr>)"
    by (simp add: normalize_native_configuration_def new_action_def FILE_BUDGET_CONTRACT_VERSION_def
        normalize_file_budget_Inr_iff default_file_budget_def)
  then show ?thesis using native_configuration_normalised by blast
qed

end
