(* ===== verification/Dependency_Graph.thy ===== *)
theory Dependency_Graph
  imports Ordered_Map
begin

text \<open>
  The graph loops that \<open>crates/jig-repository/src/lib.rs\<close>, \<open>planner.rs\<close> and \<open>evidence.rs\<close>
  share: peeling off the layers of a dependency graph, walking along unresolved
  dependencies to a cycle, and closing a set under dependencies with a stack. The graph is
  a function from a record to the list of records it depends on.
\<close>

section \<open>Definitions\<close>

subsection \<open>Layers\<close>

text \<open>
  One round takes every remaining record whose dependencies are all completed; a round that
  takes none stops with what remains.
\<close>

definition ready_layer :: "('k \<Rightarrow> 'k list) \<Rightarrow> 'k list \<Rightarrow> 'k list \<Rightarrow> 'k list" where
  "ready_layer deps remaining completed =
     filter (\<lambda>t. list_all (\<lambda>d. d \<in> set completed) (deps t)) remaining"

function layer_loop :: "('k \<Rightarrow> 'k list) \<Rightarrow> 'k list \<Rightarrow> 'k list \<Rightarrow> 'k list + 'k list list" where
  "layer_loop deps remaining completed =
     (if remaining = [] then Inr []
      else
        (let layer = ready_layer deps remaining completed in
         if layer = [] then Inl remaining
         else
           (case layer_loop deps (filter (\<lambda>t. t \<notin> set layer) remaining) (completed @ layer) of
              Inl stuck \<Rightarrow> Inl stuck
            | Inr layers \<Rightarrow> Inr (layer # layers))))"
  by pat_completeness auto

termination layer_loop
proof (relation "measure (\<lambda>(deps, remaining, completed). length remaining)", goal_cases)
  case (2 deps remaining completed layer)
  then have "set layer \<subseteq> set remaining" "layer \<noteq> []" by (auto simp: ready_layer_def)
  then obtain t where "t \<in> set layer" "t \<in> set remaining" by (cases layer) auto
  then have "length (filter (\<lambda>t. t \<notin> set layer) remaining) < length remaining"
    by (auto intro: length_filter_less)
  then show ?case by simp
qed simp

declare layer_loop.simps [simp del]

subsection \<open>A walk to a cycle\<close>

text \<open>
  From a record that is stuck, follow the first dependency that is stuck too, until a
  record comes up for the second time. The value \<open>None\<close> is the failed expectation that an
  unresolved record has an unresolved dependency.
\<close>

function cycle_walk :: "('k \<Rightarrow> 'k list) \<Rightarrow> 'k list \<Rightarrow> 'k list \<Rightarrow> 'k \<Rightarrow> 'k list option" where
  "cycle_walk deps remaining path current =
     (if current \<in> set path then Some (dropWhile (\<lambda>k. k \<noteq> current) path @ [current])
      else
        (case find (\<lambda>d. d \<in> set remaining) (deps current) of
           None \<Rightarrow> None
         | Some next \<Rightarrow> cycle_walk deps remaining (path @ [current]) next))"
  by pat_completeness auto

termination cycle_walk
proof (relation "measures [\<lambda>(deps, remaining, path, current).
    card (set remaining - set path) + (if current \<in> set remaining then 0 else 1)]", goal_cases)
  case (2 deps remaining path current nxt)
  then have "nxt \<in> set remaining" by (auto simp: find_Some_iff)
  moreover have "card (set remaining - set (path @ [current])) < card (set remaining - set path)"
    if "current \<in> set remaining"
    using that 2(1) by (intro psubset_card_mono) auto
  moreover have "set remaining - set (path @ [current]) = set remaining - set path"
    if "current \<notin> set remaining" using that by auto
  ultimately show ?case by auto
qed simp

declare cycle_walk.simps [simp del]

section \<open>Lemmas\<close>

subsection \<open>Layers\<close>

definition edges :: "('k \<Rightarrow> 'k list) \<Rightarrow> 'k set \<Rightarrow> ('k \<times> 'k) set" where
  "edges deps S = {(d, t). t \<in> S \<and> d \<in> S \<and> d \<in> set (deps t)}"

definition closed_under :: "('k \<Rightarrow> 'k list) \<Rightarrow> 'k set \<Rightarrow> bool" where
  "closed_under deps S \<longleftrightarrow> (\<forall>t \<in> S. set (deps t) \<subseteq> S)"

text \<open>
  A schedule: every record's dependencies are completed before its layer starts.
\<close>

fun scheduled :: "('k \<Rightarrow> 'k list) \<Rightarrow> 'k set \<Rightarrow> 'k list list \<Rightarrow> bool" where
  "scheduled deps done [] \<longleftrightarrow> True"
| "scheduled deps done (layer # layers) \<longleftrightarrow>
     layer \<noteq> [] \<and> list_all (\<lambda>t. set (deps t) \<subseteq> done) layer \<and> scheduled deps (done \<union> set layer) layers"

lemma set_ready_layer:
  "set (ready_layer deps remaining completed) = {t \<in> set remaining. set (deps t) \<subseteq> set completed}"
  by (auto simp: ready_layer_def list_all_iff)

lemma layer_loop_Nil [simp]: "layer_loop deps [] completed = Inr []"
  by (subst layer_loop.simps) simp

lemma layer_loop_Inr:
  assumes "layer_loop deps remaining completed = Inr layers"
  shows "set (concat layers) = set remaining \<and> scheduled deps (set completed) layers \<and>
    (distinct remaining \<longrightarrow> distinct (concat layers))"
  using assms
proof (induction deps remaining completed arbitrary: layers rule: layer_loop.induct)
  case (1 deps remaining completed)
  let ?layer = "ready_layer deps remaining completed"
  show ?case
  proof (cases "remaining = []")
    case True
    then show ?thesis using 1(2) by simp
  next
    case False
    with 1(2) obtain rest where layer: "?layer \<noteq> []" and layers: "layers = ?layer # rest"
      and rest: "layer_loop deps (filter (\<lambda>t. t \<notin> set ?layer) remaining) (completed @ ?layer) = Inr rest"
      by (subst (asm) layer_loop.simps) (auto simp: Let_def split: if_splits sum.splits)
    from 1(1) [OF False refl layer rest]
    have "set (concat rest) = set remaining - set ?layer" "scheduled deps (set completed \<union> set ?layer) rest"
      "distinct remaining \<longrightarrow> distinct (concat rest)" by auto
    moreover have "set ?layer \<subseteq> set remaining" "distinct remaining \<longrightarrow> distinct ?layer"
      by (auto simp: ready_layer_def)
    moreover have "list_all (\<lambda>t. set (deps t) \<subseteq> set completed) ?layer"
      by (simp add: list_all_iff set_ready_layer)
    ultimately show ?thesis using layer layers by auto
  qed
qed

lemma layer_loop_Inl:
  assumes "layer_loop deps remaining completed = Inl stuck"
  shows "stuck \<noteq> [] \<and> set stuck \<subseteq> set remaining \<and>
    (\<exists>done. set completed \<subseteq> done \<and> done \<subseteq> set completed \<union> set remaining \<and>
      set remaining - set stuck \<subseteq> done \<and> (\<forall>t \<in> set stuck. \<not> set (deps t) \<subseteq> done))"
  using assms
proof (induction deps remaining completed rule: layer_loop.induct)
  case (1 deps remaining completed)
  let ?layer = "ready_layer deps remaining completed"
  from 1(2) have rem: "remaining \<noteq> []" by auto
  show ?case
  proof (cases "?layer = []")
    case True
    then have "stuck = remaining" using 1(2) rem by (subst (asm) layer_loop.simps) simp
    moreover have "\<forall>t \<in> set remaining. \<not> set (deps t) \<subseteq> set completed"
      using True set_ready_layer [of deps remaining completed] by auto
    ultimately show ?thesis using rem by (intro conjI exI [of _ "set completed"]) auto
  next
    case False
    then have "layer_loop deps (filter (\<lambda>t. t \<notin> set ?layer) remaining) (completed @ ?layer) = Inl stuck"
      using 1(2) rem by (subst (asm) layer_loop.simps) (auto simp: Let_def split: if_splits sum.splits)
    from 1(1) [OF rem refl False this] obtain "done" where stuck: "stuck \<noteq> []"
      and sub: "set stuck \<subseteq> set (filter (\<lambda>t. t \<notin> set ?layer) remaining)"
      and lo: "set (completed @ ?layer) \<subseteq> done"
      and hi: "done \<subseteq> set (completed @ ?layer) \<union> set (filter (\<lambda>t. t \<notin> set ?layer) remaining)"
      and rest: "set (filter (\<lambda>t. t \<notin> set ?layer) remaining) - set stuck \<subseteq> done"
      and blocked: "\<forall>t \<in> set stuck. \<not> set (deps t) \<subseteq> done"
      by blast
    have layer: "set ?layer \<subseteq> set remaining" by (auto simp: ready_layer_def)
    show ?thesis
    proof (intro conjI exI [of _ "done"])
      show "stuck \<noteq> []" by (rule stuck)
      show "set stuck \<subseteq> set remaining" using sub by auto
      show "set completed \<subseteq> done" using lo by simp
      show "done \<subseteq> set completed \<union> set remaining" using hi layer by auto
      show "set remaining - set stuck \<subseteq> done" using rest lo by auto
      show "\<forall>t \<in> set stuck. \<not> set (deps t) \<subseteq> done" by (rule blocked)
    qed
  qed
qed

lemma stuck_has_stuck_dependency:
  assumes "layer_loop deps remaining [] = Inl stuck" "closed_under deps (set remaining)" "t \<in> set stuck"
  shows "\<exists>d \<in> set (deps t). d \<in> set stuck"
proof -
  from layer_loop_Inl [OF assms(1)] obtain "done" where d: "set remaining - set stuck \<subseteq> done"
    "\<not> set (deps t) \<subseteq> done" "set stuck \<subseteq> set remaining" using assms(3) by auto
  then obtain x where "x \<in> set (deps t)" "x \<notin> done" by auto
  moreover have "x \<in> set remaining"
    using assms(2,3) d(3) \<open>x \<in> set (deps t)\<close> by (auto simp: closed_under_def)
  ultimately show ?thesis using d(1) by auto
qed

fun layer_rank :: "'k list list \<Rightarrow> 'k \<Rightarrow> nat" where
  "layer_rank [] t = 0"
| "layer_rank (layer # layers) t = (if t \<in> set layer then 0 else Suc (layer_rank layers t))"

lemma scheduled_rank:
  assumes "scheduled deps done layers" "t \<in> set (concat layers)" "d \<in> set (deps t)" "d \<notin> done"
    "distinct (concat layers)"
  shows "d \<in> set (concat layers) \<and> layer_rank layers d < layer_rank layers t"
  using assms
proof (induction deps "done" layers rule: scheduled.induct)
  case (2 deps "done" layer layers)
  then have t: "t \<notin> set layer" by (auto simp: list_all_iff)
  show ?case
  proof (cases "d \<in> set layer")
    case True
    then show ?thesis using t by simp
  next
    case False
    then show ?thesis using 2 t by auto
  qed
qed simp

lemma layer_loop_Inr_acyclic:
  assumes "layer_loop deps remaining [] = Inr layers" "distinct remaining"
  shows "acyclic (edges deps (set remaining))"
proof (rule acyclic_subset [OF wf_acyclic])
  show "wf (measure (layer_rank layers))" by simp
  show "edges deps (set remaining) \<subseteq> measure (layer_rank layers)"
    using layer_loop_Inr [OF assms(1)] assms(2) scheduled_rank [of deps "{}" layers]
    by (auto simp: edges_def)
qed

lemma layer_loop_Inl_cyclic:
  assumes "layer_loop deps remaining [] = Inl stuck" "closed_under deps (set remaining)"
  shows "\<not> acyclic (edges deps (set remaining))"
proof
  assume "acyclic (edges deps (set remaining))"
  moreover have "finite (edges deps (set remaining))"
    by (rule finite_subset [of _ "set remaining \<times> set remaining"]) (auto simp: edges_def)
  ultimately have "wf (edges deps (set remaining))" by (rule finite_acyclic_wf [rotated])
  moreover have "stuck \<noteq> []" "set stuck \<subseteq> set remaining" using layer_loop_Inl [OF assms(1)] by auto
  ultimately obtain t where "t \<in> set stuck" "\<forall>d. (d, t) \<in> edges deps (set remaining) \<longrightarrow> d \<notin> set stuck"
    by (metis wf_eq_minimal list.set_sel(1))
  with stuck_has_stuck_dependency [OF assms] \<open>set stuck \<subseteq> set remaining\<close> show False
    by (fastforce simp: edges_def)
qed

lemma layer_loop_acyclic_iff:
  assumes "distinct remaining" "closed_under deps (set remaining)"
  shows "(\<exists>layers. layer_loop deps remaining [] = Inr layers) \<longleftrightarrow> acyclic (edges deps (set remaining))"
  using layer_loop_Inr_acyclic [OF _ assms(1)] layer_loop_Inl_cyclic [OF _ assms(2)]
  by (cases "layer_loop deps remaining []") auto

subsection \<open>The walk\<close>

fun is_walk :: "('k \<Rightarrow> 'k list) \<Rightarrow> 'k list \<Rightarrow> bool" where
  "is_walk deps [] \<longleftrightarrow> True"
| "is_walk deps [k] \<longleftrightarrow> True"
| "is_walk deps (a # b # rest) \<longleftrightarrow> b \<in> set (deps a) \<and> is_walk deps (b # rest)"

definition is_cycle :: "('k \<Rightarrow> 'k list) \<Rightarrow> 'k list \<Rightarrow> bool" where
  "is_cycle deps cycle \<longleftrightarrow> 2 \<le> length cycle \<and> hd cycle = last cycle \<and> is_walk deps cycle"

lemma is_walk_append: "is_walk deps (xs @ [a, b]) \<longleftrightarrow> is_walk deps (xs @ [a]) \<and> b \<in> set (deps a)"
  by (induction deps xs rule: is_walk.induct) auto

lemma is_walk_suffix: "is_walk deps (xs @ ys) \<Longrightarrow> is_walk deps ys"
proof (induction xs)
  case (Cons x xs)
  then show ?case by (cases "xs @ ys") auto
qed simp

lemma cycle_walk_is_cycle:
  assumes "cycle_walk deps remaining path current = Some cycle" "is_walk deps (path @ [current])"
    "set path \<subseteq> set remaining" "current \<in> set remaining"
  shows "is_cycle deps cycle \<and> set cycle \<subseteq> set remaining"
  using assms
proof (induction deps remaining path current rule: cycle_walk.induct)
  case (1 deps remaining path current)
  show ?case
  proof (cases "current \<in> set path")
    case True
    then have cycle: "cycle = dropWhile (\<lambda>k. k \<noteq> current) path @ [current]"
      using 1(2) by (subst (asm) cycle_walk.simps) simp
    moreover have "path @ [current] = takeWhile (\<lambda>k. k \<noteq> current) path @ cycle"
      using cycle by simp
    ultimately have "is_walk deps cycle" using 1(3) is_walk_suffix by metis
    moreover have "dropWhile (\<lambda>k. k \<noteq> current) path \<noteq> []" "hd (dropWhile (\<lambda>k. k \<noteq> current) path) = current"
      using True hd_dropWhile [of "\<lambda>k. k \<noteq> current" path] by (auto simp: dropWhile_eq_Nil_conv)
    moreover have "set (dropWhile (\<lambda>k. k \<noteq> current) path) \<subseteq> set path"
      by (auto dest: set_dropWhileD)
    ultimately show ?thesis
      using cycle 1(4,5) by (cases "dropWhile (\<lambda>k. k \<noteq> current) path") (auto simp: is_cycle_def)
  next
    case False
    with 1(2) obtain nxt where nxt: "find (\<lambda>d. d \<in> set remaining) (deps current) = Some nxt"
      "cycle_walk deps remaining (path @ [current]) nxt = Some cycle"
      by (subst (asm) cycle_walk.simps) (auto split: option.splits)
    then have "nxt \<in> set (deps current)" "nxt \<in> set remaining" by (auto simp: find_Some_iff)
    then show ?thesis using 1(1) [OF False nxt(1) nxt(2)] 1(3-5) by (simp add: is_walk_append)
  qed
qed

lemma cycle_walk_Some:
  assumes "\<forall>t \<in> set remaining. \<exists>d \<in> set (deps t). d \<in> set remaining" "current \<in> set remaining"
  shows "\<exists>cycle. cycle_walk deps remaining path current = Some cycle"
  using assms
proof (induction deps remaining path current rule: cycle_walk.induct)
  case (1 deps remaining path current)
  show ?case
  proof (cases "current \<in> set path")
    case True
    then show ?thesis by (subst cycle_walk.simps) simp
  next
    case False
    from 1(2,3) obtain nxt where nxt: "find (\<lambda>d. d \<in> set remaining) (deps current) = Some nxt"
      by (metis find_None_iff not_Some_eq)
    then have "nxt \<in> set remaining" by (auto simp: find_Some_iff)
    then show ?thesis using 1(1) [OF False nxt 1(2)] False nxt
      by (subst cycle_walk.simps) simp
  qed
qed

subsection \<open>Closing a set under dependencies with a stack\<close>

text \<open>
  The container of the closure: adding a record adds its key and nothing else. The first
  argument of \<open>add\<close> is the record whose dependency is added.
\<close>

locale worklist =
  fixes keys :: "'s \<Rightarrow> 'k set"
    and add :: "'k \<Rightarrow> 'k \<Rightarrow> 's \<Rightarrow> 's"
  assumes keys_add: "keys (add t d s) = insert d (keys s)"
begin

lemma keys_push:
  "keys (fst (fold (\<lambda>d (s, ps). (add t d s, if d \<in> keys s then ps else d # ps)) ds (s, ps))) = keys s \<union> set ds"
  by (induction ds arbitrary: s ps) (auto simp: keys_add)

lemma stack_push:
  "set (snd (fold (\<lambda>d (s, ps). (add t d s, if d \<in> keys s then ps else d # ps)) ds (s, ps))) =
     set ps \<union> (set ds - keys s)"
  by (induction ds arbitrary: s ps) (auto simp: keys_add)

lemma stack_unchanged:
  "set ds \<subseteq> keys s \<Longrightarrow>
     snd (fold (\<lambda>d (s, ps). (add t d s, if d \<in> keys s then ps else d # ps)) ds (s, ps)) = ps"
proof (induction ds arbitrary: s ps)
  case (Cons d ds)
  then have "set ds \<subseteq> keys (add t d s)" by (auto simp: keys_add)
  with Cons show ?case by simp
qed simp

lemma push_decreases:
  assumes "finite U" "set ds \<subseteq> U"
    "fold (\<lambda>d (s, ps). (add t d s, if d \<in> keys s then ps else d # ps)) ds (s, rest) = (s', ps')"
  shows "card (U - keys s') < card (U - keys s) \<or> card (U - keys s') = card (U - keys s) \<and> ps' = rest"
proof (cases "set ds \<subseteq> keys s")
  case True
  then have "keys s' = keys s" "ps' = rest"
    using keys_push [of t ds s rest] stack_unchanged [OF True, of t rest] assms(3) by auto
  then show ?thesis by simp
next
  case False
  have "keys s' = keys s \<union> set ds" using keys_push [of t ds s rest] assms(3) by simp
  then have "card (U - keys s') < card (U - keys s)"
    using False assms(1,2) by (intro psubset_card_mono) auto
  then show ?thesis by simp
qed

end

text \<open>
  The loop: pop a record, fail when it is not defined, add its dependencies and push those
  that are new.
\<close>

locale worklist_loop = worklist keys add
  for keys :: "'s \<Rightarrow> 'k set" and add +
  fixes get :: "'k \<Rightarrow> 'v option"
    and deps :: "'v \<Rightarrow> 'k list"
    and loop :: "'k list \<Rightarrow> 's \<Rightarrow> 'k + 's"
  assumes finite_records: "finite (dom get)"
    and loop_Nil: "loop [] s = Inr s"
    and loop_undefined: "get t = None \<Longrightarrow> loop (t # rest) s = Inl t"
    and loop_step: "get t = Some v \<Longrightarrow>
      fold (\<lambda>d (s, ps). (add t d s, if d \<in> keys s then ps else d # ps)) (deps v) (s, rest) = (s', ps') \<Longrightarrow>
      loop (t # rest) s = loop ps' s'"
begin

definition depends :: "('k \<times> 'k) set" where
  "depends = {(t, d). \<exists>v. get t = Some v \<and> d \<in> set (deps v)}"

definition universe :: "'k set" where
  "universe = (\<Union>v \<in> ran get. set (deps v))"

definition visited :: "'k list \<Rightarrow> 's \<Rightarrow> bool" where
  "visited pending s \<longleftrightarrow>
     set pending \<subseteq> keys s \<and>
     (\<forall>t \<in> keys s - set pending. \<exists>v. get t = Some v \<and> set (deps v) \<subseteq> keys s)"

lemma finite_universe: "finite universe"
  unfolding universe_def using finite_records by (auto simp: finite_ran)

lemma visited_step:
  assumes "visited (t # rest) s" "get t = Some v"
    "fold (\<lambda>d (s, ps). (add t d s, if d \<in> keys s then ps else d # ps)) (deps v) (s, rest) = (s', ps')"
  shows "visited ps' s' \<and> keys s' = keys s \<union> set (deps v)"
proof -
  have keys': "keys s' = keys s \<union> set (deps v)" and ps': "set ps' = set rest \<union> (set (deps v) - keys s)"
    using keys_push [of t "deps v" s rest] stack_push [of t "deps v" s rest] assms(3) by auto
  have "\<exists>w. get x = Some w \<and> set (deps w) \<subseteq> keys s'" if x: "x \<in> keys s' - set ps'" for x
  proof (cases "x = t")
    case False
    then have "x \<in> keys s - set (t # rest)" using x keys' ps' by auto
    then show ?thesis using assms(1) keys' unfolding visited_def by blast
  qed (use assms(2) keys' in auto)
  moreover have "set ps' \<subseteq> keys s'" using assms(1) keys' ps' by (auto simp: visited_def)
  ultimately show ?thesis using keys' by (simp add: visited_def)
qed

lemma loop_correct:
  assumes "visited pending s"
  shows "(case loop pending s of
      Inr s' \<Rightarrow> keys s' = depends\<^sup>* `` keys s \<and> keys s' \<subseteq> dom get
    | Inl t \<Rightarrow> t \<in> depends\<^sup>* `` keys s \<and> t \<notin> dom get)"
  using assms
proof (induction "(pending, s)" arbitrary: pending s
    rule: wf_induct_rule [OF wf_measures, of "[\<lambda>(ps, s). card (universe - keys s), \<lambda>(ps, s). length ps]"])
  case 1
  show ?case
  proof (cases pending)
    case Nil
    then have closed: "\<forall>t \<in> keys s. \<exists>v. get t = Some v \<and> set (deps v) \<subseteq> keys s"
      using 1(2) by (simp add: visited_def)
    then have "depends\<^sup>* `` keys s = keys s"
      by (intro Image_closed_trancl) (fastforce simp: depends_def)
    then show ?thesis using Nil closed by (auto simp: loop_Nil)
  next
    case (Cons t rest)
    then have t: "t \<in> keys s" using 1(2) by (simp add: visited_def)
    show ?thesis
    proof (cases "get t")
      case None
      then show ?thesis using Cons t by (auto simp: loop_undefined)
    next
      case (Some v)
      obtain s' ps' where push:
        "fold (\<lambda>d (s, ps). (add t d s, if d \<in> keys s then ps else d # ps)) (deps v) (s, rest) = (s', ps')"
        by (cases "fold (\<lambda>d (s, ps). (add t d s, if d \<in> keys s then ps else d # ps)) (deps v) (s, rest)") auto
      have step: "loop pending s = loop ps' s'" using loop_step [OF Some push] Cons by simp
      have v: "visited ps' s'" "keys s' = keys s \<union> set (deps v)"
        using visited_step [OF _ Some push] 1(2) Cons by auto
      have "set (deps v) \<subseteq> universe" using Some by (auto simp: universe_def intro: ranI)
      from push_decreases [OF finite_universe this push]
      have "((ps', s'), (pending, s)) \<in> measures [\<lambda>(ps, s). card (universe - keys s), \<lambda>(ps, s). length ps]"
        using Cons by auto
      from 1(1) [OF this v(1)] have IH: "case loop ps' s' of
          Inr u \<Rightarrow> keys u = depends\<^sup>* `` keys s' \<and> keys u \<subseteq> dom get
        | Inl t \<Rightarrow> t \<in> depends\<^sup>* `` keys s' \<and> t \<notin> dom get" .
      have "(t, d) \<in> depends" if "d \<in> set (deps v)" for d using that Some by (auto simp: depends_def)
      then have "depends\<^sup>* `` keys s' = depends\<^sup>* `` keys s"
        using v(2) t by (auto intro: converse_rtrancl_into_rtrancl)
      then show ?thesis using IH by (simp only: step)
    qed
  qed
qed

lemma loop_from_keys:
  assumes "set pending = keys s"
  shows "(case loop pending s of
      Inr s' \<Rightarrow> keys s' = depends\<^sup>* `` keys s \<and> keys s' \<subseteq> dom get
    | Inl t \<Rightarrow> t \<in> depends\<^sup>* `` keys s \<and> t \<notin> dom get)"
  by (rule loop_correct) (use assms in \<open>simp add: visited_def\<close>)

end

end
