(* ===== verification/Catalog.thy ===== *)
theory Catalog
  imports Actions Dependency_Graph
begin

text \<open>
  \<open>crates/jig-repository/src/lib.rs\<close> and the path policy of \<open>affected.rs\<close>: the canonical
  selectors, the admission of a repository catalog from the native records of a contract,
  and the closure of read-only checks.
\<close>

section \<open>Selectors\<close>

datatype 'a SelectorPart = Any | Exact 'a

definition part_matches :: "string SelectorPart \<Rightarrow> string \<Rightarrow> bool" where
  "part_matches part value = (case part of Any \<Rightarrow> True | Exact expected \<Rightarrow> expected = value)"

datatype RepositorySelector =
    ActionSelector "ActionId SelectorPart"
  | TargetSelector "ComponentId SelectorPart" "ActionId SelectorPart"

datatype selector_error = SelectorColons string | SelectorPartError IdentifierError

definition parse_selector_part :: "identifier_kind \<Rightarrow> string \<Rightarrow> selector_error + string SelectorPart" where
  "parse_selector_part kind value =
     (if value = ''*'' then Inr Any
      else (case parse_identifier kind value of Inl e \<Rightarrow> Inl (SelectorPartError e) | Inr i \<Rightarrow> Inr (Exact i)))"

definition parse_selector :: "string \<Rightarrow> selector_error + RepositorySelector" where
  "parse_selector value =
     (case split_once (CHR '':'') value of
        Some (component, action) \<Rightarrow>
          if CHR '':'' \<in> set action then Inl (SelectorColons value)
          else
            (case parse_selector_part ComponentKind component of
               Inl e \<Rightarrow> Inl e
             | Inr c \<Rightarrow>
                 (case parse_selector_part ActionKind action of
                    Inl e \<Rightarrow> Inl e
                  | Inr a \<Rightarrow> Inr (TargetSelector c a)))
      | None \<Rightarrow>
          (case parse_selector_part ActionKind value of
             Inl e \<Rightarrow> Inl e
           | Inr a \<Rightarrow> Inr (ActionSelector a)))"

primrec selector_matches :: "RepositorySelector \<Rightarrow> TargetId \<Rightarrow> bool" where
  "selector_matches (ActionSelector action) target = part_matches action (t_action target)"
| "selector_matches (TargetSelector component action) target =
     (part_matches component (t_component target) \<and> part_matches action (t_action target))"

section \<open>The closure of read-only checks\<close>

datatype closure_error =
    DuplicateClosureTarget TargetId
  | UndefinedTarget TargetId
  | NotAReadOnlyCheck TargetId ActionIntent "ActionEffect list"
  | ActionCycle "TargetId list"
  | MissingSelected

definition read_only_check :: "ActionSpec \<Rightarrow> bool" where
  "read_only_check action \<longleftrightarrow>
     \<not> (a_intent action \<noteq> Check \<or> ReadOnly \<notin> set (a_effects action) \<or>
         Worktree \<in> set (a_effects action) \<or> External \<in> set (a_effects action))"

fun index_actions :: "(TargetId, ActionSpec) btree_map \<Rightarrow> ActionSpec list \<Rightarrow>
    closure_error + (TargetId, ActionSpec) btree_map" where
  "index_actions m [] = Inr m"
| "index_actions m (action # rest) =
     (if bt_get m (a_target action) \<noteq> None then Inl (DuplicateClosureTarget (a_target action))
      else index_actions (bt_insert (a_target action) action m) rest)"

text \<open>The dependencies of a record that is present; the loops look up no other.\<close>

definition deps_of :: "('v \<Rightarrow> 'k list) \<Rightarrow> ('k, 'v) btree_map \<Rightarrow> 'k \<Rightarrow> 'k list" where
  "deps_of deps records k = (case bt_get records k of None \<Rightarrow> [] | Some v \<Rightarrow> deps v)"

text \<open>The stack is the list \<open>pending\<close> with its top first.\<close>

function closure_loop :: "(TargetId, ActionSpec) btree_map \<Rightarrow> TargetId list \<Rightarrow> TargetId btree_set \<Rightarrow>
    closure_error + TargetId btree_set" where
  "closure_loop actions [] seen = Inr seen"
| "closure_loop actions (target # rest) seen =
     (if target \<in> set seen then closure_loop actions rest seen
      else
        (case bt_get actions target of
           None \<Rightarrow> Inl (UndefinedTarget target)
         | Some action \<Rightarrow>
             if \<not> read_only_check action
             then Inl (NotAReadOnlyCheck target (a_intent action) (a_effects action))
             else closure_loop actions (rev (a_depends_on action) @ rest) (bs_insert target seen)))"
  by pat_completeness auto

termination closure_loop
proof (relation "measures [\<lambda>(actions, pending, seen). card (set (bt_keys actions) - set seen),
    \<lambda>(actions, pending, seen). length pending]", goal_cases)
  case (3 actions target rest seen action)
  then have "target \<in> set (bt_keys actions) - set seen"
    by (auto simp: bt_get_def bt_keys_def dest: map_of_SomeD intro: rev_image_eqI)
  then have "card (set (bt_keys actions) - set (bs_insert target seen)) < card (set (bt_keys actions) - set seen)"
    by (intro psubset_card_mono) auto
  then show ?case by simp
qed simp_all

definition validate_read_only_check_closure :: "ActionSpec list \<Rightarrow> TargetId list \<Rightarrow> closure_error option" where
  "validate_read_only_check_closure actions targets =
     (case index_actions bt_empty actions of
        Inl e \<Rightarrow> Some e
      | Inr actions_by_target \<Rightarrow>
          (case closure_loop actions_by_target (rev targets) [] of
             Inl e \<Rightarrow> Some e
           | Inr seen \<Rightarrow>
               (case layer_loop (deps_of a_depends_on actions_by_target) seen [] of
                  Inl stuck \<Rightarrow> Some (ActionCycle stuck)
                | Inr layers \<Rightarrow> None)))"

section \<open>Dependencies\<close>

datatype 'k dependency_error =
    SelfDependency 'k
  | UnknownDependency 'k 'k
  | RepeatedDependency 'k 'k
  | DependencyCycle "'k list"
  | NoCycleFound

fun check_dependencies :: "('k \<Rightarrow> bool) \<Rightarrow> 'k \<Rightarrow> 'k list \<Rightarrow> 'k list \<Rightarrow> 'k dependency_error option" where
  "check_dependencies known self seen [] = None"
| "check_dependencies known self seen (dependency # rest) =
     (if dependency = self then Some (SelfDependency self)
      else if \<not> known dependency then Some (UnknownDependency self dependency)
      else if dependency \<in> set seen then Some (RepeatedDependency self dependency)
      else check_dependencies known self (dependency # seen) rest)"

definition validate_acyclic_dependencies ::
    "('v \<Rightarrow> 'k list) \<Rightarrow> ('k, 'v) btree_map \<Rightarrow> 'k dependency_error option" where
  "validate_acyclic_dependencies deps records =
     (case layer_loop (deps_of deps records) (bt_keys records) [] of
        Inr layers \<Rightarrow> None
      | Inl stuck \<Rightarrow>
          (case cycle_walk (deps_of deps records) stuck [] (hd stuck) of
             Some cycle \<Rightarrow> Some (DependencyCycle cycle)
           | None \<Rightarrow> Some NoCycleFound))"

fun first_error :: "('x \<Rightarrow> 'e option) \<Rightarrow> 'x list \<Rightarrow> 'e option" where
  "first_error check [] = None"
| "first_error check (x # xs) = (case check x of Some e \<Rightarrow> Some e | None \<Rightarrow> first_error check xs)"

definition validate_component_dependencies ::
    "(ComponentId, ComponentSpec) btree_map \<Rightarrow> ComponentId dependency_error option" where
  "validate_component_dependencies components =
     (case first_error (\<lambda>c. check_dependencies (\<lambda>d. bt_get components d \<noteq> None) (c_id c) [] (c_depends_on c))
             (bt_values components) of
        Some e \<Rightarrow> Some e
      | None \<Rightarrow> validate_acyclic_dependencies c_depends_on components)"

definition validate_action_dependencies ::
    "(TargetId, ActionSpec) btree_map \<Rightarrow> TargetId dependency_error option" where
  "validate_action_dependencies actions =
     (case first_error (\<lambda>a. check_dependencies (\<lambda>d. bt_get actions d \<noteq> None) (a_target a) [] (a_depends_on a))
             (bt_values actions) of
        Some e \<Rightarrow> Some e
      | None \<Rightarrow> validate_acyclic_dependencies a_depends_on actions)"

section \<open>Path policy\<close>

datatype text_error =
    EmptyText
  | SurroundingWhitespace
  | NotForwardSlash
  | DrivePath
  | ControlText
  | EmptySegment
  | DotSegment
  | InsideAgentTree
  | NotLiteral
  | BadGlob
  | MatchesAuthority

definition bad_segment :: "string \<Rightarrow> text_error option" where
  "bad_segment segment =
     (if segment = [] then Some EmptySegment
      else if segment = ''.'' \<or> segment = ''..'' then Some DotSegment
      else None)"

definition validate_authored_repository_relative_text :: "string \<Rightarrow> text_error option" where
  "validate_authored_repository_relative_text value =
     (if value = [] then Some EmptyText
      else if value \<noteq> trim value then Some SurroundingWhitespace
      else if take 1 value = ''/'' \<or> CHR 0x5C \<in> set value then Some NotForwardSlash
      else if 1 < length value \<and> value ! 1 = CHR '':'' then Some DrivePath
      else if has_control value then Some ControlText
      else first_error bad_segment (split_on (CHR ''/'') value))"

definition validate_observable_source_declaration :: "string \<Rightarrow> text_error option" where
  "validate_observable_source_declaration value =
     (if hd (split_on (CHR ''/'') value) = ''.agent'' then Some InsideAgentTree else None)"

definition validate_component_root :: "ComponentSpec \<Rightarrow> text_error option" where
  "validate_component_root component =
     (let root = c_root component in
      if root = ''.'' then None
      else
        (case validate_authored_repository_relative_text root of
           Some e \<Rightarrow> Some e
         | None \<Rightarrow>
             (case validate_observable_source_declaration root of
                Some e \<Rightarrow> Some e
              | None \<Rightarrow>
                  if contains_any [CHR ''*'', CHR ''?'', CHR ''['', CHR '']'', CHR ''{'', CHR ''}''] root
                  then Some NotLiteral else None)))"

definition compile_path_pattern :: "repo_env \<Rightarrow> string \<Rightarrow> text_error + (string \<Rightarrow> bool)" where
  "compile_path_pattern env input =
     (case validate_authored_repository_relative_text input of
        Some e \<Rightarrow> Inl e
      | None \<Rightarrow> (case re_glob env input of None \<Rightarrow> Inl BadGlob | Some matcher \<Rightarrow> Inr matcher))"

definition compile_input :: "repo_env \<Rightarrow> string \<Rightarrow> text_error + (string \<Rightarrow> bool)" where
  "compile_input env input =
     (case validate_observable_source_declaration input of
        Some e \<Rightarrow> Inl e
      | None \<Rightarrow> compile_path_pattern env input)"

definition AFFECTED_IGNORE_PROTECTED_INPUTS :: "string list" where
  "AFFECTED_IGNORE_PROTECTED_INPUTS = [''.jig.toml'', ''scripts/jig'']"

definition check_ignore_pattern :: "repo_env \<Rightarrow> string \<Rightarrow> text_error option" where
  "check_ignore_pattern env pattern =
     (case compile_path_pattern env pattern of
        Inl e \<Rightarrow> Some e
      | Inr matcher \<Rightarrow>
          if list_ex matcher AFFECTED_IGNORE_PROTECTED_INPUTS then Some MatchesAuthority else None)"

definition validate_native_path_policy ::
    "repo_env \<Rightarrow> (ComponentId, ComponentSpec) btree_map \<Rightarrow> (TargetId, ActionSpec) btree_map \<Rightarrow> string list \<Rightarrow>
     text_error option" where
  "validate_native_path_policy env components actions affected_ignore =
     (case first_error validate_component_root (bt_values components) of
        Some e \<Rightarrow> Some e
      | None \<Rightarrow>
          (case first_error
                  (\<lambda>a. first_error (\<lambda>input. case compile_input env input of Inl e \<Rightarrow> Some e | Inr m \<Rightarrow> None) (a_inputs a))
                  (bt_values actions) of
             Some e \<Rightarrow> Some e
           | None \<Rightarrow> first_error (check_ignore_pattern env) affected_ignore))"

section \<open>The catalog\<close>

record RepositoryCatalog =
  rc_contract_version :: nat
  rc_config_digest :: string
  rc_components :: "(ComponentId, ComponentSpec) btree_map"
  rc_actions :: "(TargetId, ActionSpec) btree_map"
  rc_profiles :: "(ProfileId, ProfileSpec) btree_map"
  rc_default_check_profile :: "ProfileId option"
  rc_affected_ignore :: "string list"
  rc_aliases :: "(string, TargetId) btree_map"
  rc_target_aliases :: "(TargetId, string list) btree_map"

datatype alias_error =
    EmptyAlias TargetId
  | ReservedAlias string TargetId
  | RepeatedAlias TargetId string
  | SharedAlias string TargetId TargetId

datatype profile_error =
    EmptyProfile ProfileId
  | UnknownProfileTarget ProfileId TargetId
  | RepeatedProfileTarget ProfileId TargetId
  | DuplicateProfile ProfileId
  | NoDefaultProfile
  | UnknownDefaultProfile ProfileId

datatype native_action_error =
    ActionPolicy policy_error
  | ActionArguments argument_error
  | ActionRunnerError runner_error
  | ActionResources resource_error
  | UnknownComponent TargetId
  | NoEffects TargetId
  | BadTimeout TargetId
  | NativeTimeout TargetId
  | DuplicateAction TargetId
  | ActionAliases alias_error

datatype catalog_error =
    NativeVersion
  | NoComponents
  | NoActions
  | RepoRoot
  | DuplicateComponent ComponentId
  | ComponentDependencies "ComponentId dependency_error"
  | CatalogAction native_action_error
  | ActionDependencies "TargetId dependency_error"
  | CatalogMigration migration_error
  | CatalogPath text_error
  | CatalogProfile profile_error
  | CatalogDirectory TargetId path_error

definition NATIVE_REPOSITORY_CONTRACT_VERSION :: nat where "NATIVE_REPOSITORY_CONTRACT_VERSION = 6"
definition MAX_COMMAND_TIMEOUT_SECONDS :: u64 where "MAX_COMMAND_TIMEOUT_SECONDS = 24 * 60 * 60"

definition command_timeout :: "u64 \<Rightarrow> u64 option" where
  "command_timeout seconds =
     (if seconds = 0 \<or> MAX_COMMAND_TIMEOUT_SECONDS < seconds then None else Some seconds)"

fun collect_components ::
    "(ComponentId, ComponentSpec) btree_map \<Rightarrow> ComponentSpec list \<Rightarrow>
     catalog_error + (ComponentId, ComponentSpec) btree_map" where
  "collect_components m [] = Inr m"
| "collect_components m (c # rest) =
     (if c_id c = ''repo'' \<and> c_root c \<noteq> ''.'' then Inl RepoRoot
      else if bt_get m (c_id c) \<noteq> None then Inl (DuplicateComponent (c_id c))
      else collect_components (bt_insert (c_id c) c m) rest)"

fun register_alias_list ::
    "(string, TargetId) btree_map \<Rightarrow> TargetId \<Rightarrow> string list \<Rightarrow> string list \<Rightarrow>
     alias_error + (string, TargetId) btree_map" where
  "register_alias_list aliases target local [] = Inr aliases"
| "register_alias_list aliases target local (alias # rest) =
     (if trim alias = [] then Inl (EmptyAlias target)
      else
        (case parse_selector alias of
           Inr s \<Rightarrow> Inl (ReservedAlias alias target)
         | Inl e \<Rightarrow>
             if alias \<in> set local then Inl (RepeatedAlias target alias)
             else
               (case bt_get aliases alias of
                  Some existing \<Rightarrow> Inl (SharedAlias alias existing target)
                | None \<Rightarrow> register_alias_list (bt_insert alias target aliases) target (alias # local) rest)))"

type_synonym alias_maps = "(string, TargetId) btree_map \<times> (TargetId, string list) btree_map"

definition register_aliases :: "alias_maps \<Rightarrow> TargetId \<Rightarrow> string list \<Rightarrow> alias_error + alias_maps" where
  "register_aliases maps target new_aliases =
     (case register_alias_list (fst maps) target [] new_aliases of
        Inl e \<Rightarrow> Inl e
      | Inr aliases \<Rightarrow>
          Inr (aliases, if new_aliases = [] then snd maps else bt_insert target new_aliases (snd maps)))"

definition native_timeout :: "ActionSpec \<Rightarrow> bool" where
  "native_timeout action \<longleftrightarrow>
     a_timeout_seconds action \<noteq> None \<and>
     (case a_runner action of
        Native operation configuration \<Rightarrow> operation \<noteq> tool_SCHEMA_CHECK
      | _ \<Rightarrow> False)"

definition or_error :: "('e \<Rightarrow> 'f) \<Rightarrow> 'e option \<Rightarrow> 'f option \<Rightarrow> 'f option" where
  "or_error wrap check rest = (case check of Some e \<Rightarrow> Some (wrap e) | None \<Rightarrow> rest)"

text \<open>One action of the contract: normalised, then checked in the order of the source.\<close>

definition admit_action ::
    "repo_env \<Rightarrow> nat \<Rightarrow> (ComponentId, ComponentSpec) btree_map \<Rightarrow> ActionSpec \<Rightarrow> native_action_error + ActionSpec" where
  "admit_action env version components spec =
     (case normalize_native_configuration version spec of
        Inl e \<Rightarrow> Inl (ActionPolicy e)
      | Inr action \<Rightarrow>
          (case or_error ActionArguments (normalize_declarations version action)
                 (or_error ActionPolicy (validate_inputs_policy version action)
                   (or_error ActionRunnerError (validate_runner version action)
                     (or_error ActionResources (validate_resource_declarations env action)
                       (ensure (bt_get components (t_component (a_target action)) \<noteq> None)
                         (UnknownComponent (a_target action))
                         (ensure (a_effects action \<noteq> []) (NoEffects (a_target action))
                           (ensure (case a_timeout_seconds action of None \<Rightarrow> True
                                    | Some seconds \<Rightarrow> command_timeout seconds \<noteq> None)
                             (BadTimeout (a_target action))
                             (ensure (\<not> native_timeout action) (NativeTimeout (a_target action)) None))))))) of
             Some e \<Rightarrow> Inl e
           | None \<Rightarrow> Inr action))"

fun collect_actions ::
    "repo_env \<Rightarrow> nat \<Rightarrow> (ComponentId, ComponentSpec) btree_map \<Rightarrow>
     (TargetId, ActionSpec) btree_map \<Rightarrow> alias_maps \<Rightarrow> ActionSpec list \<Rightarrow>
     native_action_error + (TargetId, ActionSpec) btree_map \<times> alias_maps" where
  "collect_actions env version components actions maps [] = Inr (actions, maps)"
| "collect_actions env version components actions maps (spec # rest) =
     (case admit_action env version components spec of
        Inl e \<Rightarrow> Inl e
      | Inr action \<Rightarrow>
          if bt_get actions (a_target action) \<noteq> None then Inl (DuplicateAction (a_target action))
          else
            (case register_aliases maps (a_target action) (a_legacy_aliases action) of
               Inl e \<Rightarrow> Inl (ActionAliases e)
             | Inr maps' \<Rightarrow>
                 collect_actions env version components (bt_insert (a_target action) action actions) maps' rest))"

fun check_profile_targets ::
    "(TargetId, ActionSpec) btree_map \<Rightarrow> ProfileId \<Rightarrow> TargetId list \<Rightarrow> TargetId list \<Rightarrow> profile_error option" where
  "check_profile_targets actions profile seen [] = None"
| "check_profile_targets actions profile seen (target # rest) =
     (if bt_get actions target = None then Some (UnknownProfileTarget profile target)
      else if target \<in> set seen then Some (RepeatedProfileTarget profile target)
      else check_profile_targets actions profile (target # seen) rest)"

fun collect_profiles ::
    "(TargetId, ActionSpec) btree_map \<Rightarrow> (ProfileId, ProfileSpec) btree_map \<Rightarrow> ProfileSpec list \<Rightarrow>
     profile_error + (ProfileId, ProfileSpec) btree_map" where
  "collect_profiles actions m [] = Inr m"
| "collect_profiles actions m (profile # rest) =
     (if pr_targets profile = [] then Inl (EmptyProfile (pr_id profile))
      else
        (case check_profile_targets actions (pr_id profile) [] (pr_targets profile) of
           Some e \<Rightarrow> Inl e
         | None \<Rightarrow>
             if bt_get m (pr_id profile) \<noteq> None then Inl (DuplicateProfile (pr_id profile))
             else collect_profiles actions (bt_insert (pr_id profile) profile m) rest))"

definition validate_default_profile ::
    "ProfileId option \<Rightarrow> (ProfileId, ProfileSpec) btree_map \<Rightarrow> profile_error option" where
  "validate_default_profile default_profile profiles =
     (case default_profile of
        None \<Rightarrow> Some NoDefaultProfile
      | Some p \<Rightarrow> if bt_get profiles p = None then Some (UnknownDefaultProfile p) else None)"

text \<open>The checks that follow the collection of the records, in order.\<close>

definition finish_native ::
    "repo_env \<Rightarrow> nat \<Rightarrow> string \<Rightarrow> ComponentSpec list \<Rightarrow> ActionSpec list \<Rightarrow> ProfileSpec list \<Rightarrow> ProfileId option \<Rightarrow>
     string list \<Rightarrow> (ComponentId, ComponentSpec) btree_map \<Rightarrow> (TargetId, ActionSpec) btree_map \<Rightarrow> alias_maps \<Rightarrow>
     catalog_error + RepositoryCatalog" where
  "finish_native env version digest component_specs action_specs profile_specs default_profile affected_ignore
       components actions maps =
     (case validate_action_dependencies actions of
        Some e \<Rightarrow> Inl (ActionDependencies e)
      | None \<Rightarrow>
          (case native_migration_backend component_specs action_specs of
             Inl e \<Rightarrow> Inl (CatalogMigration e)
           | Inr backend \<Rightarrow>
               (case validate_native_path_policy env components actions affected_ignore of
                  Some e \<Rightarrow> Inl (CatalogPath e)
                | None \<Rightarrow>
                    (case collect_profiles actions bt_empty profile_specs of
                       Inl e \<Rightarrow> Inl (CatalogProfile e)
                     | Inr profiles \<Rightarrow>
                         (case validate_default_profile default_profile profiles of
                            Some e \<Rightarrow> Inl (CatalogProfile e)
                          | None \<Rightarrow>
                              Inr \<lparr>rc_contract_version = version, rc_config_digest = digest,
                                   rc_components = components, rc_actions = actions, rc_profiles = profiles,
                                   rc_default_check_profile = default_profile,
                                   rc_affected_ignore = affected_ignore,
                                   rc_aliases = fst maps, rc_target_aliases = snd maps\<rparr>)))))"

definition from_native_with_ignore ::
    "repo_env \<Rightarrow> nat \<Rightarrow> string \<Rightarrow> ComponentSpec list \<Rightarrow> ActionSpec list \<Rightarrow> ProfileSpec list \<Rightarrow> ProfileId option \<Rightarrow>
     string list \<Rightarrow> catalog_error + RepositoryCatalog" where
  "from_native_with_ignore env version digest component_specs action_specs profile_specs default_profile
       affected_ignore =
     (if version < NATIVE_REPOSITORY_CONTRACT_VERSION then Inl NativeVersion
      else if component_specs = [] then Inl NoComponents
      else if action_specs = [] then Inl NoActions
      else
        (case collect_components bt_empty component_specs of
           Inl e \<Rightarrow> Inl e
         | Inr components \<Rightarrow>
             (case validate_component_dependencies components of
                Some e \<Rightarrow> Inl (ComponentDependencies e)
              | None \<Rightarrow>
                  (case collect_actions env version components bt_empty (bt_empty, bt_empty) action_specs of
                     Inl e \<Rightarrow> Inl (CatalogAction e)
                   | Inr (actions, maps) \<Rightarrow>
                       finish_native env version digest component_specs action_specs profile_specs
                         default_profile affected_ignore components actions maps))))"

definition catalog_action :: "RepositoryCatalog \<Rightarrow> TargetId \<Rightarrow> ActionSpec option" where
  "catalog_action catalog target = bt_get (rc_actions catalog) target"

definition catalog_actions :: "RepositoryCatalog \<Rightarrow> ActionSpec list" where
  "catalog_actions catalog = bt_values (rc_actions catalog)"

definition catalog_components :: "RepositoryCatalog \<Rightarrow> ComponentSpec list" where
  "catalog_components catalog = bt_values (rc_components catalog)"

definition catalog_component :: "RepositoryCatalog \<Rightarrow> ComponentId \<Rightarrow> ComponentSpec option" where
  "catalog_component catalog ident = bt_get (rc_components catalog) ident"

definition catalog_profile :: "RepositoryCatalog \<Rightarrow> ProfileId \<Rightarrow> ProfileSpec option" where
  "catalog_profile catalog ident = bt_get (rc_profiles catalog) ident"

definition target_for_alias :: "RepositoryCatalog \<Rightarrow> string \<Rightarrow> TargetId option" where
  "target_for_alias catalog alias = bt_get (rc_aliases catalog) alias"

definition action_for_alias :: "RepositoryCatalog \<Rightarrow> string \<Rightarrow> ActionSpec option" where
  "action_for_alias catalog alias =
     (case target_for_alias catalog alias of None \<Rightarrow> None | Some target \<Rightarrow> catalog_action catalog target)"

definition aliases_for_target :: "RepositoryCatalog \<Rightarrow> TargetId \<Rightarrow> string list" where
  "aliases_for_target catalog target =
     (case bt_get (rc_target_aliases catalog) target of None \<Rightarrow> [] | Some aliases \<Rightarrow> aliases)"

section \<open>Lemmas\<close>

subsection \<open>Dependencies\<close>

lemma first_error_None_iff: "first_error check xs = None \<longleftrightarrow> (\<forall>x \<in> set xs. check x = None)"
  by (induction xs) (auto split: option.splits)

lemma first_error_Some: "first_error check xs = Some e \<Longrightarrow> \<exists>x \<in> set xs. check x = Some e"
  by (induction xs) (auto split: option.splits)

lemma check_dependencies_None_iff:
  "check_dependencies known self seen deps = None \<longleftrightarrow>
     self \<notin> set deps \<and> (\<forall>d \<in> set deps. known d) \<and> distinct deps \<and> set deps \<inter> set seen = {}"
  by (induction known self seen deps rule: check_dependencies.induct) auto

lemma check_dependencies_Some:
  "check_dependencies known self seen deps = Some e \<Longrightarrow> \<not> (\<exists>c. e = DependencyCycle c) \<and> e \<noteq> NoCycleFound"
  by (induction known self seen deps rule: check_dependencies.induct) (auto split: if_splits)

text \<open>The records of a map stand under their own key.\<close>

definition keyed :: "('v \<Rightarrow> 'k) \<Rightarrow> ('k, 'v) btree_map \<Rightarrow> bool" where
  "keyed key m \<longleftrightarrow> list_all (\<lambda>(k, v). key v = k) m"

definition dependencies_declared :: "('v \<Rightarrow> 'k list) \<Rightarrow> ('k, 'v) btree_map \<Rightarrow> bool" where
  "dependencies_declared deps records \<longleftrightarrow>
     list_all (\<lambda>(k, v). k \<notin> set (deps v) \<and> set (deps v) \<subseteq> set (bt_keys records) \<and> distinct (deps v)) records"

lemma deps_of_entry: "bt_wf m \<Longrightarrow> (k, v) \<in> set m \<Longrightarrow> deps_of deps m k = deps v"
  by (simp add: deps_of_def bt_get_def bt_wf_distinct map_of_is_SomeI)

lemma bt_get_keys: "bt_get m k \<noteq> None \<longleftrightarrow> k \<in> set (bt_keys m)"
  by (auto simp: bt_keys_dom)

lemma bt_keys_entry: "k \<in> set (bt_keys m) \<Longrightarrow> \<exists>v. (k, v) \<in> set m"
  by (auto simp: bt_keys_def)

lemma closed_under_declared:
  assumes "bt_wf m" "dependencies_declared deps m"
  shows "closed_under (deps_of deps m) (set (bt_keys m))"
  unfolding closed_under_def
proof
  fix k assume "k \<in> set (bt_keys m)"
  then obtain v where v: "(k, v) \<in> set m" using bt_keys_entry by metis
  then have "set (deps v) \<subseteq> set (bt_keys m)"
    using assms(2) by (auto simp: dependencies_declared_def list_all_iff)
  then show "set (deps_of deps m k) \<subseteq> set (bt_keys m)"
    using deps_of_entry [OF assms(1) v, of deps] by simp
qed

lemma distinct_bt_keys: "bt_wf m \<Longrightarrow> distinct (bt_keys m)"
  by (simp add: bt_keys_def bt_wf_distinct)

text \<open>Acyclicity, and the cycle that is reported otherwise.\<close>

lemma validate_acyclic_dependencies_spec:
  assumes "bt_wf m" "dependencies_declared deps m"
  shows "case validate_acyclic_dependencies deps m of
      None \<Rightarrow> acyclic (edges (deps_of deps m) (set (bt_keys m)))
    | Some e \<Rightarrow> \<not> acyclic (edges (deps_of deps m) (set (bt_keys m))) \<and>
        (\<exists>cycle. e = DependencyCycle cycle \<and> is_cycle (deps_of deps m) cycle \<and> set cycle \<subseteq> set (bt_keys m))"
proof (cases "layer_loop (deps_of deps m) (bt_keys m) []")
  case (Inr layers)
  then show ?thesis
    using layer_loop_Inr_acyclic [OF Inr distinct_bt_keys [OF assms(1)]]
    by (simp add: validate_acyclic_dependencies_def)
next
  case (Inl stuck)
  have closed: "closed_under (deps_of deps m) (set (bt_keys m))" by (rule closed_under_declared [OF assms])
  have stuck: "stuck \<noteq> []" "set stuck \<subseteq> set (bt_keys m)" using layer_loop_Inl [OF Inl] by auto
  then have hd: "hd stuck \<in> set stuck" by simp
  obtain cycle where cycle: "cycle_walk (deps_of deps m) stuck [] (hd stuck) = Some cycle"
    using cycle_walk_Some [of stuck "deps_of deps m" "hd stuck" "[]"] hd stuck_has_stuck_dependency [OF Inl closed]
    by blast
  have "is_cycle (deps_of deps m) cycle \<and> set cycle \<subseteq> set stuck"
    using cycle_walk_is_cycle [OF cycle] hd by simp
  then show ?thesis
    using Inl cycle stuck layer_loop_Inl_cyclic [OF Inl closed]
    by (auto simp: validate_acyclic_dependencies_def)
qed

lemma checked_dependencies_iff:
  assumes "keyed key m"
  shows "first_error (\<lambda>v. check_dependencies (\<lambda>d. bt_get m d \<noteq> None) (key v) [] (deps v)) (bt_values m) = None \<longleftrightarrow>
    dependencies_declared deps m"
proof -
  have key: "key (snd e) = fst e" if "e \<in> set m" for e
    using assms that by (auto simp: keyed_def list_all_iff)
  have known: "(\<forall>d \<in> set ds. bt_get m d \<noteq> None) \<longleftrightarrow> set ds \<subseteq> set (bt_keys m)" for ds
    by (auto simp only: bt_get_keys)
  have "first_error (\<lambda>v. check_dependencies (\<lambda>d. bt_get m d \<noteq> None) (key v) [] (deps v)) (bt_values m) = None \<longleftrightarrow>
      (\<forall>e \<in> set m. check_dependencies (\<lambda>d. bt_get m d \<noteq> None) (key (snd e)) [] (deps (snd e)) = None)"
    by (simp add: first_error_None_iff bt_values_def)
  also have "\<dots> \<longleftrightarrow> (\<forall>e \<in> set m. fst e \<notin> set (deps (snd e)) \<and> set (deps (snd e)) \<subseteq> set (bt_keys m) \<and> distinct (deps (snd e)))"
    by (rule ball_cong) (simp_all add: check_dependencies_None_iff known key del: not_None_eq)
  finally show ?thesis by (simp add: dependencies_declared_def list_all_iff case_prod_beta)
qed

text \<open>The result of both dependency validators.\<close>

definition dependency_verdict :: "('v \<Rightarrow> 'k list) \<Rightarrow> ('k, 'v) btree_map \<Rightarrow> 'k dependency_error option \<Rightarrow> bool" where
  "dependency_verdict deps m verdict \<longleftrightarrow>
     (case verdict of
        None \<Rightarrow> dependencies_declared deps m \<and> acyclic (edges (deps_of deps m) (set (bt_keys m)))
      | Some (DependencyCycle cycle) \<Rightarrow>
          dependencies_declared deps m \<and> is_cycle (deps_of deps m) cycle \<and> set cycle \<subseteq> set (bt_keys m)
      | Some NoCycleFound \<Rightarrow> False
      | Some _ \<Rightarrow> \<not> dependencies_declared deps m)"

lemma dependency_verdict_combined:
  assumes "bt_wf m" "keyed key m"
  shows "dependency_verdict deps m
    (case first_error (\<lambda>v. check_dependencies (\<lambda>d. bt_get m d \<noteq> None) (key v) [] (deps v)) (bt_values m) of
       Some e \<Rightarrow> Some e
     | None \<Rightarrow> validate_acyclic_dependencies deps m)"
proof (cases "first_error (\<lambda>v. check_dependencies (\<lambda>d. bt_get m d \<noteq> None) (key v) [] (deps v)) (bt_values m)")
  case None
  then have declared: "dependencies_declared deps m" using checked_dependencies_iff [OF assms(2), of deps] by simp
  with validate_acyclic_dependencies_spec [OF assms(1) declared] None show ?thesis
    by (auto simp: dependency_verdict_def split: option.splits)
next
  case (Some e)
  then have "\<not> dependencies_declared deps m" using checked_dependencies_iff [OF assms(2), of deps] by simp
  moreover have "\<not> (\<exists>c. e = DependencyCycle c) \<and> e \<noteq> NoCycleFound"
    using first_error_Some [OF Some] check_dependencies_Some by fast
  ultimately show ?thesis using Some by (cases e) (auto simp: dependency_verdict_def)
qed

text \<open>
  C26. Admission of the action dependencies, for actions stored under their own target. They
  are accepted exactly when every action depends on known other actions, each once, and the
  graph has no cycle; a cycle that is reported is a real cycle of the graph, and the search for it
  never fails.
\<close>

theorem action_dependencies_verdict:
  assumes "bt_wf actions" "keyed a_target actions"
  shows "dependency_verdict a_depends_on actions (validate_action_dependencies actions)"
  using dependency_verdict_combined [OF assms, of a_depends_on] by (simp add: validate_action_dependencies_def)
definition sample_action :: "string \<Rightarrow> string list \<Rightarrow> ActionSpec" where
  "sample_action name deps =
     (new_action (''api'', name) Check (Native ''jig.lint'' None))
       \<lparr>a_effects := [ReadOnly, Process], a_depends_on := map (\<lambda>d. (''api'', d)) deps\<rparr>"

definition sample_cycle :: "(TargetId, ActionSpec) btree_map" where
  "sample_cycle = [((''api'', ''a''), sample_action ''a'' [''b'']), ((''api'', ''b''), sample_action ''b'' [''a''])]"

theorem action_dependencies_verdict_witness:
  "validate_action_dependencies sample_cycle =
     Some (DependencyCycle [(''api'', ''a''), (''api'', ''b''), (''api'', ''a'')]) \<and>
   is_cycle (deps_of a_depends_on sample_cycle) [(''api'', ''a''), (''api'', ''b''), (''api'', ''a'')]"
proof -
  have v: "validate_action_dependencies sample_cycle =
     Some (DependencyCycle [(''api'', ''a''), (''api'', ''b''), (''api'', ''a'')])"
    by code_simp
  have "bt_wf sample_cycle" "keyed a_target sample_cycle"
    by code_simp+
  from action_dependencies_verdict [OF this] v show ?thesis by (simp add: dependency_verdict_def)
qed

subsection \<open>The closure of read-only checks\<close>

definition action_edges :: "(TargetId, ActionSpec) btree_map \<Rightarrow> (TargetId \<times> TargetId) set" where
  "action_edges actions = {(t, d). \<exists>a. bt_get actions t = Some a \<and> d \<in> set (a_depends_on a)}"

definition reachable :: "(TargetId, ActionSpec) btree_map \<Rightarrow> TargetId list \<Rightarrow> TargetId set" where
  "reachable actions targets = (action_edges actions)\<^sup>* `` set targets"

definition visited_checks :: "(TargetId, ActionSpec) btree_map \<Rightarrow> TargetId list \<Rightarrow> TargetId list \<Rightarrow> bool" where
  "visited_checks actions pending seen \<longleftrightarrow>
     bs_wf seen \<and>
     (\<forall>t \<in> set seen. \<exists>a. bt_get actions t = Some a \<and> read_only_check a \<and>
        set (a_depends_on a) \<subseteq> set seen \<union> set pending)"

lemma visited_checks_step:
  assumes "visited_checks actions (t # rest) seen" "bt_get actions t = Some a" "read_only_check a"
  shows "visited_checks actions (rev (a_depends_on a) @ rest) (bs_insert t seen)"
  unfolding visited_checks_def
proof (intro conjI ballI)
  show "bs_wf (bs_insert t seen)" using assms(1) by (auto simp: visited_checks_def)
  fix x assume "x \<in> set (bs_insert t seen)"
  then consider "x = t" | "x \<in> set seen" by auto
  then show "\<exists>a'. bt_get actions x = Some a' \<and> read_only_check a' \<and>
      set (a_depends_on a') \<subseteq> set (bs_insert t seen) \<union> set (rev (a_depends_on a) @ rest)"
  proof cases
    case 1
    then show ?thesis using assms(2,3) by auto
  next
    case 2
    then obtain a' where "bt_get actions x = Some a'" "read_only_check a'"
      "set (a_depends_on a') \<subseteq> set seen \<union> set (t # rest)"
      using assms(1) unfolding visited_checks_def by blast
    then show ?thesis by (intro exI [of _ a']) auto
  qed
qed

lemma closure_loop_correct:
  assumes "visited_checks actions pending seen"
  shows "case closure_loop actions pending seen of
      Inr s \<Rightarrow> visited_checks actions [] s \<and> set seen \<union> set pending \<subseteq> set s \<and>
        set s \<subseteq> (action_edges actions)\<^sup>* `` (set seen \<union> set pending)
    | Inl e \<Rightarrow> \<exists>t \<in> (action_edges actions)\<^sup>* `` (set seen \<union> set pending).
        bt_get actions t = None \<and> e = UndefinedTarget t \<or>
        (\<exists>a. bt_get actions t = Some a \<and> \<not> read_only_check a \<and> e = NotAReadOnlyCheck t (a_intent a) (a_effects a))"
  using assms
proof (induction actions pending seen rule: closure_loop.induct)
  case (1 actions seen)
  then show ?case by auto
next
  case (2 actions t rest seen)
  show ?case
  proof (cases "t \<in> set seen")
    case True
    have eq: "set seen \<union> set (t # rest) = set seen \<union> set rest" using True by auto
    have "visited_checks actions rest seen"
      using 2(3) unfolding visited_checks_def eq .
    from 2(1) [OF True this] show ?thesis unfolding eq using True by simp
  next
    case False
    show ?thesis
    proof (cases "bt_get actions t")
      case None
      then show ?thesis using False by auto
    next
      case (Some a)
      show ?thesis
      proof (cases "read_only_check a")
        case ro: True
        let ?next = "rev (a_depends_on a) @ rest"
        have inv: "visited_checks actions ?next (bs_insert t seen)"
          by (rule visited_checks_step [OF 2(3) Some ro])
        have "(t, d) \<in> action_edges actions" if "d \<in> set (a_depends_on a)" for d
          using that Some by (auto simp: action_edges_def)
        then have reach: "(action_edges actions)\<^sup>* `` (set (bs_insert t seen) \<union> set ?next) =
            (action_edges actions)\<^sup>* `` (set seen \<union> set (t # rest))"
          by (auto intro: converse_rtrancl_into_rtrancl)
        have sub: "set seen \<union> set (t # rest) \<subseteq> set (bs_insert t seen) \<union> set ?next" by auto
        have step: "closure_loop actions (t # rest) seen = closure_loop actions ?next (bs_insert t seen)"
          using False Some ro by simp
        have "\<not> \<not> read_only_check a" using ro by simp
        from 2(2) [OF False Some this inv] show ?thesis
          unfolding step reach using sub by (auto split: sum.splits)
      qed (use False Some in auto)
    qed
  qed
qed

lemma closure_loop_targets:
  "case closure_loop actions (rev targets) [] of
      Inr s \<Rightarrow> bs_wf s \<and> set s = reachable actions targets \<and>
        (\<forall>t \<in> set s. \<exists>a. bt_get actions t = Some a \<and> read_only_check a \<and> set (a_depends_on a) \<subseteq> set s)
    | Inl e \<Rightarrow> \<exists>t \<in> reachable actions targets. \<not> (\<exists>a. bt_get actions t = Some a \<and> read_only_check a)"
proof -
  have "visited_checks actions (rev targets) []" by (simp add: visited_checks_def bs_wf_def)
  from closure_loop_correct [OF this]
  have spec: "case closure_loop actions (rev targets) [] of
      Inr s \<Rightarrow> visited_checks actions [] s \<and> set targets \<subseteq> set s \<and> set s \<subseteq> reachable actions targets
    | Inl e \<Rightarrow> \<exists>t \<in> reachable actions targets.
        bt_get actions t = None \<and> e = UndefinedTarget t \<or>
        (\<exists>a. bt_get actions t = Some a \<and> \<not> read_only_check a \<and> e = NotAReadOnlyCheck t (a_intent a) (a_effects a))"
    unfolding reachable_def by (simp only: set_rev list.set(1) Un_empty_left)
  show ?thesis
  proof (cases "closure_loop actions (rev targets) []")
    case (Inl e)
    then obtain t where "t \<in> reachable actions targets" "\<not> (\<exists>a. bt_get actions t = Some a \<and> read_only_check a)"
      using spec by auto
    then show ?thesis using Inl by auto
  next
    case (Inr s)
    then have s: "visited_checks actions [] s" "set targets \<subseteq> set s" "set s \<subseteq> reachable actions targets"
      using spec by auto
    then have ok: "\<forall>t \<in> set s. \<exists>a. bt_get actions t = Some a \<and> read_only_check a \<and> set (a_depends_on a) \<subseteq> set s"
      by (simp add: visited_checks_def)
    have "action_edges actions `` set s \<subseteq> set s" using ok by (fastforce simp: action_edges_def)
    then have "(action_edges actions)\<^sup>* `` set s = set s" by (rule Image_closed_trancl)
    then have "reachable actions targets \<subseteq> set s" using s(2) unfolding reachable_def by blast
    with s(1,3) ok Inr show ?thesis by (auto simp: visited_checks_def)
  qed
qed

lemma index_actions_Inr_iff:
  assumes "bt_wf m"
  shows "index_actions m actions = Inr m' \<longleftrightarrow>
    distinct (map a_target actions) \<and> (\<forall>a \<in> set actions. bt_get m (a_target a) = None) \<and>
    m' = fold (\<lambda>a. bt_insert (a_target a) a) actions m"
  using assms
proof (induction m actions rule: index_actions.induct)
  case (2 m a rest)
  show ?case
  proof (cases "bt_get m (a_target a) = None")
    case True
    have get: "bt_get (bt_insert (a_target a) a m) = (bt_get m)(a_target a \<mapsto> a)"
      using 2(2) by (rule bt.get_put)
    have "\<not> bt_get m (a_target a) \<noteq> None" using True by simp
    note IH = 2(1) [OF this bt.wf_put [OF 2(2)]]
    have fresh: "(\<forall>x \<in> set rest. ((bt_get m)(a_target a \<mapsto> a)) (a_target x) = None) \<longleftrightarrow>
        a_target a \<notin> a_target ` set rest \<and> (\<forall>x \<in> set rest. bt_get m (a_target x) = None)"
      by (auto simp: image_iff split: if_splits)
    show ?thesis using True IH unfolding get fresh by auto
  qed simp
qed auto

definition actions_by_target :: "ActionSpec list \<Rightarrow> (TargetId, ActionSpec) btree_map" where
  "actions_by_target actions = fold (\<lambda>a. bt_insert (a_target a) a) actions bt_empty"

lemma read_only_closure_None_iff:
  "validate_read_only_check_closure actions targets = None \<longleftrightarrow>
     distinct (map a_target actions) \<and>
     (let m = actions_by_target actions in
      (\<forall>t \<in> reachable m targets. \<exists>a. bt_get m t = Some a \<and> read_only_check a) \<and>
      acyclic (edges (deps_of a_depends_on m) (reachable m targets)))"
proof (cases "distinct (map a_target actions)")
  case False
  then show ?thesis
    using index_actions_Inr_iff [of bt_empty actions]
    by (auto simp: validate_read_only_check_closure_def split: sum.splits)
next
  case True
  let ?m = "actions_by_target actions"
  have m: "index_actions bt_empty actions = Inr ?m"
    using True by (simp add: index_actions_Inr_iff actions_by_target_def bt.get_empty)
  note spec = closure_loop_targets [of ?m targets]
  show ?thesis
  proof (cases "closure_loop ?m (rev targets) []")
    case (Inl e)
    then show ?thesis using spec m by (auto simp: validate_read_only_check_closure_def Let_def)
  next
    case (Inr s)
    then have s: "bs_wf s" "set s = reachable ?m targets"
      "\<forall>t \<in> set s. \<exists>a. bt_get ?m t = Some a \<and> read_only_check a \<and> set (a_depends_on a) \<subseteq> set s"
      using spec by auto
    have "closed_under (deps_of a_depends_on ?m) (set s)"
      using s(3) unfolding closed_under_def deps_of_def by fastforce
    from layer_loop_acyclic_iff [OF bs_wf_distinct [OF s(1)] this]
    have "acyclic (edges (deps_of a_depends_on ?m) (reachable ?m targets)) \<longleftrightarrow>
        validate_read_only_check_closure actions targets = None"
      using m Inr s(2) by (auto simp: validate_read_only_check_closure_def split: sum.splits)
    moreover have "\<forall>t \<in> reachable ?m targets. \<exists>a. bt_get ?m t = Some a \<and> read_only_check a"
      using s(2,3) by blast
    ultimately show ?thesis using True by (simp add: Let_def)
  qed
qed

text \<open>
  C27. The read-only gate. A selection passes exactly when the actions have distinct targets,
  every target reachable from the selection through action dependencies is defined and is a
  check whose effects include \<open>ReadOnly\<close> and neither \<open>Worktree\<close> nor \<open>External\<close>, and the
  reachable part of the graph has no cycle.
\<close>

theorem read_only_closure_iff:
  "validate_read_only_check_closure actions targets = None \<longleftrightarrow>
     distinct (map a_target actions) \<and>
     reachable (actions_by_target actions) targets \<subseteq>
       {t. case bt_get (actions_by_target actions) t of
             None \<Rightarrow> False
           | Some a \<Rightarrow> a_intent a = Check \<and> ReadOnly \<in> set (a_effects a) \<and> Worktree \<notin> set (a_effects a) \<and>
               External \<notin> set (a_effects a)} \<and>
     acyclic (edges (deps_of a_depends_on (actions_by_target actions)) (reachable (actions_by_target actions) targets))"
  unfolding read_only_closure_None_iff Let_def read_only_check_def by (auto split: option.splits)

subsection \<open>The invariant of a native catalog\<close>

lemma keyed_insert: "keyed key m \<Longrightarrow> key v = k \<Longrightarrow> keyed key (bt_insert k v m)"
  by (induction k v m rule: bt_insert.induct) (auto simp: keyed_def)

lemma keyed_get: "keyed key m \<Longrightarrow> bt_get m k = Some v \<Longrightarrow> key v = k"
  by (auto simp: keyed_def bt_get_def list_all_iff dest!: map_of_SomeD)

lemma collect_components_Inr:
  "collect_components m specs = Inr m' \<Longrightarrow> bt_wf m \<Longrightarrow> keyed c_id m \<Longrightarrow> bt_wf m' \<and> keyed c_id m'"
  by (induction m specs rule: collect_components.induct)
     (auto simp: keyed_insert bt.wf_put split: if_splits)

lemma admit_action_normal:
  "admit_action env version components spec = Inr action \<Longrightarrow> admit_action env version components action = Inr action"
proof -
  assume a: "admit_action env version components spec = Inr action"
  then have "normalize_native_configuration version spec = Inr action"
    by (auto simp: admit_action_def split: sum.splits option.splits)
  then have "normalize_native_configuration version action = Inr action"
    by (rule native_ok_fixed [OF normalize_native_ok])
  with a \<open>normalize_native_configuration version spec = Inr action\<close> show ?thesis
    by (simp add: admit_action_def)
qed

definition alias_free :: "string \<Rightarrow> bool" where
  "alias_free alias \<longleftrightarrow> (case parse_selector alias of Inl e \<Rightarrow> True | Inr s \<Rightarrow> False)"

lemma register_alias_list_Inr:
  assumes "register_alias_list aliases target local new = Inr aliases'" "bt_wf aliases"
  shows "bt_wf aliases' \<and>
    bt_get aliases' = (\<lambda>x. if x \<in> set new then Some target else bt_get aliases x) \<and>
    (\<forall>x \<in> set new. bt_get aliases x = None \<and> alias_free x)"
  using assms
proof (induction aliases target "local" new rule: register_alias_list.induct)
  case (2 aliases target loc al rest)
  from 2(2) obtain e where e: "parse_selector al = Inl e" "trim al \<noteq> []"
    by (auto split: if_splits sum.splits)
  with 2(2) have none: "al \<notin> set loc" "bt_get aliases al = None"
    and rest: "register_alias_list (bt_insert al target aliases) target (al # loc) rest = Inr aliases'"
    by (auto split: if_splits option.splits)
  have get: "bt_get (bt_insert al target aliases) = (bt_get aliases)(al \<mapsto> target)"
    using 2(3) by (rule bt.get_put)
  from 2(1) [OF e(2,1) none rest bt.wf_put [OF 2(3)]]
  have IH: "bt_wf aliases'"
    "bt_get aliases' = (\<lambda>x. if x \<in> set rest then Some target else ((bt_get aliases)(al \<mapsto> target)) x)"
    "\<And>x. x \<in> set rest \<Longrightarrow> ((bt_get aliases)(al \<mapsto> target)) x = None \<and> alias_free x"
    unfolding get by auto
  have "alias_free al" using e(1) by (simp add: alias_free_def)
  moreover have "bt_get aliases x = None \<and> alias_free x" if "x \<in> set rest" for x
    using IH(3) [OF that] by (simp split: if_splits)
  ultimately show ?case using IH(1) none(2) unfolding IH(2) by auto
qed simp

text \<open>What holds of the maps while the actions are collected.\<close>

definition aliases_of :: "(TargetId, ActionSpec) btree_map \<Rightarrow> string \<Rightarrow> TargetId \<Rightarrow> bool" where
  "aliases_of actions alias t \<longleftrightarrow>
     (case bt_get actions t of None \<Rightarrow> False | Some a \<Rightarrow> alias \<in> set (a_legacy_aliases a))"

definition collected :: "repo_env \<Rightarrow> nat \<Rightarrow> (ComponentId, ComponentSpec) btree_map \<Rightarrow>
    (TargetId, ActionSpec) btree_map \<Rightarrow> alias_maps \<Rightarrow> bool" where
  "collected env version components actions maps \<longleftrightarrow>
     bt_wf actions \<and> keyed a_target actions \<and>
     (\<forall>a \<in> set (bt_values actions). admit_action env version components a = Inr a) \<and>
     bt_wf (fst maps) \<and>
     (\<forall>alias t. bt_get (fst maps) alias = Some t \<longleftrightarrow> aliases_of actions alias t) \<and>
     (\<forall>alias \<in> set (bt_keys (fst maps)). alias_free alias) \<and>
     bt_wf (snd maps) \<and>
     (\<forall>t. bt_get (snd maps) t =
        (case bt_get actions t of None \<Rightarrow> None | Some a \<Rightarrow> if a_legacy_aliases a = [] then None else Some (a_legacy_aliases a)))"

lemma collected_step:
  assumes inv: "collected env version components actions maps"
    and admit: "admit_action env version components action = Inr action"
    and fresh: "bt_get actions (a_target action) = None"
    and reg: "register_aliases maps (a_target action) (a_legacy_aliases action) = Inr maps'"
  shows "collected env version components (bt_insert (a_target action) action actions) maps'"
proof -
  let ?t = "a_target action" and ?new = "a_legacy_aliases action"
  let ?actions = "bt_insert ?t action actions"
  from reg have list: "register_alias_list (fst maps) ?t [] ?new = Inr (fst maps')"
    and snd: "snd maps' = (if ?new = [] then snd maps else bt_insert ?t ?new (snd maps))"
    by (auto simp: register_aliases_def split: sum.splits)
  have wf: "bt_wf actions" "bt_wf (fst maps)" "bt_wf (snd maps)" using inv by (auto simp: collected_def)
  from register_alias_list_Inr [OF list wf(2)]
  have al: "bt_wf (fst maps')" "bt_get (fst maps') = (\<lambda>x. if x \<in> set ?new then Some ?t else bt_get (fst maps) x)"
    "\<forall>x \<in> set ?new. bt_get (fst maps) x = None \<and> alias_free x" by auto
  have get: "bt_get ?actions = (bt_get actions)(?t \<mapsto> action)" using wf(1) by (rule bt.get_put)
  have old: "bt_get (fst maps) al = Some t \<longleftrightarrow> aliases_of actions al t"
    "bt_get (snd maps) t = (case bt_get actions t of None \<Rightarrow> None
      | Some a \<Rightarrow> if a_legacy_aliases a = [] then None else Some (a_legacy_aliases a))" for al t
    using inv unfolding collected_def by blast+
  have new: "aliases_of ?actions al t \<longleftrightarrow> (if t = ?t then al \<in> set ?new else aliases_of actions al t)" for al t
    by (simp add: aliases_of_def get)
  have none: "\<not> aliases_of actions al ?t" for al using fresh by (simp add: aliases_of_def)
  have "bt_get (fst maps') al = Some t \<longleftrightarrow> aliases_of ?actions al t" for al t
    using old(1) [of al t] none [of al] al(3) unfolding new al(2) by auto
  moreover have "\<forall>alias \<in> set (bt_keys (fst maps')). alias_free alias"
  proof -
    have "\<forall>x \<in> dom (bt_get (fst maps)). alias_free x" using inv by (simp add: collected_def bt_keys_dom)
    then show ?thesis using al(3) by (auto simp: bt_keys_dom al(2) split: if_splits)
  qed
  moreover have "bt_get (snd maps') t =
      (case bt_get ?actions t of None \<Rightarrow> None | Some a \<Rightarrow> if a_legacy_aliases a = [] then None else Some (a_legacy_aliases a))" for t
    using old(2) [of t] fresh bt.get_put [OF wf(3), of ?t ?new] unfolding get snd
    by (cases "t = ?t") auto
  moreover have "bt_wf (snd maps')" using wf(3) bt.wf_put [OF wf(3)] by (simp add: snd)
  moreover have "\<forall>a \<in> set (bt_values ?actions). admit_action env version components a = Inr a"
    using inv admit bt_values_insert_subset [of ?t action actions] by (auto simp: collected_def)
  moreover have "keyed a_target ?actions" using inv by (simp add: collected_def keyed_insert)
  ultimately show ?thesis
    using al(1) bt.wf_put [OF wf(1)] unfolding collected_def by blast
qed

lemma collect_actions_Inr:
  "collect_actions env version components actions maps specs = Inr (actions', maps') \<Longrightarrow>
     collected env version components actions maps \<Longrightarrow> collected env version components actions' maps'"
proof (induction env version components actions maps specs rule: collect_actions.induct)
  case (2 env version components actions maps spec rest)
  from 2(2) obtain action maps1 where a: "admit_action env version components spec = Inr action"
    "bt_get actions (a_target action) = None"
    "register_aliases maps (a_target action) (a_legacy_aliases action) = Inr maps1"
    and rest: "collect_actions env version components (bt_insert (a_target action) action actions) maps1 rest = Inr (actions', maps')"
    by (auto split: sum.splits if_splits)
  have "collected env version components (bt_insert (a_target action) action actions) maps1"
    by (rule collected_step [OF 2(3) admit_action_normal [OF a(1)] a(2,3)])
  with 2(1) [OF a(1) _ a(3) rest] a(2) show ?case by simp
qed simp

definition profile_ok :: "(TargetId, ActionSpec) btree_map \<Rightarrow> ProfileSpec \<Rightarrow> bool" where
  "profile_ok actions profile \<longleftrightarrow>
     pr_targets profile \<noteq> [] \<and> distinct (pr_targets profile) \<and>
     list_all (\<lambda>t. bt_get actions t \<noteq> None) (pr_targets profile)"

lemma check_profile_targets_None_iff:
  "check_profile_targets actions profile seen targets = None \<longleftrightarrow>
     list_all (\<lambda>t. bt_get actions t \<noteq> None) targets \<and> distinct targets \<and> set targets \<inter> set seen = {}"
  by (induction actions profile seen targets rule: check_profile_targets.induct) auto

lemma collect_profiles_Inr:
  "collect_profiles actions m specs = Inr m' \<Longrightarrow> bt_wf m \<Longrightarrow> keyed pr_id m \<Longrightarrow>
     list_all (profile_ok actions) (bt_values m) \<Longrightarrow>
     bt_wf m' \<and> keyed pr_id m' \<and> list_all (profile_ok actions) (bt_values m')"
proof (induction actions m specs rule: collect_profiles.induct)
  case (2 actions m profile rest)
  from 2(2) have p: "pr_targets profile \<noteq> []"
    "check_profile_targets actions (pr_id profile) [] (pr_targets profile) = None"
    "bt_get m (pr_id profile) = None"
    and rest: "collect_profiles actions (bt_insert (pr_id profile) profile m) rest = Inr m'"
    by (auto split: if_splits option.splits)
  have "profile_ok actions profile"
    using p(1,2) by (simp add: profile_ok_def check_profile_targets_None_iff)
  then have "list_all (profile_ok actions) (bt_values (bt_insert (pr_id profile) profile m))"
    using 2(5) bt_values_insert_subset [of "pr_id profile" profile m] by (auto simp: list_all_iff)
  with 2(1) [OF p(1,2) _ rest bt.wf_put [OF 2(3)] keyed_insert [OF 2(4) refl]] p(3) show ?case by simp
qed simp
definition catalog_ok :: "repo_env \<Rightarrow> RepositoryCatalog \<Rightarrow> bool" where
  "catalog_ok env catalog \<longleftrightarrow>
     bt_wf (rc_components catalog) \<and> keyed c_id (rc_components catalog) \<and>
     dependency_verdict c_depends_on (rc_components catalog) None \<and>
     collected env (rc_contract_version catalog) (rc_components catalog) (rc_actions catalog)
       (rc_aliases catalog, rc_target_aliases catalog) \<and>
     dependency_verdict a_depends_on (rc_actions catalog) None \<and>
     bt_wf (rc_profiles catalog) \<and> keyed pr_id (rc_profiles catalog) \<and>
     list_all (profile_ok (rc_actions catalog)) (bt_values (rc_profiles catalog)) \<and>
     (case rc_default_check_profile catalog of None \<Rightarrow> False | Some p \<Rightarrow> bt_get (rc_profiles catalog) p \<noteq> None) \<and>
     validate_native_path_policy env (rc_components catalog) (rc_actions catalog) (rc_affected_ignore catalog) = None"

lemma from_native_catalog_ok:
  assumes "from_native_with_ignore env version digest component_specs action_specs profile_specs default_profile
      affected_ignore = Inr catalog"
  shows "catalog_ok env catalog"
proof -
  from assms obtain components actions maps where
    c: "collect_components bt_empty component_specs = Inr components"
    "validate_component_dependencies components = None"
    "collect_actions env version components bt_empty (bt_empty, bt_empty) action_specs = Inr (actions, maps)"
    and finish: "finish_native env version digest component_specs action_specs profile_specs default_profile
      affected_ignore components actions maps = Inr catalog"
    by (auto simp: from_native_with_ignore_def split: if_splits sum.splits option.splits)
  from finish obtain profiles where
    f: "validate_action_dependencies actions = None"
    "validate_native_path_policy env components actions affected_ignore = None"
    "collect_profiles actions bt_empty profile_specs = Inr profiles"
    "validate_default_profile default_profile profiles = None"
    and catalog: "catalog = \<lparr>rc_contract_version = version, rc_config_digest = digest,
      rc_components = components, rc_actions = actions, rc_profiles = profiles,
      rc_default_check_profile = default_profile, rc_affected_ignore = affected_ignore,
      rc_aliases = fst maps, rc_target_aliases = snd maps\<rparr>"
    by (auto simp: finish_native_def split: sum.splits option.splits)
  have comp: "bt_wf components" "keyed c_id components"
    using collect_components_Inr [OF c(1)] by (simp_all add: keyed_def bt_empty_def bt_wf_def)
  have "collected env version components bt_empty (bt_empty, bt_empty)"
    by (simp add: collected_def keyed_def bt_empty_def bt_values_def bt_keys_def bt_get_def aliases_of_def bt_wf_def)
  then have act: "collected env version components actions maps" by (rule collect_actions_Inr [OF c(3)])
  then have "bt_wf actions" "keyed a_target actions" by (auto simp: collected_def)
  from dependency_verdict_combined [OF this, of a_depends_on] f(1)
  have v1: "dependency_verdict a_depends_on actions None" by (simp add: validate_action_dependencies_def)
  from dependency_verdict_combined [OF comp, of c_depends_on] c(2)
  have v2: "dependency_verdict c_depends_on components None" by (simp add: validate_component_dependencies_def)
  have "bt_wf profiles \<and> keyed pr_id profiles \<and> list_all (profile_ok actions) (bt_values profiles)"
    using collect_profiles_Inr [OF f(3)] by (simp add: keyed_def bt_values_def bt_empty_def bt_wf_def)
  then show ?thesis
    using comp act v1 v2 f(2,4) catalog
    by (auto simp: catalog_ok_def validate_default_profile_def split: option.splits if_splits)
qed

text \<open>
  C28. The invariant of an admitted catalog. Every catalog that is built from native
  records has components, actions and profiles stored under their own identifiers; every
  action passes all the action rules again unchanged; the dependencies of components and
  of actions are declared, free of repetition and acyclic; every profile names at least one
  action, each once, all of them known, and the default profile exists; an alias leads to a
  target exactly when the target's action declares it, and no alias can be read as a
  canonical selector; the path rules hold.
\<close>

theorem native_catalog_invariant:
  assumes "from_native_with_ignore env version digest component_specs action_specs profile_specs default_profile
      affected_ignore = Inr catalog"
  shows "catalog_ok env catalog"
  by (rule from_native_catalog_ok [OF assms])

definition sample_catalog_result :: "catalog_error + RepositoryCatalog" where
  "sample_catalog_result =
     from_native_with_ignore sample_repo_env 8 ''d'' [new_component ''api'' ''.'']
       [sample_action ''test'' [''build''], sample_action ''build'' []]
       [new_profile ''verify'' [(''api'', ''test'')]] (Some ''verify'') []"

definition sample_catalog :: RepositoryCatalog where
  "sample_catalog =
     (case sample_catalog_result of
        Inr catalog \<Rightarrow> catalog
      | Inl e \<Rightarrow> \<lparr>rc_contract_version = 0, rc_config_digest = [], rc_components = [], rc_actions = [],
                  rc_profiles = [], rc_default_check_profile = None, rc_affected_ignore = [],
                  rc_aliases = [], rc_target_aliases = []\<rparr>)"

lemma not_isl_Inr: "\<not> isl r \<Longrightarrow> r = Inr (case r of Inr y \<Rightarrow> y | Inl e \<Rightarrow> x)"
  by (cases r) auto

lemma sample_catalog_admitted: "sample_catalog_result = Inr sample_catalog"
proof -
  have "\<not> isl sample_catalog_result" by code_simp
  then show ?thesis unfolding sample_catalog_def by (rule not_isl_Inr)
qed

theorem native_catalog_invariant_witness: "catalog_ok sample_repo_env sample_catalog"
  using native_catalog_invariant [OF sample_catalog_admitted [unfolded sample_catalog_result_def]] .

end
