(* ===== verification/Legacy_Catalog.thy ===== *)
theory Legacy_Catalog
  imports Catalog
begin

text \<open>
  \<open>crates/jig-repository/src/legacy.rs\<close> and \<open>from_legacy\<close> and \<open>from_context\<close> of \<open>lib.rs\<close>: the
  catalog of a contract that declares tools instead of actions, and the choice between the
  two kinds of catalog.
\<close>

section \<open>Legacy contracts\<close>

definition kind_COMMAND :: string where "kind_COMMAND = ''command''"
definition kind_NATIVE :: string where "kind_NATIVE = ''native''"

datatype legacy_error =
    LegacyVersion
  | DuplicateTool string
  | ToolWithoutCommand string
  | UnsupportedKind string string
  | LegacyIdentifier IdentifierError
  | ExhaustedIds string
  | UnknownCheck string
  | CheckNotReadOnly string

definition legacy_effects :: "string \<Rightarrow> ActionIntent \<times> ActionEffect list" where
  "legacy_effects name =
     (if name = tool_BOOTSTRAP then (Operate, [Worktree, Process, External])
      else if name = tool_MIGRATION_ADD \<or> name = tool_SCHEMA_DUMP then (Generate, [Worktree, Process])
      else (Check, [ReadOnly, Process]))"

definition legacy_action :: "ManifestTool \<Rightarrow> TargetId \<Rightarrow> legacy_error + ActionSpec" where
  "legacy_action tool target =
     (let (intent, effects) = legacy_effects (mt_name tool);
          build = (\<lambda>runner. Inr ((new_action target intent runner)
            \<lparr>a_description := Some (mt_description tool), a_effects := effects\<rparr>)) in
      if mt_kind tool = kind_COMMAND then
        (case mt_command tool of
           None \<Rightarrow> Inl (ToolWithoutCommand (mt_name tool))
         | Some command \<Rightarrow> build (Command command None bt_empty))
      else if mt_kind tool = kind_NATIVE then build (Native (mt_name tool) None)
      else Inl (UnsupportedKind (mt_name tool) (mt_kind tool)))"

definition KNOWN_LEGACY_IDS :: "(string \<times> string) list" where
  "KNOWN_LEGACY_IDS =
     [(''jig.fmt_check'', ''fmt''), (''jig.contract_check'', ''contract''), (''jig.test_locked'', ''test-locked''),
      (''jig.typescript_build'', ''typescript-build''), (''jig.typescript_coverage'', ''typescript-coverage''),
      (''jig.typescript_lint'', ''typescript-lint''), (''jig.typescript_typecheck'', ''typescript-typecheck''),
      (''jig.schema_check'', ''schema''), (''jig.schema_dump'', ''schema-dump''), (''jig.sqlx_check'', ''sqlx''),
      (''jig.sqlc_check'', ''sqlc''), (''jig.migration_add'', ''migration-add''), (''jig.bootstrap'', ''bootstrap''),
      (''jig.clippy'', ''clippy''), (''jig.lint'', ''lint''), (''jig.test'', ''test'')]"

definition known_legacy_action_id :: "string \<Rightarrow> string option" where
  "known_legacy_action_id tool_name = map_of KNOWN_LEGACY_IDS tool_name"

definition full_digest :: "repo_env \<Rightarrow> string \<Rightarrow> string" where
  "full_digest env value = hex (re_sha256 env value)"

definition short_digest :: "repo_env \<Rightarrow> string \<Rightarrow> string" where
  "short_digest env value = take 12 (full_digest env value)"

definition to_ascii_lowercase :: "char \<Rightarrow> char" where
  "to_ascii_lowercase c = (if 65 \<le> byte c \<and> byte c \<le> 90 then char_of (byte c + 32) else c)"

text \<open>
  The characters of the name become a word of letters, digits and single dashes. The bytes
  of one character outside ASCII yield one dash at most, as the character does.
\<close>

fun sanitize_chars :: "string \<Rightarrow> string \<Rightarrow> bool \<Rightarrow> string" where
  "sanitize_chars [] value last_was_separator = value"
| "sanitize_chars (character # rest) value last_was_separator =
     (let normalized = to_ascii_lowercase character in
      if is_ascii_lowercase normalized \<or> is_ascii_digit normalized
      then sanitize_chars rest (value @ [normalized]) False
      else if \<not> last_was_separator \<and> value \<noteq> [] then sanitize_chars rest (value @ ''-'') True
      else sanitize_chars rest value last_was_separator)"

definition trim_end_matches :: "char list \<Rightarrow> string \<Rightarrow> string" where
  "trim_end_matches cs s = rev (dropWhile (\<lambda>c. c \<in> set cs) (rev s))"

definition trim_matches :: "char list \<Rightarrow> string \<Rightarrow> string" where
  "trim_matches cs s = trim_end_matches cs (dropWhile (\<lambda>c. c \<in> set cs) s)"

definition sanitize_legacy_action_id :: "repo_env \<Rightarrow> string \<Rightarrow> string" where
  "sanitize_legacy_action_id env tool_name =
     (let source = (case strip_prefix ''jig.'' tool_name of None \<Rightarrow> tool_name | Some rest \<Rightarrow> rest);
          value = trim_matches ''-'' (sanitize_chars source [] False) in
      if value = [] then ''tool-'' @ short_digest env tool_name
      else if length value \<le> 64 then value
      else
        (let suffix = short_digest env tool_name in
         trim_end_matches ''-'' (take (64 - length suffix - 1) value) @ ''-'' @ suffix))"

fun fallback_ids :: "string \<Rightarrow> string \<Rightarrow> string \<Rightarrow> ActionId list \<Rightarrow> nat list \<Rightarrow> legacy_error + ActionId" where
  "fallback_ids tool_name base digest occupied [] = Inl (ExhaustedIds tool_name)"
| "fallback_ids tool_name base digest occupied (suffix_len # rest) =
     (let suffix = take suffix_len digest;
          max_base_len = 64 - length suffix - 1;
          shortened = trim_end_matches ''-_'' (take (min (length base) max_base_len) base) in
      case parse_identifier ActionKind (shortened @ ''-'' @ suffix) of
        Inl e \<Rightarrow> Inl (LegacyIdentifier e)
      | Inr candidate \<Rightarrow>
          if candidate \<notin> set occupied then Inr candidate
          else fallback_ids tool_name base digest occupied rest)"

definition SUFFIX_LENGTHS :: "nat list" where
  "SUFFIX_LENGTHS = map (\<lambda>i. 12 + 4 * i) [0..<13]"

definition unique_legacy_action_id :: "repo_env \<Rightarrow> string \<Rightarrow> ActionId list \<Rightarrow> legacy_error + ActionId" where
  "unique_legacy_action_id env tool_name occupied =
     (let base = (case known_legacy_action_id tool_name of
                    None \<Rightarrow> sanitize_legacy_action_id env tool_name
                  | Some ident \<Rightarrow> ident) in
      case parse_identifier ActionKind base of
        Inl e \<Rightarrow> Inl (LegacyIdentifier e)
      | Inr candidate \<Rightarrow>
          if candidate \<notin> set occupied then Inr candidate
          else fallback_ids tool_name base (full_digest env tool_name) occupied SUFFIX_LENGTHS)"

fun configured_targets ::
    "(TargetId, ActionSpec) btree_map \<Rightarrow> (string, TargetId) btree_map \<Rightarrow> string list \<Rightarrow> TargetId btree_set \<Rightarrow>
     legacy_error + TargetId btree_set" where
  "configured_targets actions aliases [] targets = Inr targets"
| "configured_targets actions aliases (alias # rest) targets =
     (case bt_get aliases alias of
        None \<Rightarrow> Inl (UnknownCheck alias)
      | Some target \<Rightarrow>
          (case bt_get actions target of
             None \<Rightarrow> Inl (UnknownCheck alias)
           | Some action \<Rightarrow>
               if a_intent action \<noteq> Check \<or> ReadOnly \<notin> set (a_effects action) then
                 (if alias = tool_SCHEMA_DUMP then configured_targets actions aliases rest targets
                  else Inl (CheckNotReadOnly alias))
               else configured_targets actions aliases rest (bs_insert target targets)))"

definition legacy_default_targets ::
    "(TargetId, ActionSpec) btree_map \<Rightarrow> (string, TargetId) btree_map \<Rightarrow> string list \<Rightarrow> legacy_error + TargetId list" where
  "legacy_default_targets actions aliases configured_checks =
     (if configured_checks \<noteq> [] then configured_targets actions aliases configured_checks []
      else
        Inr (map a_target
          (filter (\<lambda>a. a_intent a = Check \<and> ReadOnly \<in> set (a_effects a) \<and>
                      tool_TEST_LOCKED \<notin> set (a_legacy_aliases a))
            (bt_values actions))))"

record legacy_state =
  ls_seen :: "string list"
  ls_occupied :: "ActionId list"
  ls_actions :: "(TargetId, ActionSpec) btree_map"
  ls_aliases :: "(string, TargetId) btree_map"
  ls_target_aliases :: "(TargetId, string list) btree_map"

fun project_tools :: "repo_env \<Rightarrow> legacy_state \<Rightarrow> ManifestTool list \<Rightarrow> legacy_error + legacy_state" where
  "project_tools env s [] = Inr s"
| "project_tools env s (tool # rest) =
     (if mt_name tool \<in> set (ls_seen s) then Inl (DuplicateTool (mt_name tool))
      else
        (case unique_legacy_action_id env (mt_name tool) (ls_occupied s) of
           Inl e \<Rightarrow> Inl e
         | Inr action_id \<Rightarrow>
             (let target = (''repo'', action_id) in
              case legacy_action tool target of
                Inl e \<Rightarrow> Inl e
              | Inr action \<Rightarrow>
                  project_tools env
                    \<lparr>ls_seen = mt_name tool # ls_seen s, ls_occupied = action_id # ls_occupied s,
                     ls_actions = bt_insert target (action \<lparr>a_legacy_aliases := [mt_name tool]\<rparr>) (ls_actions s),
                     ls_aliases = bt_insert (mt_name tool) target (ls_aliases s),
                     ls_target_aliases = bt_insert target [mt_name tool] (ls_target_aliases s)\<rparr>
                    rest)))"

definition legacy_component :: ComponentSpec where
  "legacy_component =
     (new_component ''repo'' ''.'')
       \<lparr>c_description := Some ''Compatibility component for legacy repository tools.'',
        c_tags := [''legacy''], c_adapters := [''legacy-tools'']\<rparr>"

definition from_legacy ::
    "repo_env \<Rightarrow> nat \<Rightarrow> string \<Rightarrow> ManifestTool list \<Rightarrow> string list \<Rightarrow> legacy_error + RepositoryCatalog" where
  "from_legacy env version digest manifest_tools configured_checks =
     (if NATIVE_REPOSITORY_CONTRACT_VERSION \<le> version then Inl LegacyVersion
      else
        (case project_tools env
               \<lparr>ls_seen = [], ls_occupied = [], ls_actions = bt_empty, ls_aliases = bt_empty, ls_target_aliases = bt_empty\<rparr>
               (sort_key mt_name manifest_tools) of
           Inl e \<Rightarrow> Inl e
         | Inr s \<Rightarrow>
             (case legacy_default_targets (ls_actions s) (ls_aliases s) configured_checks of
                Inl e \<Rightarrow> Inl e
              | Inr default_targets \<Rightarrow>
                  Inr \<lparr>rc_contract_version = version, rc_config_digest = digest,
                       rc_components = [(''repo'', legacy_component)], rc_actions = ls_actions s,
                       rc_profiles =
                         (if default_targets = [] then bt_empty else [(''verify'', new_profile ''verify'' default_targets)]),
                       rc_default_check_profile = (if default_targets = [] then None else Some ''verify''),
                       rc_affected_ignore = [],
                       rc_aliases = ls_aliases s, rc_target_aliases = ls_target_aliases s\<rparr>)))"

section \<open>The catalog of a repository context\<close>

text \<open>What the catalog reads of \<open>RepoContext\<close>.\<close>

record contract_view =
  cv_version :: nat
  cv_digest :: string
  cv_components :: "ComponentSpec list"
  cv_actions :: "ActionSpec list"
  cv_profiles :: "ProfileSpec list"
  cv_default_check_profile :: "ProfileId option"
  cv_affected_ignore :: "string list"
  cv_tools :: "ManifestTool list"
  cv_work_check_tools :: "string list"

definition runner_directory :: "ActionRunner \<Rightarrow> string option" where
  "runner_directory runner =
     (case runner of
        Command command directory environment \<Rightarrow> directory
      | Shell command directory environment \<Rightarrow> directory
      | Argv program args directory environment \<Rightarrow> directory
      | _ \<Rightarrow> None)"

definition validate_action_working_directories ::
    "(string list \<Rightarrow> string list option) \<Rightarrow> (string list \<Rightarrow> bool) \<Rightarrow> ActionSpec list \<Rightarrow> catalog_error option" where
  "validate_action_working_directories canonicalize is_dir actions =
     first_error
       (\<lambda>action. case runner_directory (a_runner action) of
          None \<Rightarrow> None
        | Some directory \<Rightarrow>
            (case resolve_repository_working_directory canonicalize is_dir (Some directory) of
               Inl e \<Rightarrow> Some (CatalogDirectory (a_target action) e)
             | Inr path \<Rightarrow> None))
       actions"

definition from_context ::
    "repo_env \<Rightarrow> (string list \<Rightarrow> string list option) \<Rightarrow> (string list \<Rightarrow> bool) \<Rightarrow> contract_view \<Rightarrow>
     (catalog_error + legacy_error) + RepositoryCatalog" where
  "from_context env canonicalize is_dir ctx =
     (if NATIVE_REPOSITORY_CONTRACT_VERSION \<le> cv_version ctx then
        (case validate_action_working_directories canonicalize is_dir (cv_actions ctx) of
           Some e \<Rightarrow> Inl (Inl e)
         | None \<Rightarrow>
             (case from_native_with_ignore env (cv_version ctx) (cv_digest ctx) (cv_components ctx) (cv_actions ctx)
                     (cv_profiles ctx) (cv_default_check_profile ctx) (cv_affected_ignore ctx) of
                Inl e \<Rightarrow> Inl (Inl e)
              | Inr catalog \<Rightarrow> Inr catalog))
      else
        (case from_legacy env (cv_version ctx) (cv_digest ctx) (cv_tools ctx) (cv_work_check_tools ctx) of
           Inl e \<Rightarrow> Inl (Inr e)
         | Inr catalog \<Rightarrow> Inr catalog))"

subsection \<open>Legacy identifiers\<close>

abbreviation word_byte :: "char \<Rightarrow> bool" where
  "word_byte c \<equiv> is_ascii_lowercase c \<or> is_ascii_digit c"

abbreviation slug_byte :: "char \<Rightarrow> bool" where
  "slug_byte c \<equiv> is_ascii_lowercase c \<or> is_ascii_digit c \<or> c = CHR ''-'' \<or> c = CHR ''_''"

lemma hex_digit_word: "d < 16 \<Longrightarrow> word_byte (hex_digit d)"
  by (auto simp: hex_digit_def is_ascii_digit_def is_ascii_lowercase_def of_char_of)

lemma hex_word: "list_all word_byte (hex bytes)"
proof (induction bytes)
  case (Cons b bytes)
  have "byte b < 256" by (rule nat_of_char_less_256)
  then have "byte b div 16 < 16" by (intro less_mult_imp_div_less) simp
  then have "word_byte (hex_digit (byte b div 16))" "word_byte (hex_digit (byte b mod 16))"
    by (simp_all add: hex_digit_word)
  then show ?case using Cons by (simp add: hex_def)
qed (simp add: hex_def)

lemma length_hex: "length (hex bytes) = 2 * length bytes"
  by (induction bytes) (auto simp: hex_def)

lemma identifier_ok_append:
  assumes "prefix \<noteq> []" "word_byte (hd prefix)" "list_all slug_byte prefix" "suffix \<noteq> []" "list_all word_byte suffix"
    "length prefix + length suffix < 64"
  shows "identifier_ok (prefix @ ''-'' @ suffix)"
proof -
  have "word_byte (last suffix)" using assms(4,5) by (simp add: list_all_iff)
  then show ?thesis using assms by (auto simp: identifier_ok_def MAX_IDENTIFIER_BYTES_def list_all_iff)
qed

lemma trim_end_matches_prefix: "\<exists>rest. s = trim_end_matches cs s @ rest \<and> set rest \<subseteq> set cs"
proof -
  have "rev s = takeWhile (\<lambda>c. c \<in> set cs) (rev s) @ dropWhile (\<lambda>c. c \<in> set cs) (rev s)" by simp
  then have "s = trim_end_matches cs s @ rev (takeWhile (\<lambda>c. c \<in> set cs) (rev s))"
    unfolding trim_end_matches_def by (metis rev_append rev_rev_ident)
  moreover have "set (rev (takeWhile (\<lambda>c. c \<in> set cs) (rev s))) \<subseteq> set cs" by (auto dest: set_takeWhileD)
  ultimately show ?thesis by blast
qed

lemma trim_end_matches_last:
  "trim_end_matches cs s \<noteq> [] \<Longrightarrow> last (trim_end_matches cs s) \<notin> set cs"
  unfolding trim_end_matches_def by (metis hd_dropWhile last_rev rev.simps(1))

text \<open>A non-empty prefix that starts with a letter or digit keeps its first character.\<close>

lemma trim_end_matches_head:
  assumes "s \<noteq> []" "hd s \<notin> set cs"
  shows "trim_end_matches cs s \<noteq> [] \<and> hd (trim_end_matches cs s) = hd s \<and>
    set (trim_end_matches cs s) \<subseteq> set s \<and> length (trim_end_matches cs s) \<le> length s"
proof -
  obtain rest where rest: "s = trim_end_matches cs s @ rest" "set rest \<subseteq> set cs"
    using trim_end_matches_prefix by blast
  have "trim_end_matches cs s \<noteq> []"
  proof
    assume "trim_end_matches cs s = []"
    then have "s = rest" using rest(1) by simp
    then show False using assms rest(2) by (cases s) auto
  qed
  then show ?thesis
    using rest(1) by (metis Un_upper1 hd_append2 le_add1 length_append set_append)
qed

lemma word_byte_not_dash: "word_byte c \<Longrightarrow> c \<notin> set ''-_'' \<and> c \<notin> set ''-''"
  by (auto simp: is_ascii_lowercase_def is_ascii_digit_def)

lemma sanitize_chars_slug:
  "list_all (\<lambda>c. word_byte c \<or> c = CHR ''-'') value \<Longrightarrow>
     list_all (\<lambda>c. word_byte c \<or> c = CHR ''-'') (sanitize_chars source value sep)"
  by (induction source "value" sep rule: sanitize_chars.induct) (auto simp: Let_def)

lemma trim_matches_bounds:
  assumes "trim_matches cs s \<noteq> []"
  shows "hd (trim_matches cs s) \<notin> set cs \<and> last (trim_matches cs s) \<notin> set cs \<and>
    set (trim_matches cs s) \<subseteq> set s"
proof -
  define d where "d = dropWhile (\<lambda>c. c \<in> set cs) s"
  have trim: "trim_matches cs s = trim_end_matches cs d" by (simp add: trim_matches_def d_def)
  have "d \<noteq> []" using assms unfolding trim by (auto simp: trim_end_matches_def)
  moreover from this have hd: "hd d \<notin> set cs" unfolding d_def by (rule hd_dropWhile)
  ultimately have "hd (trim_end_matches cs d) = hd d" "set (trim_end_matches cs d) \<subseteq> set d"
    using trim_end_matches_head by blast+
  moreover have "set d \<subseteq> set s" unfolding d_def by (auto dest: set_dropWhileD)
  ultimately show ?thesis
    using hd trim_end_matches_last [of cs d] assms unfolding trim by auto
qed

lemma trim_matches_slug:
  assumes "list_all (\<lambda>c. word_byte c \<or> c = CHR ''-'') s" "trim_matches ''-'' s \<noteq> []"
  shows "word_byte (hd (trim_matches ''-'' s)) \<and> word_byte (last (trim_matches ''-'' s)) \<and>
    list_all (\<lambda>c. word_byte c \<or> c = CHR ''-'') (trim_matches ''-'' s)"
proof -
  have all: "\<forall>c \<in> set (trim_matches ''-'' s). word_byte c \<or> c = CHR ''-''"
    using assms(1) trim_matches_bounds [OF assms(2)] unfolding list_all_iff by blast
  moreover have "hd (trim_matches ''-'' s) \<in> set (trim_matches ''-'' s)" "last (trim_matches ''-'' s) \<in> set (trim_matches ''-'' s)"
    using assms(2) by simp_all
  ultimately show ?thesis
    using trim_matches_bounds [OF assms(2)] unfolding list_all_iff by auto
qed

lemma digest_word:
  assumes "length (re_sha256 env name) = 32"
  shows "length (full_digest env name) = 64 \<and> list_all word_byte (full_digest env name)"
  using assms by (simp add: full_digest_def length_hex hex_word)

lemma sanitize_identifier:
  assumes "length (re_sha256 env name) = 32"
  shows "identifier_ok (sanitize_legacy_action_id env name)"
proof -
  let ?source = "case strip_prefix ''jig.'' name of None \<Rightarrow> name | Some rest \<Rightarrow> rest"
  let ?v = "trim_matches ''-'' (sanitize_chars ?source [] False)"
  have slug: "list_all (\<lambda>c. word_byte c \<or> c = CHR ''-'') (sanitize_chars ?source [] False)"
    by (rule sanitize_chars_slug) simp
  have short: "length (short_digest env name) = 12" "list_all word_byte (short_digest env name)"
    using digest_word [OF assms] by (auto simp: short_digest_def list_all_iff dest: in_set_takeD)
  have tool: "identifier_ok (''tool'' @ ''-'' @ short_digest env name)"
    using short by (intro identifier_ok_append) (auto simp: is_ascii_lowercase_def)
  show ?thesis
  proof (cases "?v = []")
    case True
    then show ?thesis using tool by (simp add: sanitize_legacy_action_id_def Let_def)
  next
    case False
    from trim_matches_slug [OF slug False]
    have v: "word_byte (hd ?v)" "word_byte (last ?v)" "list_all (\<lambda>c. word_byte c \<or> c = CHR ''-'') ?v" by blast+
    show ?thesis
    proof (cases "length ?v \<le> 64")
      case True
      have "identifier_ok ?v"
        using False True v unfolding identifier_ok_def MAX_IDENTIFIER_BYTES_def list_all_iff by blast
      then show ?thesis using False True by (simp add: sanitize_legacy_action_id_def Let_def)
    next
      case long: False
      let ?p = "take 51 ?v"
      have p: "?p \<noteq> []" "hd ?p = hd ?v" "set ?p \<subseteq> set ?v" using long by (auto dest: in_set_takeD)
      have "hd ?p \<notin> set ''-''" using v(1) p(2) word_byte_not_dash by simp
      from trim_end_matches_head [OF p(1) this] p v
      have "identifier_ok (trim_end_matches ''-'' ?p @ ''-'' @ short_digest env name)"
        using short by (intro identifier_ok_append) (auto simp: list_all_iff)
      then show ?thesis using False long short(1) by (simp add: sanitize_legacy_action_id_def Let_def)
    qed
  qed
qed

text \<open>The identifiers that a name may get, in the order of preference.\<close>

definition suffixed_id :: "string \<Rightarrow> string \<Rightarrow> nat \<Rightarrow> string" where
  "suffixed_id base digest n = trim_end_matches ''-_'' (take (63 - n) base) @ ''-'' @ take n digest"

definition legacy_candidates :: "repo_env \<Rightarrow> string \<Rightarrow> string list" where
  "legacy_candidates env name =
     (let base = (case known_legacy_action_id name of None \<Rightarrow> sanitize_legacy_action_id env name | Some ident \<Rightarrow> ident) in
      base # map (suffixed_id base (full_digest env name)) [12, 16, 20, 24, 28, 32, 36, 40, 44, 48, 52, 56, 60])"

lemma fallback_ids_spec:
  assumes "identifier_ok base" "length digest = 64" "list_all word_byte digest"
    "\<forall>n \<in> set lens. 1 \<le> n \<and> n \<le> 60"
  shows "list_all identifier_ok (map (suffixed_id base digest) lens) \<and>
    fallback_ids tool_name base digest occupied lens =
      (case find (\<lambda>ident. ident \<notin> set occupied) (map (suffixed_id base digest) lens) of
         Some ident \<Rightarrow> Inr ident
       | None \<Rightarrow> Inl (ExhaustedIds tool_name))"
  using assms(4)
proof (induction lens)
  case (Cons n lens)
  let ?suffix = "take n digest"
  let ?prefix = "take (min (length base) (64 - length ?suffix - 1)) base"
  let ?short = "trim_end_matches ''-_'' ?prefix"
  have n: "length ?suffix = n" "1 \<le> n" "n \<le> 60" using Cons(2) assms(2) by auto
  have base: "base \<noteq> []" "word_byte (hd base)" "list_all slug_byte base"
    using assms(1) by (simp_all add: identifier_ok_def)
  have p: "?prefix \<noteq> []" "hd ?prefix = hd base" "set ?prefix \<subseteq> set base" "length ?prefix \<le> 63 - n"
    using base(1) n by (auto dest: in_set_takeD)
  have "hd ?prefix \<notin> set ''-_''" using p(2) base(2) word_byte_not_dash by metis
  note t = trim_end_matches_head [OF p(1) this]
  have "identifier_ok (?short @ ''-'' @ ?suffix)"
  proof (rule identifier_ok_append)
    show "?short \<noteq> []" "word_byte (hd ?short)" using t p(2) base(2) by simp_all
    show "list_all slug_byte ?short"
      using t p(3) base(3) unfolding list_all_iff by blast
    show "?suffix \<noteq> []" using n by auto
    show "list_all word_byte ?suffix" using assms(3) unfolding list_all_iff by (meson in_set_takeD)
    show "length ?short + length ?suffix < 64" using t p(4) n by linarith
  qed
  then have id: "parse_identifier ActionKind (?short @ ''-'' @ ?suffix) = Inr (?short @ ''-'' @ ?suffix)"
    "identifier_ok (?short @ ''-'' @ ?suffix)"
    by (simp_all only: parse_identifier_Inr_iff simp_thms)
  have "suffixed_id base digest n = ?short @ ''-'' @ ?suffix"
    using n by (simp add: suffixed_id_def min_def)
  then show ?case using Cons id by (simp add: Let_def)
qed simp

lemma known_legacy_ids: "list_all (\<lambda>(name, ident). identifier_ok ident) KNOWN_LEGACY_IDS"
  by code_simp

lemma suffix_lengths: "SUFFIX_LENGTHS = [12, 16, 20, 24, 28, 32, 36, 40, 44, 48, 52, 56, 60]"
  by code_simp

lemma legacy_base_ok:
  assumes "length (re_sha256 env name) = 32"
  shows "identifier_ok (case known_legacy_action_id name of None \<Rightarrow> sanitize_legacy_action_id env name | Some ident \<Rightarrow> ident)"
proof (cases "known_legacy_action_id name")
  case None
  then show ?thesis using sanitize_identifier [OF assms] by simp
next
  case (Some ident)
  then have "(name, ident) \<in> set KNOWN_LEGACY_IDS"
    unfolding known_legacy_action_id_def by (rule map_of_SomeD)
  then show ?thesis using known_legacy_ids Some unfolding list_all_iff by auto
qed

lemma legacy_candidates_spec:
  assumes "length (re_sha256 env name) = 32"
  shows "list_all identifier_ok (legacy_candidates env name)"
    "unique_legacy_action_id env name occupied =
      (case find (\<lambda>ident. ident \<notin> set occupied) (legacy_candidates env name) of
         Some ident \<Rightarrow> Inr ident
       | None \<Rightarrow> Inl (ExhaustedIds name))"
proof -
  let ?base = "case known_legacy_action_id name of None \<Rightarrow> sanitize_legacy_action_id env name | Some ident \<Rightarrow> ident"
  have base: "identifier_ok ?base" by (rule legacy_base_ok [OF assms])
  then have parse: "parse_identifier ActionKind ?base = Inr ?base" by (simp only: parse_identifier_Inr_iff simp_thms)
  have candidates: "legacy_candidates env name = ?base # map (suffixed_id ?base (full_digest env name)) SUFFIX_LENGTHS"
    by (simp only: legacy_candidates_def suffix_lengths Let_def)
  have "\<forall>n \<in> set SUFFIX_LENGTHS. 1 \<le> n \<and> n \<le> 60" by (simp add: suffix_lengths)
  note fallback = fallback_ids_spec [OF base conjunct1 [OF digest_word [OF assms]] conjunct2 [OF digest_word [OF assms]] this,
      of name occupied]
  show "list_all identifier_ok (legacy_candidates env name)"
    unfolding candidates using base fallback by (simp only: list.pred_inject simp_thms)
  show "unique_legacy_action_id env name occupied =
      (case find (\<lambda>ident. ident \<notin> set occupied) (legacy_candidates env name) of
         Some ident \<Rightarrow> Inr ident | None \<Rightarrow> Inl (ExhaustedIds name))"
    unfolding candidates unique_legacy_action_id_def Let_def parse sum.case find.simps conjunct2 [OF fallback]
    by (cases "?base \<in> set occupied") simp_all
qed

lemma unique_legacy_action_id_spec:
  assumes "length (re_sha256 env name) = 32"
  shows "case unique_legacy_action_id env name occupied of
      Inr ident \<Rightarrow> identifier_ok ident \<and> ident \<notin> set occupied
    | Inl e \<Rightarrow> e = ExhaustedIds name \<and> set (legacy_candidates env name) \<subseteq> set occupied"
proof (cases "find (\<lambda>ident. ident \<notin> set occupied) (legacy_candidates env name)")
  case None
  then have "set (legacy_candidates env name) \<subseteq> set occupied" by (auto simp: find_None_iff)
  then show ?thesis unfolding legacy_candidates_spec(2) [OF assms] None by simp
next
  case (Some ident)
  then have "ident \<in> set (legacy_candidates env name)" "ident \<notin> set occupied" by (auto simp: find_Some_iff)
  then show ?thesis
    using Some legacy_candidates_spec [OF assms] unfolding list_all_iff by simp
qed

text \<open>
  C29. A legacy tool gets the first free one of fourteen valid identifiers. Given that SHA-256
  digests have 32 bytes, the plain identifier derived from a tool name and the thirteen
  identifiers that end in the first 12, 16, and so on to 60 digits of its digest are all
  valid action identifiers; the tool gets the first of them that is not taken, and the only
  failure is that all fourteen are taken.
\<close>

theorem legacy_identifier_valid:
  assumes "length (re_sha256 env name) = 32"
  shows "length (legacy_candidates env name) = 14 \<and> list_all identifier_ok (legacy_candidates env name) \<and>
    unique_legacy_action_id env name occupied =
      (case find (\<lambda>ident. ident \<notin> set occupied) (legacy_candidates env name) of
         Some ident \<Rightarrow> Inr ident
       | None \<Rightarrow> Inl (ExhaustedIds name)) \<and>
    (case unique_legacy_action_id env name occupied of
       Inr ident \<Rightarrow> identifier_ok ident \<and> ident \<notin> set occupied
     | Inl e \<Rightarrow> e = ExhaustedIds name \<and> set (legacy_candidates env name) \<subseteq> set occupied)"
proof (intro conjI)
  show "length (legacy_candidates env name) = 14" by (simp add: legacy_candidates_def Let_def)
qed (rule legacy_candidates_spec [OF assms] unique_legacy_action_id_spec [OF assms])+

theorem legacy_identifier_valid_witness:
  "unique_legacy_action_id sample_repo_env ''jig.Lint It!'' [''lint-it''] = Inr ''lint-it-000000000000'' \<and>
   identifier_ok ''lint-it-000000000000'' \<and> length (re_sha256 sample_repo_env ''jig.Lint It!'') = 32 \<and>
   length (legacy_candidates sample_repo_env ''jig.Lint It!'') = 14"
proof -
  have run: "unique_legacy_action_id sample_repo_env ''jig.Lint It!'' [''lint-it''] = Inr ''lint-it-000000000000''"
    by code_simp
  have sha: "length (re_sha256 sample_repo_env ''jig.Lint It!'') = 32" by (simp add: sample_repo_env_def)
  note valid = legacy_identifier_valid [OF sha, of "[''lint-it'']", unfolded run sum.case]
  have "identifier_ok ''lint-it-000000000000''" using valid by (elim conjE)
  then show ?thesis by (intro conjI run sha conjunct1 [OF valid])
qed

subsection \<open>The invariant of a legacy catalog\<close>

definition projected :: "legacy_state \<Rightarrow> bool" where
  "projected s \<longleftrightarrow>
     bt_wf (ls_actions s) \<and> keyed a_target (ls_actions s) \<and> bt_wf (ls_aliases s) \<and>
     set (bt_keys (ls_aliases s)) = set (ls_seen s) \<and>
     (\<forall>t \<in> set (bt_keys (ls_actions s)).
        t_component t = ''repo'' \<and> identifier_ok (t_action t) \<and> t_action t \<in> set (ls_occupied s)) \<and>
     (\<forall>name t. bt_get (ls_aliases s) name = Some t \<longleftrightarrow>
        (case bt_get (ls_actions s) t of None \<Rightarrow> False | Some a \<Rightarrow> a_legacy_aliases a = [name])) \<and>
     (\<forall>a \<in> set (bt_values (ls_actions s)). \<exists>name.
        a_legacy_aliases a = [name] \<and> (a_intent a, a_effects a) = legacy_effects name)"

lemma legacy_action_Inr:
  "legacy_action tool target = Inr action \<Longrightarrow>
     a_target action = target \<and> (a_intent action, a_effects action) = legacy_effects (mt_name tool)"
  by (auto simp: legacy_action_def new_action_def Let_def split: prod.splits if_splits option.splits)

lemma projected_step:
  assumes inv: "projected s" and seen: "mt_name tool \<notin> set (ls_seen s)"
    and ident: "identifier_ok ident" "ident \<notin> set (ls_occupied s)"
    and action: "legacy_action tool (''repo'', ident) = Inr action"
  shows "projected
    \<lparr>ls_seen = mt_name tool # ls_seen s, ls_occupied = ident # ls_occupied s,
     ls_actions = bt_insert (''repo'', ident) (action \<lparr>a_legacy_aliases := [mt_name tool]\<rparr>) (ls_actions s),
     ls_aliases = bt_insert (mt_name tool) (''repo'', ident) (ls_aliases s),
     ls_target_aliases = bt_insert (''repo'', ident) [mt_name tool] (ls_target_aliases s)\<rparr>"
proof -
  let ?t = "(''repo'', ident) :: TargetId" and ?n = "mt_name tool"
  let ?a = "action \<lparr>a_legacy_aliases := [?n]\<rparr>"
  have wf: "bt_wf (ls_actions s)" "bt_wf (ls_aliases s)" "keyed a_target (ls_actions s)"
    using inv by (simp_all add: projected_def)
  have a: "a_target ?a = ?t" "(a_intent ?a, a_effects ?a) = legacy_effects ?n"
    using legacy_action_Inr [OF action] by simp_all
  have getA: "bt_get (bt_insert ?t ?a (ls_actions s)) = (bt_get (ls_actions s))(?t \<mapsto> ?a)"
    using wf(1) by (rule bt.get_put)
  have getN: "bt_get (bt_insert ?n ?t (ls_aliases s)) = (bt_get (ls_aliases s))(?n \<mapsto> ?t)"
    using wf(2) by (rule bt.get_put)
  have keys: "\<forall>t \<in> set (bt_keys (ls_actions s)).
        t_component t = ''repo'' \<and> identifier_ok (t_action t) \<and> t_action t \<in> set (ls_occupied s)"
    "set (bt_keys (ls_aliases s)) = set (ls_seen s)"
    using inv unfolding projected_def by blast+
  have fresh: "bt_get (ls_actions s) ?t = None"
    using keys(1) ident(2) by (force simp: bt_get_def bt_keys_def map_of_eq_None_iff)
  have none: "bt_get (ls_aliases s) ?n = None" 
    using keys(2) seen by (simp add: bt_get_def bt_keys_def map_of_eq_None_iff)
  have old: "bt_get (ls_aliases s) name = Some t \<longleftrightarrow>
      (case bt_get (ls_actions s) t of None \<Rightarrow> False | Some a \<Rightarrow> a_legacy_aliases a = [name])" for name t
    using inv unfolding projected_def by blast
  have "((bt_get (ls_aliases s))(?n \<mapsto> ?t)) name = Some t \<longleftrightarrow>
      (case ((bt_get (ls_actions s))(?t \<mapsto> ?a)) t of None \<Rightarrow> False | Some a \<Rightarrow> a_legacy_aliases a = [name])" for name t
    using old [of name t] old [of name ?t] old [of ?n t] fresh none
    by (cases "name = ?n"; cases "t = ?t") auto
  moreover have "\<forall>x \<in> set (bt_values (bt_insert ?t ?a (ls_actions s))). \<exists>name.
      a_legacy_aliases x = [name] \<and> (a_intent x, a_effects x) = legacy_effects name"
  proof
    fix x assume "x \<in> set (bt_values (bt_insert ?t ?a (ls_actions s)))"
    then consider "x = ?a" | "x \<in> set (bt_values (ls_actions s))"
      using bt_values_insert_subset [of ?t ?a "ls_actions s"] by auto
    then show "\<exists>name. a_legacy_aliases x = [name] \<and> (a_intent x, a_effects x) = legacy_effects name"
    proof cases
      case 1
      then show ?thesis using a(2) by (intro exI [of _ ?n]) simp
    next
      case 2
      then show ?thesis using inv unfolding projected_def by blast
    qed
  qed
  moreover have "set (bt_keys (bt_insert ?t ?a (ls_actions s))) = insert ?t (set (bt_keys (ls_actions s)))"
    "set (bt_keys (bt_insert ?n ?t (ls_aliases s))) = insert ?n (set (ls_seen s))"
    using keys(2) by (auto simp: bt_keys_dom getA getN)
  moreover have "\<forall>t \<in> insert ?t (set (bt_keys (ls_actions s))).
      t_component t = ''repo'' \<and> identifier_ok (t_action t) \<and> t_action t \<in> set (ident # ls_occupied s)"
    using keys(1) ident(1) by simp
  ultimately show ?thesis
    using bt.wf_put [OF wf(1)] bt.wf_put [OF wf(2)] keyed_insert [OF wf(3) a(1)]
    unfolding projected_def
    by (simp only: getA getN legacy_state.simps list.set simp_thms)
qed

lemma project_tools_Inr:
  assumes "\<forall>name. length (re_sha256 env name) = 32"
    and "project_tools env s tools = Inr s'" "projected s"
  shows "projected s' \<and> set (ls_seen s') = set (ls_seen s) \<union> mt_name ` set tools"
  using assms
proof (induction env s tools rule: project_tools.induct)
  case (2 env s tool rest)
  from 2(3) obtain ident action where u: "mt_name tool \<notin> set (ls_seen s)"
    "unique_legacy_action_id env (mt_name tool) (ls_occupied s) = Inr ident"
    "legacy_action tool (''repo'', ident) = Inr action"
    and rest: "project_tools env
      \<lparr>ls_seen = mt_name tool # ls_seen s, ls_occupied = ident # ls_occupied s,
       ls_actions = bt_insert (''repo'', ident) (action \<lparr>a_legacy_aliases := [mt_name tool]\<rparr>) (ls_actions s),
       ls_aliases = bt_insert (mt_name tool) (''repo'', ident) (ls_aliases s),
       ls_target_aliases = bt_insert (''repo'', ident) [mt_name tool] (ls_target_aliases s)\<rparr> rest = Inr s'"
    by (auto simp: Let_def split: if_splits sum.splits)
  have "identifier_ok ident \<and> ident \<notin> set (ls_occupied s)"
    using unique_legacy_action_id_spec [of env "mt_name tool" "ls_occupied s"] 2(2) u(2) by simp
  then have "projected
      \<lparr>ls_seen = mt_name tool # ls_seen s, ls_occupied = ident # ls_occupied s,
       ls_actions = bt_insert (''repo'', ident) (action \<lparr>a_legacy_aliases := [mt_name tool]\<rparr>) (ls_actions s),
       ls_aliases = bt_insert (mt_name tool) (''repo'', ident) (ls_aliases s),
       ls_target_aliases = bt_insert (''repo'', ident) [mt_name tool] (ls_target_aliases s)\<rparr>"
    using projected_step [OF 2(4) u(1) _ _ u(3)] by blast
  from 2(1) [OF u(1,2) refl u(3) 2(2) rest this] show ?case by auto
qed simp

definition legacy_check :: "(TargetId, ActionSpec) btree_map \<Rightarrow> TargetId \<Rightarrow> bool" where
  "legacy_check actions t \<longleftrightarrow>
     (case bt_get actions t of None \<Rightarrow> False | Some a \<Rightarrow> a_intent a = Check \<and> ReadOnly \<in> set (a_effects a))"

lemma configured_targets_Inr:
  "configured_targets actions aliases checks targets = Inr targets' \<Longrightarrow>
     \<forall>t \<in> set targets. legacy_check actions t \<Longrightarrow> \<forall>t \<in> set targets'. legacy_check actions t"
proof (induction actions aliases checks targets rule: configured_targets.induct)
  case (2 actions aliases al rest targets)
  from 2(3) obtain t a where t: "bt_get aliases al = Some t" "bt_get actions t = Some a"
    by (auto split: option.splits)
  show ?case
  proof (cases "a_intent a \<noteq> Check \<or> ReadOnly \<notin> set (a_effects a)")
    case True
    then show ?thesis using 2(1) [OF t True] 2(3,4) t by (simp split: if_splits)
  next
    case False
    then have "legacy_check actions t" using t(2) by (simp add: legacy_check_def)
    then show ?thesis using 2(2) [OF t False] 2(3,4) t False by simp
  qed
qed simp

lemma legacy_check_values:
  assumes "bt_wf actions" "keyed a_target actions" "a \<in> set (bt_values actions)"
    "a_intent a = Check" "ReadOnly \<in> set (a_effects a)"
  shows "legacy_check actions (a_target a)"
proof -
  obtain e where "e \<in> set actions" "a = snd e" using assms(3) unfolding bt_values_def by auto
  then have k: "(fst e, a) \<in> set actions" by simp
  have "bt_get actions (fst e) = Some a"
    using map_of_is_SomeI [OF bt_wf_distinct [OF assms(1)] k] by (simp add: bt_get_def)
  moreover from this have "a_target a = fst e" using keyed_get [OF assms(2)] by simp
  ultimately show ?thesis using assms(4,5) by (simp add: legacy_check_def)
qed

lemma default_targets_checks:
  assumes "legacy_default_targets actions aliases checks = Inr targets" "bt_wf actions" "keyed a_target actions"
  shows "list_all (legacy_check actions) targets"
proof (cases "checks = []")
  case True
  then show ?thesis
    using assms(1) legacy_check_values [OF assms(2,3)] by (auto simp: legacy_default_targets_def list_all_iff)
next
  case False
  then show ?thesis
    using assms(1) configured_targets_Inr [of actions aliases checks "[]" targets]
    by (simp add: legacy_default_targets_def list_all_iff)
qed

definition legacy_catalog_ok :: "ManifestTool list \<Rightarrow> RepositoryCatalog \<Rightarrow> bool" where
  "legacy_catalog_ok tools catalog \<longleftrightarrow>
     bt_wf (rc_actions catalog) \<and> keyed a_target (rc_actions catalog) \<and>
     list_all (\<lambda>t. t_component t = ''repo'' \<and> identifier_ok (t_action t)) (bt_keys (rc_actions catalog)) \<and>
     list_all (\<lambda>tool. \<exists>t a. target_for_alias catalog (mt_name tool) = Some t \<and>
        catalog_action catalog t = Some a \<and> a_legacy_aliases a = [mt_name tool] \<and>
        (a_intent a, a_effects a) = legacy_effects (mt_name tool)) tools \<and>
     (\<forall>n t. target_for_alias catalog n = Some t \<longleftrightarrow>
        (case catalog_action catalog t of None \<Rightarrow> False | Some a \<Rightarrow> a_legacy_aliases a = [n])) \<and>
     list_all (\<lambda>profile. pr_targets profile \<noteq> [] \<and> list_all (legacy_check (rc_actions catalog)) (pr_targets profile))
       (bt_values (rc_profiles catalog)) \<and>
     (case rc_default_check_profile catalog of
        None \<Rightarrow> rc_profiles catalog = []
      | Some p \<Rightarrow> bt_get (rc_profiles catalog) p \<noteq> None)"

lemma projected_tool:
  assumes "projected s" "name \<in> set (ls_seen s)"
  shows "\<exists>t a. bt_get (ls_aliases s) name = Some t \<and> bt_get (ls_actions s) t = Some a \<and>
    a_legacy_aliases a = [name] \<and> (a_intent a, a_effects a) = legacy_effects name"
proof -
  obtain t where t: "bt_get (ls_aliases s) name = Some t"
    using assms bt_get_keys [of "ls_aliases s" name] unfolding projected_def by blast
  then have "case bt_get (ls_actions s) t of None \<Rightarrow> False | Some a \<Rightarrow> a_legacy_aliases a = [name]"
    using assms(1) unfolding projected_def by blast
  then obtain a where a: "bt_get (ls_actions s) t = Some a" "a_legacy_aliases a = [name]"
    by (cases "bt_get (ls_actions s) t") auto
  then have "a \<in> set (bt_values (ls_actions s))"
    unfolding bt_get_def bt_values_def by (force dest: map_of_SomeD)
  then have "(a_intent a, a_effects a) = legacy_effects name"
    using assms(1) a(2) unfolding projected_def by (metis list.inject)
  then show ?thesis using t a by blast
qed

text \<open>
  C30. The invariant of a legacy catalog, given 32-byte SHA-256 digests. Every tool of the
  contract is reached through its name as an alias, as an action of the component \<open>repo\<close>
  with a valid identifier and the intent and effects that belong to the name; no two names
  share a target; and the default profile, when there is one, selects at least one action
  and only read-only checks.
\<close>

theorem legacy_catalog_invariant:
  assumes "\<forall>name. length (re_sha256 env name) = 32"
    and "from_legacy env version digest tools checks = Inr catalog"
  shows "legacy_catalog_ok tools catalog"
proof -
  let ?init = "\<lparr>ls_seen = [], ls_occupied = [], ls_actions = bt_empty, ls_aliases = bt_empty, ls_target_aliases = bt_empty\<rparr>"
  from assms(2) obtain s targets where s: "project_tools env ?init (sort_key mt_name tools) = Inr s"
    and targets: "legacy_default_targets (ls_actions s) (ls_aliases s) checks = Inr targets"
    and catalog: "rc_actions catalog = ls_actions s" "rc_aliases catalog = ls_aliases s"
      "rc_profiles catalog = (if targets = [] then bt_empty else [(''verify'', new_profile ''verify'' targets)])"
      "rc_default_check_profile catalog = (if targets = [] then None else Some ''verify'')"
    by (auto simp: from_legacy_def split: if_splits sum.splits)
  have "projected ?init"
    by (simp add: projected_def bt_empty_def bt_wf_def keyed_def bt_keys_def bt_values_def bt_get_def)
  from project_tools_Inr [OF assms(1) s this]
  have inv: "projected s" and seen: "set (ls_seen s) = mt_name ` set tools" by simp_all
  have wf: "bt_wf (ls_actions s)" "keyed a_target (ls_actions s)" using inv by (simp_all add: projected_def)
  have checks: "list_all (legacy_check (ls_actions s)) targets"
    by (rule default_targets_checks [OF targets wf])
  have profiles: "list_all (\<lambda>profile. pr_targets profile \<noteq> [] \<and> list_all (legacy_check (ls_actions s)) (pr_targets profile))
      (bt_values (rc_profiles catalog))"
    using checks by (simp add: catalog(3) bt_values_def bt_empty_def new_profile_def)
  have keys: "list_all (\<lambda>t. t_component t = ''repo'' \<and> identifier_ok (t_action t)) (bt_keys (ls_actions s))"
    and alias_iff: "\<forall>n t. bt_get (ls_aliases s) n = Some t \<longleftrightarrow>
      (case bt_get (ls_actions s) t of None \<Rightarrow> False | Some a \<Rightarrow> a_legacy_aliases a = [n])"
    using inv unfolding projected_def list_all_iff by blast+
  have tools: "list_all (\<lambda>tool. \<exists>t a. bt_get (ls_aliases s) (mt_name tool) = Some t \<and>
      bt_get (ls_actions s) t = Some a \<and> a_legacy_aliases a = [mt_name tool] \<and>
      (a_intent a, a_effects a) = legacy_effects (mt_name tool)) tools"
    unfolding list_all_iff using projected_tool [OF inv] seen by blast
  show ?thesis
    unfolding legacy_catalog_ok_def target_for_alias_def catalog_action_def catalog(1,2)
    using wf keys tools alias_iff profiles
    by (simp add: catalog(3,4) bt_get_def bt_empty_def)
qed

definition sample_tools :: "ManifestTool list" where
  "sample_tools =
     [\<lparr>mt_name = ''jig.test'', mt_kind = ''native'', mt_description = [], mt_command = None\<rparr>,
      \<lparr>mt_name = ''jig.bootstrap'', mt_kind = ''command'', mt_description = [], mt_command = Some ''setup''\<rparr>]"

definition sample_legacy :: "legacy_error + RepositoryCatalog" where
  "sample_legacy = from_legacy sample_repo_env 5 ''d'' sample_tools []"

theorem legacy_catalog_invariant_witness:
  "legacy_catalog_ok sample_tools (projr sample_legacy) \<and>
   map (\<lambda>p. pr_targets p) (bt_values (rc_profiles (projr sample_legacy))) = [[(''repo'', ''test'')]]"
proof -
  have "\<not> isl sample_legacy" by code_simp
  then have "from_legacy sample_repo_env 5 ''d'' sample_tools [] = Inr (projr sample_legacy)"
    unfolding sample_legacy_def [symmetric] by (simp add: sum.expand)
  moreover have "\<forall>name. length (re_sha256 sample_repo_env name) = 32" by (simp add: sample_repo_env_def)
  moreover have "map (\<lambda>p. pr_targets p) (bt_values (rc_profiles (projr sample_legacy))) = [[(''repo'', ''test'')]]"
    by code_simp
  ultimately show ?thesis using legacy_catalog_invariant by blast
qed

end
