(* ===== verification/Affected.thy ===== *)
theory Affected
  imports Legacy_Catalog
begin

text \<open>
  \<open>crates/jig-repository/src/affected.rs\<close> and \<open>affected/target_matcher.rs\<close>: narrowing a
  selection of targets to those that changed paths affect, and the batches of selection
  reasons with their additive digests. The lemmas show that the digest of a batch is a sum
  modulo \<open>2 ^ 256\<close>, and which targets are selected.
\<close>

section \<open>Selection reasons\<close>

definition MAX_SELECTION_REASONS :: nat where "MAX_SELECTION_REASONS = 100"

definition SELECTION_REASON_ITEM_DIGEST_DOMAIN :: string where
  "SELECTION_REASON_ITEM_DIGEST_DOMAIN = ''jig-selection-reason-item-v2'' @ [CHR 0x00]"

text \<open>\<open>u8::overflowing_add\<close>.\<close>

definition overflowing_add8 :: "char \<Rightarrow> char \<Rightarrow> char \<times> bool" where
  "overflowing_add8 a b = (char_of (byte a + byte b), 256 \<le> byte a + byte b)"

text \<open>The loop over the byte pairs from the last to the first; the sums pile up in front.\<close>

fun add_digest_bytes :: "(char \<times> char) list \<Rightarrow> bool \<Rightarrow> string \<Rightarrow> string" where
  "add_digest_bytes [] carry sum_bytes = sum_bytes"
| "add_digest_bytes ((aggregate_byte, digest_byte) # rest) carry sum_bytes =
     (let (value1, first_carry) = overflowing_add8 aggregate_byte digest_byte;
          (value2, second_carry) = overflowing_add8 value1 (char_of (of_bool carry :: nat)) in
      add_digest_bytes rest (first_carry \<or> second_carry) (value2 # sum_bytes))"

definition add_selection_reason_digest :: "string \<Rightarrow> string \<Rightarrow> string" where
  "add_selection_reason_digest aggregate digest = add_digest_bytes (rev (zip aggregate digest)) False []"

definition selection_reason_item_digest :: "repo_env \<Rightarrow> SelectionReason \<Rightarrow> string" where
  "selection_reason_item_digest env reason =
     (let encoded = re_json_reason env reason in
      re_sha256 env (SELECTION_REASON_ITEM_DIGEST_DOMAIN @ be_bytes64 (length encoded) @ encoded))"

record SelectionReasonBatch =
  sb_preview :: "SelectionReason list"
  sb_count :: u64
  sb_sum_digest :: string

definition zero_digest :: string where "zero_digest = replicate 32 (CHR 0x00)"

definition batch_add :: "repo_env \<Rightarrow> SelectionReason \<Rightarrow> SelectionReasonBatch \<Rightarrow> SelectionReasonBatch" where
  "batch_add env reason batch =
     \<lparr>sb_preview =
        (if length (sb_preview batch) < MAX_SELECTION_REASONS then sb_preview batch @ [reason] else sb_preview batch),
      sb_count = u64_sat_add (sb_count batch) 1,
      sb_sum_digest = add_selection_reason_digest (sb_sum_digest batch) (selection_reason_item_digest env reason)\<rparr>"

definition from_reasons :: "repo_env \<Rightarrow> SelectionReason list \<Rightarrow> SelectionReasonBatch" where
  "from_reasons env reasons =
     fold (batch_add env) reasons \<lparr>sb_preview = [], sb_count = 0, sb_sum_digest = zero_digest\<rparr>"

record TargetSelectionReasons =
  tr_explicit :: "SelectionReason btree_set"
  tr_batches :: "SelectionReasonBatch list"

definition default_reasons :: TargetSelectionReasons where
  "default_reasons = \<lparr>tr_explicit = [], tr_batches = []\<rparr>"

definition reasons_insert :: "SelectionReason \<Rightarrow> TargetSelectionReasons \<Rightarrow> TargetSelectionReasons" where
  "reasons_insert reason reasons = reasons \<lparr>tr_explicit := bs_insert reason (tr_explicit reasons)\<rparr>"

definition reasons_attach :: "SelectionReasonBatch \<Rightarrow> TargetSelectionReasons \<Rightarrow> TargetSelectionReasons" where
  "reasons_attach batch reasons = reasons \<lparr>tr_batches := tr_batches reasons @ [batch]\<rparr>"

type_synonym TargetSelection = "(TargetId, TargetSelectionReasons) btree_map"

section \<open>Input matchers\<close>

datatype changed_path_error = EmptyPath | AbsolutePath | NulPath | EmptyPathSegment | DotPathSegment

datatype affected_error =
    ChangedPath string changed_path_error
  | AffectedPattern text_error
  | MissingAffectedComponent ComponentId

record TargetInputMatcherV1 =
  tm_by_target :: "(TargetId, (string \<Rightarrow> bool) list) btree_map"
  tm_components_with_inputs :: "ComponentId btree_set"

fun compile_all :: "('a \<Rightarrow> 'e + 'b) \<Rightarrow> 'a list \<Rightarrow> 'e + 'b list" where
  "compile_all f [] = Inr []"
| "compile_all f (x # xs) =
     (case f x of
        Inl e \<Rightarrow> Inl e
      | Inr y \<Rightarrow> (case compile_all f xs of Inl e \<Rightarrow> Inl e | Inr ys \<Rightarrow> Inr (y # ys)))"

fun matcher_loop :: "repo_env \<Rightarrow> TargetInputMatcherV1 \<Rightarrow> ActionSpec list \<Rightarrow> text_error + TargetInputMatcherV1" where
  "matcher_loop env m [] = Inr m"
| "matcher_loop env m (action # rest) =
     (if a_inputs action = [] then matcher_loop env m rest
      else
        (case compile_all (compile_input env) (a_inputs action) of
           Inl e \<Rightarrow> Inl e
         | Inr inputs \<Rightarrow>
             matcher_loop env
               \<lparr>tm_by_target = bt_insert (a_target action) inputs (tm_by_target m),
                tm_components_with_inputs = bs_insert (t_component (a_target action)) (tm_components_with_inputs m)\<rparr>
               rest))"

definition new_matcher :: "repo_env \<Rightarrow> RepositoryCatalog \<Rightarrow> text_error + TargetInputMatcherV1" where
  "new_matcher env catalog =
     matcher_loop env \<lparr>tm_by_target = bt_empty, tm_components_with_inputs = []\<rparr> (catalog_actions catalog)"

definition matches_any :: "TargetInputMatcherV1 \<Rightarrow> string \<Rightarrow> bool" where
  "matches_any m path = list_ex (\<lambda>inputs. list_ex (\<lambda>input. input path) inputs) (bt_values (tm_by_target m))"

definition matching_targets :: "TargetInputMatcherV1 \<Rightarrow> string \<Rightarrow> TargetId btree_set" where
  "matching_targets m path =
     bs_collect (map fst (filter (\<lambda>(target, inputs). list_ex (\<lambda>input. input path) inputs) (tm_by_target m)))"

definition component_has_inputs :: "TargetInputMatcherV1 \<Rightarrow> ComponentId \<Rightarrow> bool" where
  "component_has_inputs m component \<longleftrightarrow> component \<in> set (tm_components_with_inputs m)"

section \<open>Changed paths\<close>

definition changed_segment :: "string \<Rightarrow> changed_path_error option" where
  "changed_segment segment =
     (if segment = [] then Some EmptyPathSegment
      else if segment = ''.'' \<or> segment = ''..'' then Some DotPathSegment
      else None)"

definition validate_git_changed_path :: "string \<Rightarrow> changed_path_error option" where
  "validate_git_changed_path path =
     (if path = [] then Some EmptyPath
      else if take 1 path = ''/'' then Some AbsolutePath
      else if CHR 0x00 \<in> set path then Some NulPath
      else first_error changed_segment (split_on (CHR ''/'') path))"

fun normalize_paths :: "string btree_set \<Rightarrow> string list \<Rightarrow> affected_error + string btree_set" where
  "normalize_paths normalized [] = Inr normalized"
| "normalize_paths normalized (path # rest) =
     (case validate_git_changed_path path of
        Some e \<Rightarrow> Inl (ChangedPath path e)
      | None \<Rightarrow> normalize_paths (bs_insert path normalized) rest)"

definition normalized_changed_paths :: "string list \<Rightarrow> affected_error + string btree_set" where
  "normalized_changed_paths changed_paths = normalize_paths [] changed_paths"

section \<open>Component roots\<close>

definition root_contains :: "string \<Rightarrow> string \<Rightarrow> bool" where
  "root_contains root path \<longleftrightarrow>
     root = ''.'' \<or> path = root \<or>
     (case strip_prefix root path of None \<Rightarrow> False | Some suffix \<Rightarrow> take 1 suffix = ''/'')"

definition root_depth :: "string \<Rightarrow> nat" where
  "root_depth root = (if root = ''.'' then 0 else length (split_on (CHR ''/'') root))"

fun maximum_depth :: "nat list \<Rightarrow> nat option" where
  "maximum_depth [] = None"
| "maximum_depth (depth # rest) =
     (case maximum_depth rest of None \<Rightarrow> Some depth | Some m \<Rightarrow> Some (max depth m))"

definition opt_insert :: "'a::linorder \<Rightarrow> 'a btree_set option \<Rightarrow> 'a btree_set" where
  "opt_insert x v = bs_insert x (case v of None \<Rightarrow> [] | Some s \<Rightarrow> s)"

definition inputless_by_component :: "RepositoryCatalog \<Rightarrow> (ComponentId, TargetId btree_set) btree_map" where
  "inputless_by_component catalog =
     fold (\<lambda>action. bt_update (t_component (a_target action)) (opt_insert (a_target action)))
       (filter (\<lambda>action. a_inputs action = []) (catalog_actions catalog)) bt_empty"

definition most_specific_inputless_targets :: "RepositoryCatalog \<Rightarrow> string \<Rightarrow> TargetId btree_set" where
  "most_specific_inputless_targets catalog path =
     (let inputless = inputless_by_component catalog;
          max_depth = maximum_depth (map (\<lambda>c. root_depth (c_root c))
            (filter (\<lambda>c. bt_get inputless (c_id c) \<noteq> None \<and> root_contains (c_root c) path)
              (catalog_components catalog))) in
      bs_collect (concat (map (\<lambda>c. case bt_get inputless (c_id c) of None \<Rightarrow> [] | Some targets \<Rightarrow> targets)
        (filter (\<lambda>c. Some (root_depth (c_root c)) = max_depth \<and> root_contains (c_root c) path)
          (catalog_components catalog)))))"

definition most_specific_component_roots ::
    "RepositoryCatalog \<Rightarrow> TargetInputMatcherV1 \<Rightarrow> string \<Rightarrow> ComponentId btree_set" where
  "most_specific_component_roots catalog matchers path =
     (let matches = map (\<lambda>c. (root_depth (c_root c), c_id c))
            (filter (\<lambda>c. root_contains (c_root c) path \<and>
                         \<not> (c_root c = ''.'' \<and> component_has_inputs matchers (c_id c)))
              (catalog_components catalog));
          max_depth = maximum_depth (map fst matches) in
      bs_collect (map snd (filter (\<lambda>(depth, ident). Some depth = max_depth) matches)))"

definition claiming_components ::
    "RepositoryCatalog \<Rightarrow> TargetInputMatcherV1 \<Rightarrow> string \<Rightarrow> ComponentId btree_set" where
  "claiming_components catalog matchers path =
     (let matched = bs_collect (map t_component (matching_targets matchers path)) in
      if matched = [] then most_specific_component_roots catalog matchers path else matched)"

definition claim_component ::
    "RepositoryCatalog \<Rightarrow> TargetInputMatcherV1 \<Rightarrow> string \<Rightarrow>
     (ComponentId, string btree_set) btree_map \<times> string btree_set \<Rightarrow>
     (ComponentId, string btree_set) btree_map \<times> string btree_set" where
  "claim_component catalog matchers path acc =
     (let components = claiming_components catalog matchers path in
      (fold (\<lambda>component. bt_update component (opt_insert path)) components (fst acc),
       if components = [] then bs_insert path (snd acc) else snd acc))"

definition directly_affected_components ::
    "RepositoryCatalog \<Rightarrow> TargetInputMatcherV1 \<Rightarrow> string btree_set \<Rightarrow>
     (ComponentId, string btree_set) btree_map \<times> string btree_set" where
  "directly_affected_components catalog matchers paths =
     fold (claim_component catalog matchers) paths (bt_empty, [])"

section \<open>Propagation to dependents\<close>

definition dependents_of :: "RepositoryCatalog \<Rightarrow> (ComponentId, ComponentId btree_set) btree_map" where
  "dependents_of catalog =
     fold (\<lambda>component. fold (\<lambda>dependency. bt_update dependency (opt_insert (c_id component))) (c_depends_on component))
       (catalog_components catalog) bt_empty"

type_synonym batch_map = "(ComponentId, SelectionReasonBatch list) btree_map"

text \<open>The state of the walk from one origin: the components seen and the batches of all origins.\<close>

definition add_dependent ::
    "SelectionReasonBatch \<Rightarrow> ComponentId \<Rightarrow> ComponentId \<Rightarrow> ComponentId btree_set \<times> batch_map \<Rightarrow>
     ComponentId btree_set \<times> batch_map" where
  "add_dependent batch component dependent s =
     (if dependent \<in> set (fst s) then s
      else (bs_insert dependent (fst s), bt_update dependent (opt_push batch) (snd s)))"

definition propagation_targets ::
    "(ComponentId, ComponentSpec) btree_map \<Rightarrow> (ComponentId, ComponentId btree_set) btree_map \<Rightarrow>
     ComponentId \<Rightarrow> ComponentId list option" where
  "propagation_targets components dependents ident =
     (case bt_get components ident of
        None \<Rightarrow> None
      | Some component \<Rightarrow>
          Some (if \<not> c_propagate_affected_to_dependents component then []
                else (case bt_get dependents ident of None \<Rightarrow> [] | Some s \<Rightarrow> s)))"

interpretation seen_components: worklist "\<lambda>s. set (fst s)" "add_dependent batch" for batch
  by unfold_locales (auto simp: add_dependent_def)

lemma finite_propagation_targets: "finite (dom (propagation_targets components dependents))"
  by (rule finite_subset [of _ "dom (bt_get components)"])
    (auto simp: propagation_targets_def bt_get_def [abs_def] finite_dom_map_of split: option.splits)

definition propagation_universe ::
    "(ComponentId, ComponentSpec) btree_map \<Rightarrow> (ComponentId, ComponentId btree_set) btree_map \<Rightarrow> ComponentId set" where
  "propagation_universe components dependents = (\<Union>ds \<in> ran (propagation_targets components dependents). set ds)"

text \<open>The stack is the list \<open>pending\<close> with its top first; a missing component is a panic.\<close>

function propagate ::
    "(ComponentId, ComponentSpec) btree_map \<Rightarrow> (ComponentId, ComponentId btree_set) btree_map \<Rightarrow>
     SelectionReasonBatch \<Rightarrow> ComponentId list \<Rightarrow> ComponentId btree_set \<times> batch_map \<Rightarrow>
     ComponentId + ComponentId btree_set \<times> batch_map" where
  "propagate components dependents batch [] s = Inr s"
| "propagate components dependents batch (component_id # rest) s =
     (case propagation_targets components dependents component_id of
        None \<Rightarrow> Inl component_id
      | Some ds \<Rightarrow>
          (case fold (\<lambda>d (s, ps). (add_dependent batch component_id d s, if d \<in> set (fst s) then ps else d # ps))
                  ds (s, rest) of
             (s', ps') \<Rightarrow> propagate components dependents batch ps' s'))"
  by pat_completeness auto

termination propagate
proof (relation "measures [\<lambda>(components, dependents, batch, pending, s).
      card (propagation_universe components dependents - set (fst s)),
    \<lambda>(components, dependents, batch, pending, s). length pending]", goal_cases)
  case (2 components dependents batch component_id rest s ds s1 ps1)
  have "finite (propagation_universe components dependents)"
    by (simp add: propagation_universe_def finite_ran finite_propagation_targets)
  moreover have "set ds \<subseteq> propagation_universe components dependents"
    using 2(1) by (auto simp: propagation_universe_def intro: ranI)
  ultimately show ?case
    using seen_components.push_decreases [of _ ds batch component_id s rest s1 ps1] 2(2) by auto
qed simp

declare propagate.simps(2) [simp del]

record AffectedReasonBatches =
  ab_direct :: "(ComponentId, SelectionReasonBatch) btree_map"
  ab_propagated :: batch_map

fun reason_batches ::
    "repo_env \<Rightarrow> (ComponentId, ComponentSpec) btree_map \<Rightarrow> (ComponentId, ComponentId btree_set) btree_map \<Rightarrow>
     (ComponentId, string btree_set) btree_map \<Rightarrow> AffectedReasonBatches \<Rightarrow> affected_error + AffectedReasonBatches" where
  "reason_batches env components dependents [] batches = Inr batches"
| "reason_batches env components dependents ((origin, paths) # rest) batches =
     (let direct_batch = from_reasons env (map DirectInput paths);
          dependency_batch = from_reasons env (map (\<lambda>path. ComponentDependency origin (Some path)) paths) in
      case propagate components dependents dependency_batch [origin] ([origin], ab_propagated batches) of
        Inl ident \<Rightarrow> Inl (MissingAffectedComponent ident)
      | Inr (seen, propagated) \<Rightarrow>
          reason_batches env components dependents rest
            \<lparr>ab_direct = bt_insert origin direct_batch (ab_direct batches), ab_propagated = propagated\<rparr>)"

definition affected_reason_batches ::
    "repo_env \<Rightarrow> RepositoryCatalog \<Rightarrow> (ComponentId, string btree_set) btree_map \<Rightarrow>
     affected_error + AffectedReasonBatches" where
  "affected_reason_batches env catalog direct =
     reason_batches env (rc_components catalog) (dependents_of catalog) direct
       \<lparr>ab_direct = bt_empty, ab_propagated = bt_empty\<rparr>"

section \<open>Affected targets\<close>

definition REPOSITORY_AUTHORITY_INPUTS :: "string list" where
  "REPOSITORY_AUTHORITY_INPUTS = [''.jig.toml'']"

definition unclaimed_reasons :: "repo_env \<Rightarrow> string btree_set \<Rightarrow> SelectionReasonBatch option" where
  "unclaimed_reasons env unclaimed_paths =
     (if unclaimed_paths \<noteq> [] then Some (from_reasons env (map UnclaimedInput unclaimed_paths)) else None)"

text \<open>The loop over the candidates, with the batch that a target itself is due.\<close>

definition candidate_reasons ::
    "string btree_set \<Rightarrow> SelectionReasonBatch option \<Rightarrow> SelectionReasonBatch option \<Rightarrow> SelectionReasonBatch list option \<Rightarrow>
     TargetSelectionReasons \<Rightarrow> TargetSelectionReasons option" where
  "candidate_reasons authority_paths unclaimed_batch direct_batch propagated reasons =
     (let r1 = fold (\<lambda>path. reasons_insert (DirectInput path)) authority_paths reasons;
          r2 = (case unclaimed_batch of None \<Rightarrow> r1 | Some batch \<Rightarrow> reasons_attach batch r1);
          r3 = (case direct_batch of None \<Rightarrow> r2 | Some batch \<Rightarrow> reasons_attach batch r2);
          r4 = (case propagated of None \<Rightarrow> r3 | Some batches \<Rightarrow> fold reasons_attach batches r3) in
      if authority_paths \<noteq> [] \<or> unclaimed_batch \<noteq> None \<or> direct_batch \<noteq> None \<or> propagated \<noteq> None
      then Some r4 else None)"

definition select_candidates ::
    "string btree_set \<Rightarrow> SelectionReasonBatch option \<Rightarrow> (TargetId \<Rightarrow> SelectionReasonBatch option) \<Rightarrow> batch_map \<Rightarrow>
     TargetSelection \<Rightarrow> TargetSelection" where
  "select_candidates authority_paths unclaimed_batch direct propagated candidates =
     fold (\<lambda>(target, reasons) selected.
         case candidate_reasons authority_paths unclaimed_batch (direct target)
                (bt_get propagated (t_component target)) reasons of
           None \<Rightarrow> selected
         | Some reasons' \<Rightarrow> bt_insert target reasons' selected)
       candidates bt_empty"

text \<open>What the paths of a target-local selection claim: targets, their components, and nothing.\<close>

record target_claims =
  tc_targets :: "(TargetId, string btree_set) btree_map"
  tc_components :: "(ComponentId, string btree_set) btree_map"
  tc_unclaimed :: "string btree_set"

definition claiming_targets :: "RepositoryCatalog \<Rightarrow> TargetInputMatcherV1 \<Rightarrow> string \<Rightarrow> TargetId btree_set" where
  "claiming_targets catalog matchers path =
     (let targets = matching_targets matchers path in
      if targets = [] then most_specific_inputless_targets catalog path else targets)"

definition claim_target ::
    "RepositoryCatalog \<Rightarrow> TargetInputMatcherV1 \<Rightarrow> string btree_set \<Rightarrow> string \<Rightarrow> target_claims \<Rightarrow> target_claims" where
  "claim_target catalog matchers authority_paths path claims =
     (if path \<in> set authority_paths then claims
      else
        (let targets = claiming_targets catalog matchers path in
         if targets = [] then claims \<lparr>tc_unclaimed := bs_insert path (tc_unclaimed claims)\<rparr>
         else
           claims
             \<lparr>tc_components := fold (\<lambda>component. bt_update component (opt_insert path)) (map t_component targets) (tc_components claims),
              tc_targets := fold (\<lambda>target. bt_update target (opt_insert path)) targets (tc_targets claims)\<rparr>))"

definition select_target_local_affected ::
    "repo_env \<Rightarrow> RepositoryCatalog \<Rightarrow> TargetSelection \<Rightarrow> TargetInputMatcherV1 \<Rightarrow> string btree_set \<Rightarrow>
     string btree_set \<Rightarrow> affected_error + TargetSelection" where
  "select_target_local_affected env catalog candidates matchers paths authority_paths =
     (let claims = fold (claim_target catalog matchers authority_paths) paths
                     \<lparr>tc_targets = bt_empty, tc_components = bt_empty, tc_unclaimed = []\<rparr>;
          direct_batches = map (\<lambda>(target, ps). (target, from_reasons env (map DirectInput ps))) (tc_targets claims);
          unclaimed_batch = unclaimed_reasons env (tc_unclaimed claims) in
      case affected_reason_batches env catalog (tc_components claims) of
        Inl e \<Rightarrow> Inl e
      | Inr batches \<Rightarrow>
          Inr (select_candidates authority_paths unclaimed_batch (bt_get direct_batches) (ab_propagated batches) candidates))"

definition retained_paths ::
    "TargetInputMatcherV1 \<Rightarrow> (string \<Rightarrow> bool) list \<Rightarrow> string btree_set \<Rightarrow> string btree_set" where
  "retained_paths matchers ignored paths =
     filter (\<lambda>path. path \<in> set REPOSITORY_AUTHORITY_INPUTS \<or> matches_any matchers path \<or>
                    \<not> list_ex (\<lambda>matcher. matcher path) ignored) paths"

definition select_component_affected ::
    "repo_env \<Rightarrow> RepositoryCatalog \<Rightarrow> TargetSelection \<Rightarrow> TargetInputMatcherV1 \<Rightarrow> string btree_set \<Rightarrow>
     string btree_set \<Rightarrow> affected_error + TargetSelection" where
  "select_component_affected env catalog candidates matchers paths authority_paths =
     (let (direct0, unclaimed0) = directly_affected_components catalog matchers paths;
          unclaimed_paths = filter (\<lambda>path. path \<notin> set authority_paths) unclaimed0;
          direct = filter (\<lambda>(component, ps). ps \<noteq> [])
            (map (\<lambda>(component, ps). (component, filter (\<lambda>path. path \<notin> set authority_paths) ps)) direct0);
          unclaimed_batch = unclaimed_reasons env unclaimed_paths in
      case affected_reason_batches env catalog direct of
        Inl e \<Rightarrow> Inl e
      | Inr batches \<Rightarrow>
          Inr (select_candidates authority_paths unclaimed_batch
            (\<lambda>target. bt_get (ab_direct batches) (t_component target)) (ab_propagated batches) candidates))"

text \<open>The paths that a selection is about: the changed ones, the observed inputs that an
  action declares, without the ignored ones.\<close>

definition affected_paths ::
    "repo_env \<Rightarrow> RepositoryCatalog \<Rightarrow> string list \<Rightarrow> string list \<Rightarrow>
     affected_error + TargetInputMatcherV1 \<times> string btree_set" where
  "affected_paths env catalog changed_paths observed_input_paths =
     (case normalized_changed_paths changed_paths of
        Inl e \<Rightarrow> Inl e
      | Inr paths \<Rightarrow>
          (case new_matcher env catalog of
             Inl e \<Rightarrow> Inl (AffectedPattern e)
           | Inr matchers \<Rightarrow>
               (case normalized_changed_paths observed_input_paths of
                  Inl e \<Rightarrow> Inl e
                | Inr observed \<Rightarrow>
                    (case compile_all (compile_path_pattern env) (rc_affected_ignore catalog) of
                       Inl e \<Rightarrow> Inl (AffectedPattern e)
                     | Inr ignored \<Rightarrow>
                         Inr (matchers,
                           retained_paths matchers ignored (bs_extend (filter (matches_any matchers) observed) paths))))))"

definition select_affected_targets ::
    "repo_env \<Rightarrow> RepositoryCatalog \<Rightarrow> TargetSelection \<Rightarrow> string list \<Rightarrow> string list \<Rightarrow>
     affected_error + TargetSelection" where
  "select_affected_targets env catalog candidates changed_paths observed_input_paths =
     (case affected_paths env catalog changed_paths observed_input_paths of
        Inl e \<Rightarrow> Inl e
      | Inr (matchers, paths) \<Rightarrow>
          (let authority_paths = filter (\<lambda>path. path \<in> set REPOSITORY_AUTHORITY_INPUTS) paths in
           if 7 \<le> rc_contract_version catalog
           then select_target_local_affected env catalog candidates matchers paths authority_paths
           else select_component_affected env catalog candidates matchers paths authority_paths))"


section \<open>Lemmas\<close>

subsection \<open>Digest sums\<close>

primrec le_nat :: "string \<Rightarrow> nat" where
  "le_nat [] = 0"
| "le_nat (c # cs) = byte c + 256 * le_nat cs"

text \<open>The number that a digest stands for, most significant byte first.\<close>

definition be_nat :: "string \<Rightarrow> nat" where
  "be_nat s = le_nat (rev s)"

lemma le_nat_mod_div: "le_nat (c # cs) mod 256 = byte c" "le_nat (c # cs) div 256 = le_nat cs"
  by (simp_all add: nat_of_char_less_256)

lemma le_nat_inj: "length s = length t \<Longrightarrow> le_nat s = le_nat t \<Longrightarrow> s = t"
proof (induction s t rule: list_induct2)
  case (Cons c s d t)
  have "byte c = byte d" unfolding le_nat_mod_div(1) [of c s, symmetric] le_nat_mod_div(1) [of d t, symmetric] Cons(3) ..
  moreover have "le_nat s = le_nat t"
    unfolding le_nat_mod_div(2) [of c s, symmetric] le_nat_mod_div(2) [of d t, symmetric] Cons(3) ..
  ultimately show ?case using Cons(2) by simp
qed simp

lemma be_nat_inj: "length s = length t \<Longrightarrow> be_nat s = be_nat t \<Longrightarrow> s = t"
  using le_nat_inj [of "rev s" "rev t"] by (simp add: be_nat_def)

text \<open>The two partial carries together are the carry of the sum.\<close>

lemma partial_carries:
  fixes x y k :: nat
  assumes "x < 256" "y < 256" "k \<le> 1"
  shows "256 \<le> x + y \<or> 256 \<le> (x + y) mod 256 + k \<longleftrightarrow> 256 \<le> x + y + k"
  using assms by (cases "x + y < 256") auto

lemma add_digest_bytes_Cons:
  "add_digest_bytes ((a, d) # rest) carry acc =
     (let v = byte a + byte d + of_bool carry in add_digest_bytes rest (256 \<le> v) (char_of v # acc))"
proof -
  have byte: "byte (char_of n) = n mod 256" for n :: nat by (rule of_char_of)
  have "char_of ((byte a + byte d) mod 256 + of_bool carry :: nat) = char_of (byte a + byte d + of_bool carry)"
    using arg_cong [of "((byte a + byte d) mod 256 + of_bool carry) mod 256" "(byte a + byte d + of_bool carry) mod 256" char_of]
    by (simp add: mod_simps char_of_mod_256)
  moreover have "256 \<le> byte a + byte d \<or> 256 \<le> (byte a + byte d) mod 256 + of_bool carry \<longleftrightarrow>
      256 \<le> byte a + byte d + of_bool carry"
    by (rule partial_carries) (simp_all add: nat_of_char_less_256)
  moreover have "(of_bool carry :: nat) mod 256 = of_bool carry" by simp
  ultimately show ?thesis by (simp only: add_digest_bytes.simps overflowing_add8_def Let_def byte prod.case)
qed

lemma shifted_mod:
  fixes v l m :: nat
  shows "v mod 256 + 256 * ((l + v div 256) mod m) = (256 * l + v) mod (256 * m)"
  by (simp add: mod_mult2_eq)

lemma add_digest_bytes_correct:
  "\<exists>sums. add_digest_bytes ps carry acc = rev sums @ acc \<and> length sums = length ps \<and>
     le_nat sums = (le_nat (map fst ps) + le_nat (map snd ps) + of_bool carry) mod 256 ^ length ps"
proof (induction ps arbitrary: carry acc)
  case (Cons p rest)
  obtain a d where p: "p = (a, d)" by (cases p) auto
  define v where "v = byte a + byte d + of_bool carry"
  let ?l = "le_nat (map fst rest) + le_nat (map snd rest)"
  obtain sums where sums: "add_digest_bytes rest (256 \<le> v) (char_of v # acc) = rev sums @ char_of v # acc"
    "length sums = length rest" "le_nat sums = (?l + of_bool (256 \<le> v)) mod 256 ^ length rest"
    using Cons by blast
  have "v < 512"
  proof -
    have "byte a < 256" "byte d < 256" "of_bool carry \<le> (1 :: nat)" by (simp_all add: nat_of_char_less_256)
    then show ?thesis unfolding v_def by linarith
  qed
  then have carry: "of_bool (256 \<le> v) = v div 256" by (cases "256 \<le> v") (auto simp: div_if)
  have "byte (char_of v) + 256 * le_nat sums = (256 * ?l + v) mod (256 * 256 ^ length rest)"
    unfolding sums(3) carry of_char_of by (rule shifted_mod)
  moreover have "256 * ?l + v = le_nat (map fst (p # rest)) + le_nat (map snd (p # rest)) + of_bool carry"
    by (simp add: p v_def)
  ultimately have "le_nat (char_of v # sums) =
      (le_nat (map fst (p # rest)) + le_nat (map snd (p # rest)) + of_bool carry) mod 256 ^ length (p # rest)"
    by (simp only: le_nat.simps length_Cons power_Suc)
  moreover have "add_digest_bytes (p # rest) carry acc = rev (char_of v # sums) @ acc"
    unfolding p add_digest_bytes_Cons Let_def v_def [symmetric] by (simp add: sums(1))
  ultimately show ?case using sums(2) by (intro exI [of _ "char_of v # sums"] conjI) simp_all
qed simp

lemma add_selection_reason_digest_spec:
  assumes "length a = 32" "length d = 32"
  shows "length (add_selection_reason_digest a d) = 32 \<and>
    be_nat (add_selection_reason_digest a d) = (be_nat a + be_nat d) mod 2 ^ 256"
proof -
  obtain sums where "add_digest_bytes (rev (zip a d)) False [] = rev sums" "length sums = 32"
    "le_nat sums = (le_nat (rev a) + le_nat (rev d)) mod 256 ^ 32"
    using add_digest_bytes_correct [of "rev (zip a d)" False "[]"] assms by (auto simp flip: rev_map)
  moreover have "(256 :: nat) ^ 32 = 2 ^ 256" by simp
  ultimately show ?thesis using assms by (simp add: add_selection_reason_digest_def be_nat_def)
qed

lemma le_nat_zeros: "le_nat (replicate n (CHR 0x00)) = 0"
  by (induction n) auto

lemma from_reasons_spec:
  assumes "\<forall>s. length (re_sha256 env s) = 32"
  shows "sb_preview (from_reasons env rs) = take MAX_SELECTION_REASONS rs \<and>
    unat (sb_count (from_reasons env rs)) = min (length rs) (2 ^ 64 - 1) \<and>
    length (sb_sum_digest (from_reasons env rs)) = 32 \<and>
    be_nat (sb_sum_digest (from_reasons env rs)) =
      (\<Sum>r\<leftarrow>rs. be_nat (selection_reason_item_digest env r)) mod 2 ^ 256"
proof (induction rs rule: rev_induct)
  case Nil
  show ?case by (simp add: from_reasons_def zero_digest_def be_nat_def le_nat_zeros)
next
  case (snoc r rs)
  have "length (selection_reason_item_digest env r) = 32"
    using assms by (simp add: selection_reason_item_digest_def Let_def)
  note add = add_selection_reason_digest_spec [OF _ this]
  have step: "from_reasons env (rs @ [r]) = batch_add env r (from_reasons env rs)"
    by (simp add: from_reasons_def)
  show ?case
    using snoc add [of "sb_sum_digest (from_reasons env rs)"]
    by (auto simp: step batch_add_def unat_sat_add mod_simps)
qed

text \<open>
  C31. The digest of a batch of selection reasons is the sum of the digests of its reasons
  modulo \<open>2 ^ 256\<close>, so that it does not depend on the order of the reasons, counts a
  repeated reason as often as it occurs, and is the sum of the digests of any two batches
  that the reasons are divided into.
\<close>

theorem batch_digest_sum:
  assumes "\<forall>s. length (re_sha256 env s) = 32" and "mset reasons = mset (left @ right)"
  shows "be_nat (sb_sum_digest (from_reasons env reasons)) =
      (\<Sum>r\<leftarrow>reasons. be_nat (selection_reason_item_digest env r)) mod 2 ^ 256 \<and>
    sb_sum_digest (from_reasons env reasons) =
      add_selection_reason_digest (sb_sum_digest (from_reasons env left)) (sb_sum_digest (from_reasons env right))"
proof -
  note spec = from_reasons_spec [OF assms(1)]
  let ?f = "\<lambda>r. be_nat (selection_reason_item_digest env r)"
  have "(\<Sum>r\<leftarrow>reasons. ?f r) = (\<Sum>r\<leftarrow>left. ?f r) + (\<Sum>r\<leftarrow>right. ?f r)"
    using arg_cong [OF assms(2), of "\<lambda>m. sum_mset (image_mset ?f m)"]
    by (simp flip: mset_map add: sum_mset_sum_list)
  moreover from add_selection_reason_digest_spec [of "sb_sum_digest (from_reasons env left)" "sb_sum_digest (from_reasons env right)"]
  have "length (add_selection_reason_digest (sb_sum_digest (from_reasons env left)) (sb_sum_digest (from_reasons env right))) = 32"
    "be_nat (add_selection_reason_digest (sb_sum_digest (from_reasons env left)) (sb_sum_digest (from_reasons env right))) =
       ((\<Sum>r\<leftarrow>left. ?f r) + (\<Sum>r\<leftarrow>right. ?f r)) mod 2 ^ 256"
    using spec [of left] spec [of right] by (simp_all add: mod_simps)
  ultimately show ?thesis using spec [of reasons] be_nat_inj by metis
qed

definition sample_sum_env :: repo_env where
  "sample_sum_env = sample_repo_env
     \<lparr>re_json_reason := (\<lambda>r. case r of DirectInput p \<Rightarrow> p | _ \<Rightarrow> []),
      re_sha256 := (\<lambda>s. replicate 31 (CHR 0x00) @ [last s])\<rparr>"

theorem batch_digest_sum_witness:
  "be_nat (sb_sum_digest (from_reasons sample_sum_env [DirectInput [CHR 0xC0], DirectInput [CHR 0x90]])) = 336 \<and>
   sb_sum_digest (from_reasons sample_sum_env [DirectInput [CHR 0xC0], DirectInput [CHR 0x90]]) =
     add_selection_reason_digest (sb_sum_digest (from_reasons sample_sum_env [DirectInput [CHR 0x90]]))
       (sb_sum_digest (from_reasons sample_sum_env [DirectInput [CHR 0xC0]]))"
proof -
  have "selection_reason_item_digest sample_sum_env (DirectInput [c]) = replicate 31 (CHR 0x00) @ [c]" for c
    by (simp add: selection_reason_item_digest_def sample_sum_env_def Let_def)
  then have item: "be_nat (selection_reason_item_digest sample_sum_env (DirectInput [c])) = byte c" for c
    by (simp add: be_nat_def le_nat_zeros)
  have "\<forall>s. length (re_sha256 sample_sum_env s) = 32" by (simp add: sample_sum_env_def)
  moreover have "mset [DirectInput [CHR 0xC0], DirectInput [CHR 0x90]] = mset ([DirectInput [CHR 0x90]] @ [DirectInput [CHR 0xC0]])"
    by (simp add: add_mset_commute)
  ultimately have sum: "be_nat (sb_sum_digest (from_reasons sample_sum_env [DirectInput [CHR 0xC0], DirectInput [CHR 0x90]])) =
      (\<Sum>r\<leftarrow>[DirectInput [CHR 0xC0], DirectInput [CHR 0x90]]. be_nat (selection_reason_item_digest sample_sum_env r)) mod 2 ^ 256 \<and>
    sb_sum_digest (from_reasons sample_sum_env [DirectInput [CHR 0xC0], DirectInput [CHR 0x90]]) =
      add_selection_reason_digest (sb_sum_digest (from_reasons sample_sum_env [DirectInput [CHR 0x90]]))
        (sb_sum_digest (from_reasons sample_sum_env [DirectInput [CHR 0xC0]]))"
    by (rule batch_digest_sum)
  have "(\<Sum>r\<leftarrow>[DirectInput [CHR 0xC0], DirectInput [CHR 0x90]]. be_nat (selection_reason_item_digest sample_sum_env r)) mod 2 ^ 256 = 336"
    by (simp add: item)
  with sum show ?thesis by metis
qed


subsection \<open>Maps to sets\<close>

text \<open>A map whose values are sets, never empty, as the entry interface builds them.\<close>

definition multimap :: "('k::linorder, 'x::linorder btree_set) btree_map \<Rightarrow> bool" where
  "multimap m \<longleftrightarrow> bt_wf m \<and> (\<forall>k s. bt_get m k = Some s \<longrightarrow> s \<noteq> [] \<and> bs_wf s)"

definition members :: "('k, 'x btree_set) btree_map \<Rightarrow> 'k \<Rightarrow> 'x set" where
  "members m k = (case bt_get m k of None \<Rightarrow> {} | Some s \<Rightarrow> set s)"

lemma multimap_empty: "multimap bt_empty" "members bt_empty k = {}"
  by (simp_all add: multimap_def members_def bt_empty_def bt_get_def bt_wf_def)

lemma members_nonempty: "multimap m \<Longrightarrow> bt_get m k \<noteq> None \<longleftrightarrow> members m k \<noteq> {}"
  by (auto simp: multimap_def members_def split: option.splits)

lemma multimap_update:
  assumes "multimap m"
  shows "multimap (bt_update k (opt_insert x) m) \<and>
    members (bt_update k (opt_insert x) m) k' = members m k' \<union> (if k' = k then {x} else {})"
proof -
  let ?s = "opt_insert x (bt_get m k)"
  have wf: "bt_wf m" using assms by (simp add: multimap_def)
  have get: "bt_get (bt_update k (opt_insert x) m) = (bt_get m)(k \<mapsto> ?s)"
    unfolding bt_update_def by (rule bt.get_put [OF wf])
  let ?old = "case bt_get m k of None \<Rightarrow> [] | Some s \<Rightarrow> s"
  have "bs_wf ?old" "set ?old = members m k"
    using assms by (auto simp: multimap_def members_def bs_wf_def split: option.splits)
  then have s: "bs_wf ?s" "set ?s = insert x (members m k)"
    unfolding opt_insert_def by (auto simp only: bs_wf_bs_insert set_bs_insert)
  then have "?s \<noteq> []" by auto
  then show ?thesis
    using assms bt_wf_insert [OF wf] get s
    by (auto simp: multimap_def members_def bt_update_def)
qed

lemma multimap_fold:
  assumes "multimap m"
  shows "multimap (fold (\<lambda>k. bt_update k (opt_insert x)) ks m) \<and>
    members (fold (\<lambda>k. bt_update k (opt_insert x)) ks m) k' = members m k' \<union> (if k' \<in> set ks then {x} else {})"
  using assms
proof (induction ks arbitrary: m)
  case (Cons k ks)
  then show ?case using multimap_update [OF Cons(2), of k x k'] by auto
qed simp

subsection \<open>Propagation\<close>

text \<open>A component passes its changes on to the components that depend on it, when it is declared to.\<close>

definition propagates :: "RepositoryCatalog \<Rightarrow> (ComponentId \<times> ComponentId) set" where
  "propagates catalog =
     {(c, d). (case catalog_component catalog c of None \<Rightarrow> False | Some spec \<Rightarrow> c_propagate_affected_to_dependents spec) \<and>
        (\<exists>spec \<in> set (catalog_components catalog). c_id spec = d \<and> c \<in> set (c_depends_on spec))}"

lemma dependents_of_spec:
  "multimap (dependents_of catalog) \<and>
   members (dependents_of catalog) c = {c_id spec | spec. spec \<in> set (catalog_components catalog) \<and> c \<in> set (c_depends_on spec)}"
proof -
  have "multimap (fold (\<lambda>component. fold (\<lambda>d. bt_update d (opt_insert (c_id component))) (c_depends_on component)) specs m) \<and>
      members (fold (\<lambda>component. fold (\<lambda>d. bt_update d (opt_insert (c_id component))) (c_depends_on component)) specs m) c =
        members m c \<union> {c_id spec | spec. spec \<in> set specs \<and> c \<in> set (c_depends_on spec)}" if "multimap m" for specs m
    using that
  proof (induction specs arbitrary: m)
    case (Cons spec specs)
    from multimap_fold [OF Cons(2), of "c_id spec" "c_depends_on spec" c] Cons(1) show ?case by auto
  qed simp
  from this [OF multimap_empty(1)] show ?thesis by (simp add: dependents_of_def multimap_empty(2))
qed

interpretation propagation: worklist_loop "\<lambda>s. set (fst s)" "add_dependent batch"
  "propagation_targets components dependents" "\<lambda>ds. ds" "propagate components dependents batch"
  for components dependents batch
  by unfold_locales (auto simp: finite_propagation_targets propagate.simps)

text \<open>The walk attaches the batch once to every component that it newly sees.\<close>

lemma bt_get_opt_push:
  "bt_wf p \<Longrightarrow> bt_get (bt_update k (opt_push x) p) = (bt_get p)(k \<mapsto> opt_push x (bt_get p k))"
  unfolding bt_update_def by (rule bt.get_put)

definition attached :: "SelectionReasonBatch \<Rightarrow> ComponentId btree_set \<times> batch_map \<Rightarrow> ComponentId btree_set \<times> batch_map \<Rightarrow> bool" where
  "attached batch s s' \<longleftrightarrow> set (fst s) \<subseteq> set (fst s') \<and> bt_wf (snd s') \<and>
     (\<forall>k. bt_get (snd s') k =
        (if k \<in> set (fst s') - set (fst s) then Some (opt_push batch (bt_get (snd s) k)) else bt_get (snd s) k))"

lemma attached_refl: "bt_wf (snd s) \<Longrightarrow> attached batch s s"
  by (simp add: attached_def)

lemma attached_trans:
  assumes "attached batch s t" "attached batch t u"
  shows "attached batch s u"
proof -
  have "bt_get (snd u) k = (if k \<in> set (fst u) - set (fst s) then Some (opt_push batch (bt_get (snd s) k)) else bt_get (snd s) k)"
    for k
    using assms unfolding attached_def by (cases "k \<in> set (fst t)"; cases "k \<in> set (fst s)"; cases "k \<in> set (fst u)") auto
  then show ?thesis using assms unfolding attached_def by auto
qed

lemma attached_add: "bt_wf (snd s) \<Longrightarrow> attached batch s (add_dependent batch t d s)"
  by (auto simp: attached_def add_dependent_def bt_get_opt_push bt_update_def bt_wf_insert bt.get_put)

lemma attached_push:
  "bt_wf (snd s) \<Longrightarrow>
     attached batch s (fst (fold (\<lambda>d (s, ps). (add_dependent batch t d s, if d \<in> set (fst s) then ps else d # ps)) ds (s, ps)))"
proof (induction ds arbitrary: s ps)
  case (Cons d ds)
  have a: "attached batch s (add_dependent batch t d s)" by (rule attached_add [OF Cons(2)])
  then have "bt_wf (snd (add_dependent batch t d s))" by (simp add: attached_def)
  from attached_trans [OF a Cons(1) [OF this]] show ?case by simp
qed (simp add: attached_refl)

lemma propagate_attached:
  "bt_wf (snd s) \<Longrightarrow> propagate components dependents batch pending s = Inr s' \<Longrightarrow> attached batch s s'"
proof (induction components dependents batch pending s rule: propagate.induct)
  case (2 components dependents batch c rest s)
  from 2(3) obtain ds where ds: "propagation_targets components dependents c = Some ds"
    by (auto simp: propagate.simps split: option.splits)
  obtain s1 ps1 where push: "fold (\<lambda>d (s, ps). (add_dependent batch c d s, if d \<in> set (fst s) then ps else d # ps)) ds (s, rest) = (s1, ps1)"
    by (cases "fold (\<lambda>d (s, ps). (add_dependent batch c d s, if d \<in> set (fst s) then ps else d # ps)) ds (s, rest)") auto
  have a: "attached batch s s1" using attached_push [OF 2(2), of batch c ds rest] push by simp
  then have "bt_wf (snd s1)" by (simp add: attached_def)
  moreover have "propagate components dependents batch ps1 s1 = Inr s'"
    using 2(3) ds push by (simp add: propagate.simps)
  ultimately have "attached batch s1 s'" using 2(1) [OF ds push [symmetric]] by simp
  then show ?case by (rule attached_trans [OF a])
qed (simp add: attached_refl)


text \<open>The components of an admitted catalog stand under their own identifier.\<close>

definition components_ok :: "RepositoryCatalog \<Rightarrow> bool" where
  "components_ok catalog \<longleftrightarrow> bt_wf (rc_components catalog) \<and> keyed c_id (rc_components catalog)"

definition propagated_from :: "RepositoryCatalog \<Rightarrow> ComponentId \<Rightarrow> ComponentId \<Rightarrow> bool" where
  "propagated_from catalog origin c \<longleftrightarrow> c \<noteq> origin \<and> (origin, c) \<in> (propagates catalog)\<^sup>*"

lemma component_keys:
  assumes "components_ok catalog"
  shows "c_id ` set (catalog_components catalog) = set (bt_keys (rc_components catalog))"
  using assms by (force simp: components_ok_def catalog_components_def bt_values_def bt_keys_def keyed_def list_all_iff)

lemma propagation_depends:
  "propagation.depends (rc_components catalog) (dependents_of catalog) = propagates catalog"
proof -
  have "(\<exists>ds. propagation_targets (rc_components catalog) (dependents_of catalog) c = Some ds \<and> d \<in> set ds) \<longleftrightarrow>
      (case catalog_component catalog c of None \<Rightarrow> False | Some spec \<Rightarrow> c_propagate_affected_to_dependents spec) \<and>
      d \<in> members (dependents_of catalog) c" for c d
    by (auto simp: propagation_targets_def catalog_component_def members_def split: option.splits)
  then show ?thesis
    using dependents_of_spec [of catalog] unfolding propagation.depends_def propagates_def by auto
qed

lemma propagate_origin:
  assumes "components_ok catalog" "origin \<in> set (bt_keys (rc_components catalog))" "bt_wf p"
  shows "\<exists>seen p'. propagate (rc_components catalog) (dependents_of catalog) batch [origin] ([origin], p) = Inr (seen, p') \<and>
    bt_wf p' \<and>
    (\<forall>k. bt_get p' k = (if propagated_from catalog origin k then Some (opt_push batch (bt_get p k)) else bt_get p k))"
proof -
  let ?loop = "propagate (rc_components catalog) (dependents_of catalog) batch [origin] ([origin], p)"
  have dom: "dom (propagation_targets (rc_components catalog) (dependents_of catalog)) = set (bt_keys (rc_components catalog))"
    by (auto simp: propagation_targets_def bt_keys_dom split: option.splits)
  have known: "k \<in> set (bt_keys (rc_components catalog))" if "(origin, k) \<in> (propagates catalog)\<^sup>*" for k
    using that
  proof (cases rule: rtranclE)
    case (step y)
    then have "k \<in> c_id ` set (catalog_components catalog)" by (auto simp: propagates_def)
    then show ?thesis using component_keys [OF assms(1)] by simp
  qed (use assms(2) in simp)
  from propagation.loop_from_keys [of "[origin]" "([origin], p)" "rc_components catalog" "dependents_of catalog" batch]
  have spec: "case ?loop of Inr s' \<Rightarrow> set (fst s') = (propagates catalog)\<^sup>* `` {origin}
      | Inl t \<Rightarrow> t \<in> (propagates catalog)\<^sup>* `` {origin} \<and> t \<notin> set (bt_keys (rc_components catalog))"
    unfolding propagation_depends dom by (cases ?loop) simp_all
  then obtain s' where s': "?loop = Inr s'" "set (fst s') = (propagates catalog)\<^sup>* `` {origin}"
    using known by (cases ?loop) auto
  have "attached batch ([origin], p) s'" using propagate_attached [OF _ s'(1)] assms(3) by simp
  then show ?thesis
    using s' by (intro exI [of _ "fst s'"] exI [of _ "snd s'"]) (auto simp: attached_def propagated_from_def)
qed

definition direct_batch :: "repo_env \<Rightarrow> string list \<Rightarrow> SelectionReasonBatch" where
  "direct_batch env paths = from_reasons env (map DirectInput paths)"

definition dependency_batch :: "repo_env \<Rightarrow> ComponentId \<Rightarrow> string list \<Rightarrow> SelectionReasonBatch" where
  "dependency_batch env origin paths = from_reasons env (map (\<lambda>path. ComponentDependency origin (Some path)) paths)"

definition opt_append :: "'a list option \<Rightarrow> 'a list \<Rightarrow> 'a list option" where
  "opt_append v xs = (if xs = [] then v else Some ((case v of None \<Rightarrow> [] | Some ys \<Rightarrow> ys) @ xs))"

definition propagated_batches :: "repo_env \<Rightarrow> RepositoryCatalog \<Rightarrow> (ComponentId, string btree_set) btree_map \<Rightarrow>
    ComponentId \<Rightarrow> SelectionReasonBatch list" where
  "propagated_batches env catalog direct c =
     map (\<lambda>(origin, paths). dependency_batch env origin paths) (filter (\<lambda>(origin, paths). propagated_from catalog origin c) direct)"

lemma opt_append_push: "opt_append (Some (opt_push x v)) xs = opt_append v (x # xs)"
  by (cases v) (auto simp: opt_append_def opt_push_def)

lemma opt_append_Nil: "opt_append v [] = v"
  by (simp add: opt_append_def)

lemma reason_batches_spec:
  assumes "components_ok catalog" "distinct (map fst direct)" "set (map fst direct) \<subseteq> set (bt_keys (rc_components catalog))"
    "bt_wf (ab_direct b)" "bt_wf (ab_propagated b)"
  shows "\<exists>b'. reason_batches env (rc_components catalog) (dependents_of catalog) direct b = Inr b' \<and>
    (\<forall>k. bt_get (ab_direct b') k =
       (case map_of direct k of None \<Rightarrow> bt_get (ab_direct b) k | Some paths \<Rightarrow> Some (direct_batch env paths))) \<and>
    (\<forall>k. bt_get (ab_propagated b') k = opt_append (bt_get (ab_propagated b) k) (propagated_batches env catalog direct k))"
  using assms(2-)
proof (induction direct arbitrary: b)
  case Nil
  then show ?case by (simp add: propagated_batches_def opt_append_Nil)
next
  case (Cons e direct)
  obtain origin paths where e: "e = (origin, paths)" by (cases e) auto
  obtain seen p' where p': "propagate (rc_components catalog) (dependents_of catalog) (dependency_batch env origin paths) [origin]
      ([origin], ab_propagated b) = Inr (seen, p')" "bt_wf p'"
    "\<And>k. bt_get p' k = (if propagated_from catalog origin k
       then Some (opt_push (dependency_batch env origin paths) (bt_get (ab_propagated b) k)) else bt_get (ab_propagated b) k)"
    using propagate_origin [OF assms(1), of origin "ab_propagated b" "dependency_batch env origin paths"] Cons(3,5) e by auto
  define b1 where "b1 = \<lparr>ab_direct = bt_insert origin (direct_batch env paths) (ab_direct b), ab_propagated = p'\<rparr>"
  have step: "reason_batches env (rc_components catalog) (dependents_of catalog) (e # direct) b =
      reason_batches env (rc_components catalog) (dependents_of catalog) direct b1"
    using p'(1) by (simp add: e b1_def direct_batch_def dependency_batch_def Let_def)
  have b1: "bt_wf (ab_direct b1)" "bt_wf (ab_propagated b1)"
    using Cons(4) p'(2) by (simp_all add: b1_def bt_wf_insert)
  have "distinct (map fst direct)" "set (map fst direct) \<subseteq> set (bt_keys (rc_components catalog))"
    using Cons(2,3) by auto
  from Cons(1) [OF this b1] obtain b' where
    b': "reason_batches env (rc_components catalog) (dependents_of catalog) direct b1 = Inr b'"
    and dir: "\<And>k. bt_get (ab_direct b') k =
       (case map_of direct k of None \<Rightarrow> bt_get (ab_direct b1) k | Some paths \<Rightarrow> Some (direct_batch env paths))"
    and pro: "\<And>k. bt_get (ab_propagated b') k = opt_append (bt_get (ab_propagated b1) k) (propagated_batches env catalog direct k)"
    by blast
  have "map_of direct origin = None" using Cons(2) e by (simp add: map_of_eq_None_iff)
  then have "bt_get (ab_direct b') k =
      (case map_of (e # direct) k of None \<Rightarrow> bt_get (ab_direct b) k | Some paths \<Rightarrow> Some (direct_batch env paths))" for k
    using bt.get_put [OF Cons(4)] by (simp add: dir e b1_def cong: option.case_cong)
  moreover have "bt_get (ab_propagated b') k =
      opt_append (bt_get (ab_propagated b) k) (propagated_batches env catalog (e # direct) k)" for k
    by (simp add: pro b1_def p'(3) propagated_batches_def e opt_append_push)
  ultimately show ?case using step b' by (intro exI [of _ b']) simp
qed

lemma affected_reason_batches_spec:
  assumes "components_ok catalog" "bt_wf direct" "set (bt_keys direct) \<subseteq> set (bt_keys (rc_components catalog))"
  obtains b where "affected_reason_batches env catalog direct = Inr b"
    "\<And>k. bt_get (ab_direct b) k = map_option (direct_batch env) (bt_get direct k)"
    "\<And>k. bt_get (ab_propagated b) k = opt_append None (propagated_batches env catalog direct k)"
proof -
  have "bt_wf (bt_empty :: batch_map)" "bt_wf (bt_empty :: (ComponentId, SelectionReasonBatch) btree_map)"
    by (simp_all add: bt_empty_def bt_wf_def)
  from reason_batches_spec [OF assms(1) bt_wf_distinct [OF assms(2)],
      of "\<lparr>ab_direct = bt_empty, ab_propagated = bt_empty\<rparr>" env] assms(3) this
  obtain b where b: "affected_reason_batches env catalog direct = Inr b"
    "\<And>k. bt_get (ab_direct b) k =
       (case map_of direct k of None \<Rightarrow> bt_get bt_empty k | Some paths \<Rightarrow> Some (direct_batch env paths))"
    "\<And>k. bt_get (ab_propagated b) k = opt_append (bt_get bt_empty k) (propagated_batches env catalog direct k)"
    by (auto simp: affected_reason_batches_def bt_keys_def cong: option.case_cong)
  have "bt_get (ab_direct b) k = map_option (direct_batch env) (bt_get direct k)" for k
    using b(2) by (simp add: bt_get_def bt_empty_def split: option.splits)
  moreover have "bt_get (ab_propagated b) k = opt_append None (propagated_batches env catalog direct k)" for k
    using b(3) by (simp add: bt_get_def bt_empty_def)
  ultimately show ?thesis using that b(1) by blast
qed


subsection \<open>Claims\<close>

definition affected_catalog :: "RepositoryCatalog \<Rightarrow> bool" where
  "affected_catalog catalog \<longleftrightarrow> components_ok catalog \<and>
     (\<forall>a \<in> set (catalog_actions catalog). t_component (a_target a) \<in> set (bt_keys (rc_components catalog)))"

lemma or_error_None_iff: "or_error wrap check rest = None \<longleftrightarrow> check = None \<and> rest = None"
  by (simp add: or_error_def split: option.splits)

lemma admit_action_component:
  assumes "admit_action env version components a = Inr a'"
  shows "t_component (a_target a') \<in> set (bt_keys components)"
proof -
  from assms have "bt_get components (t_component (a_target a')) \<noteq> None"
    unfolding admit_action_def
    by (cases "normalize_native_configuration version a")
      (simp_all only: sum.case option.case sum.inject sum.distinct simp_thms or_error_None_iff ensure_None_iff split: option.splits, blast?)
  then show ?thesis unfolding bt_get_keys .
qed

lemma catalog_ok_affected:
  assumes "catalog_ok env catalog"
  shows "affected_catalog catalog"
proof -
  have "t_component (a_target a) \<in> set (bt_keys (rc_components catalog))" if "a \<in> set (bt_values (rc_actions catalog))" for a
    using that assms admit_action_component unfolding catalog_ok_def collected_def by blast
  then show ?thesis
    using assms unfolding catalog_ok_def affected_catalog_def components_ok_def catalog_actions_def by blast
qed

text \<open>What one path claims, for the two generations of contracts.\<close>

definition claimed_components :: "RepositoryCatalog \<Rightarrow> TargetInputMatcherV1 \<Rightarrow> string \<Rightarrow> ComponentId set" where
  "claimed_components catalog matchers path =
     (if 7 \<le> rc_contract_version catalog then t_component ` set (claiming_targets catalog matchers path)
      else set (claiming_components catalog matchers path))"

definition claims_target :: "RepositoryCatalog \<Rightarrow> TargetInputMatcherV1 \<Rightarrow> string \<Rightarrow> TargetId \<Rightarrow> bool" where
  "claims_target catalog matchers path target \<longleftrightarrow>
     (if 7 \<le> rc_contract_version catalog then target \<in> set (claiming_targets catalog matchers path)
      else t_component target \<in> set (claiming_components catalog matchers path))"

definition matcher_for :: "RepositoryCatalog \<Rightarrow> TargetInputMatcherV1 \<Rightarrow> bool" where
  "matcher_for catalog matchers \<longleftrightarrow>
     set (bt_keys (tm_by_target matchers)) \<subseteq> a_target ` set (catalog_actions catalog)"

lemma matcher_loop_keys:
  "matcher_loop env m actions = Inr m' \<Longrightarrow>
     set (bt_keys (tm_by_target m')) \<subseteq> set (bt_keys (tm_by_target m)) \<union> a_target ` set actions"
proof (induction env m actions rule: matcher_loop.induct)
  case (2 env m action rest)
  show ?case
  proof (cases "a_inputs action = []")
    case True
    then show ?thesis using 2 by auto
  next
    case False
    with 2(3) obtain inputs where i: "compile_all (compile_input env) (a_inputs action) = Inr inputs"
      by (auto split: sum.splits)
    from 2(2) [OF False i] 2(3) False i show ?thesis
      by (auto simp: bt_keys_def set_bt_insert_keys)
  qed
qed simp

lemma new_matcher_for: "new_matcher env catalog = Inr m \<Longrightarrow> matcher_for catalog m"
  using matcher_loop_keys [of env "\<lparr>tm_by_target = bt_empty, tm_components_with_inputs = []\<rparr>" "catalog_actions catalog" m]
  by (simp add: new_matcher_def matcher_for_def bt_empty_def bt_keys_def)

lemma set_matching_targets: "set (matching_targets m path) \<subseteq> set (bt_keys (tm_by_target m))"
  by (auto simp: matching_targets_def bt_keys_def)

lemma inputless_targets:
  "multimap (inputless_by_component catalog) \<and>
   members (inputless_by_component catalog) c \<subseteq> a_target ` set (catalog_actions catalog)"
proof -
  have "multimap (fold (\<lambda>a. bt_update (t_component (a_target a)) (opt_insert (a_target a))) actions m) \<and>
      members (fold (\<lambda>a. bt_update (t_component (a_target a)) (opt_insert (a_target a))) actions m) c \<subseteq>
        members m c \<union> a_target ` set actions" if "multimap m" for actions :: "ActionSpec list" and m
    using that
  proof (induction actions arbitrary: m)
    case (Cons a actions)
    let ?m = "bt_update (t_component (a_target a)) (opt_insert (a_target a)) m"
    have "multimap ?m" "members ?m c \<subseteq> insert (a_target a) (members m c)"
      using multimap_update [OF Cons(2), of "t_component (a_target a)" "a_target a" c] by auto
    with Cons(1) [OF \<open>multimap ?m\<close>] show ?case unfolding fold_Cons o_apply list.set image_insert by blast
  qed simp
  from this [OF multimap_empty(1), of "filter (\<lambda>a. a_inputs a = []) (catalog_actions catalog)"] show ?thesis
    unfolding inputless_by_component_def multimap_empty(2) by (simp only: set_filter) blast
qed

lemma set_most_specific_inputless_targets:
  "set (most_specific_inputless_targets catalog path) \<subseteq> a_target ` set (catalog_actions catalog)"
proof
  fix t assume "t \<in> set (most_specific_inputless_targets catalog path)"
  then obtain c where "t \<in> set (case bt_get (inputless_by_component catalog) c of None \<Rightarrow> [] | Some s \<Rightarrow> s)"
    by (auto simp: most_specific_inputless_targets_def Let_def)
  then have "t \<in> members (inputless_by_component catalog) c"
    by (cases "bt_get (inputless_by_component catalog) c") (simp_all add: members_def)
  then show "t \<in> a_target ` set (catalog_actions catalog)" using inputless_targets by blast
qed

lemma claimed_components_known:
  assumes "affected_catalog catalog" "matcher_for catalog matchers"
  shows "claimed_components catalog matchers path \<subseteq> set (bt_keys (rc_components catalog))"
proof -
  have actions: "t_component t \<in> set (bt_keys (rc_components catalog))"
    if "t \<in> a_target ` set (catalog_actions catalog)" for t
    using that assms(1) unfolding affected_catalog_def by blast
  have matching: "set (matching_targets matchers path) \<subseteq> a_target ` set (catalog_actions catalog)"
    using set_matching_targets assms(2) unfolding matcher_for_def by blast
  have "set (claiming_targets catalog matchers path) \<subseteq> a_target ` set (catalog_actions catalog)"
    using matching set_most_specific_inputless_targets by (auto simp: claiming_targets_def Let_def)
  moreover have "set (most_specific_component_roots catalog matchers path) \<subseteq> c_id ` set (catalog_components catalog)"
    by (auto simp: most_specific_component_roots_def Let_def)
  moreover have "c_id ` set (catalog_components catalog) = set (bt_keys (rc_components catalog))"
    using assms(1) component_keys by (simp add: affected_catalog_def)
  moreover have "set (bs_collect (map t_component (matching_targets matchers path))) \<subseteq> set (bt_keys (rc_components catalog))"
    unfolding set_bs_collect set_map using matching actions by blast
  ultimately show ?thesis
    using actions unfolding claimed_components_def claiming_components_def Let_def by (simp split: if_splits) blast
qed


definition target_claims_ok :: "target_claims \<Rightarrow> bool" where
  "target_claims_ok claims \<longleftrightarrow> multimap (tc_targets claims) \<and> multimap (tc_components claims) \<and> bs_wf (tc_unclaimed claims)"

lemma claim_target_step:
  assumes "target_claims_ok claims"
  shows "target_claims_ok (claim_target catalog matchers authority p claims) \<and>
    members (tc_targets (claim_target catalog matchers authority p claims)) t = members (tc_targets claims) t \<union>
      (if p \<notin> set authority \<and> t \<in> set (claiming_targets catalog matchers p) then {p} else {}) \<and>
    members (tc_components (claim_target catalog matchers authority p claims)) c = members (tc_components claims) c \<union>
      (if p \<notin> set authority \<and> c \<in> t_component ` set (claiming_targets catalog matchers p) then {p} else {}) \<and>
    set (tc_unclaimed (claim_target catalog matchers authority p claims)) = set (tc_unclaimed claims) \<union>
      (if p \<notin> set authority \<and> claiming_targets catalog matchers p = [] then {p} else {})"
proof (cases "p \<in> set authority")
  case True
  then show ?thesis using assms by (simp add: claim_target_def)
next
  case False
  have ok: "multimap (tc_targets claims)" "multimap (tc_components claims)" "bs_wf (tc_unclaimed claims)"
    using assms by (simp_all add: target_claims_ok_def)
  show ?thesis
  proof (cases "claiming_targets catalog matchers p = []")
    case True
    then show ?thesis
      using False ok bs_wf_bs_insert by (auto simp: claim_target_def target_claims_ok_def)
  next
    case nonempty: False
    from multimap_fold [OF ok(1), of p "claiming_targets catalog matchers p" t]
      multimap_fold [OF ok(2), of p "map t_component (claiming_targets catalog matchers p)" c]
    show ?thesis using False nonempty ok(3) by (simp add: claim_target_def target_claims_ok_def Let_def)
  qed
qed

lemma claim_targets_fold:
  assumes "target_claims_ok claims"
  shows "target_claims_ok (fold (claim_target catalog matchers authority) paths claims) \<and>
    members (tc_targets (fold (claim_target catalog matchers authority) paths claims)) t = members (tc_targets claims) t \<union>
      {p \<in> set paths. p \<notin> set authority \<and> t \<in> set (claiming_targets catalog matchers p)} \<and>
    members (tc_components (fold (claim_target catalog matchers authority) paths claims)) c = members (tc_components claims) c \<union>
      {p \<in> set paths. p \<notin> set authority \<and> c \<in> t_component ` set (claiming_targets catalog matchers p)} \<and>
    set (tc_unclaimed (fold (claim_target catalog matchers authority) paths claims)) = set (tc_unclaimed claims) \<union>
      {p \<in> set paths. p \<notin> set authority \<and> claiming_targets catalog matchers p = []}"
  using assms
proof (induction paths arbitrary: claims)
  case (Cons p paths)
  note step = claim_target_step [OF Cons(2), of catalog matchers authority p t c]
  from Cons(1) [of "claim_target catalog matchers authority p claims"] step
  show ?case by (simp only: fold_Cons o_apply) auto
qed simp

lemma claim_components_fold:
  assumes "multimap (fst acc)" "bs_wf (snd acc)"
  shows "multimap (fst (fold (claim_component catalog matchers) paths acc)) \<and>
    bs_wf (snd (fold (claim_component catalog matchers) paths acc)) \<and>
    members (fst (fold (claim_component catalog matchers) paths acc)) c = members (fst acc) c \<union>
      {p \<in> set paths. c \<in> set (claiming_components catalog matchers p)} \<and>
    set (snd (fold (claim_component catalog matchers) paths acc)) = set (snd acc) \<union>
      {p \<in> set paths. claiming_components catalog matchers p = []}"
  using assms
proof (induction paths arbitrary: acc)
  case (Cons p paths)
  let ?acc = "claim_component catalog matchers p acc"
  from multimap_fold [OF Cons(2), of p "claiming_components catalog matchers p" c] Cons(3)
  have step: "multimap (fst ?acc)" "bs_wf (snd ?acc)"
    "members (fst ?acc) c = members (fst acc) c \<union> (if c \<in> set (claiming_components catalog matchers p) then {p} else {})"
    "set (snd ?acc) = set (snd acc) \<union> (if claiming_components catalog matchers p = [] then {p} else {})"
    using bs_wf_bs_insert by (auto simp: claim_component_def Let_def)
  from Cons(1) [OF step(1,2)] step(3,4) show ?case by (simp only: fold_Cons o_apply) auto
qed simp

lemma map_of_restrict:
  assumes "distinct (map fst m)"
  shows "map_of (filter (\<lambda>(k, s). s \<noteq> []) (map (\<lambda>(k, s). (k, f s)) m)) k =
    (case map_of m k of None \<Rightarrow> None | Some s \<Rightarrow> if f s = [] then None else Some (f s))"
  using assms
proof (induction m)
  case (Cons e m)
  obtain k' s where e: "e = (k', s)" by (cases e) auto
  have IH: "map_of (filter (\<lambda>(k, s). s \<noteq> []) (map (\<lambda>(k, s). (k, f s)) m)) k =
      (case map_of m k of None \<Rightarrow> None | Some s \<Rightarrow> if f s = [] then None else Some (f s))" using Cons by simp
  have "map_of m k' = None" using Cons(2) e by (simp add: map_of_eq_None_iff)
  then show ?case using IH by (cases "k = k'") (simp_all add: e)
qed simp

text \<open>The map that remains when the authority paths are taken out of every set.\<close>

lemma multimap_restrict:
  fixes m :: "('k::linorder, 'x::linorder btree_set) btree_map" and P :: "'x \<Rightarrow> bool"
  assumes "multimap m"
  defines "r \<equiv> filter (\<lambda>(k, s). s \<noteq> []) (map (\<lambda>(k, s). (k, filter P s)) m)"
  shows "multimap r \<and> members r k = {x \<in> members m k. P x}"
proof -
  let ?m = "map (\<lambda>(k, s). (k, filter P s)) m"
  have keys: "map fst ?m = map fst m" by (induction m) auto
  have wf: "sorted_wrt (<) (map fst m)" using assms(1) by (simp add: multimap_def bt_wf_def)
  have "sorted_wrt (\<lambda>x y. fst x < fst y) ?m" using wf unfolding keys [symmetric] sorted_wrt_map [of _ fst ?m] .
  then have "sorted_wrt (\<lambda>x y. fst x < fst y) r" unfolding r_def by (rule sorted_wrt_filter)
  then have "sorted_wrt (<) (map fst r)" by (simp add: sorted_wrt_map)
  then have wf_r: "bt_wf r" by (simp add: bt_wf_def)
  have "distinct (map fst m)" using wf strict_sorted_iff by blast
  then have get: "bt_get r k = (case bt_get m k of None \<Rightarrow> None | Some s \<Rightarrow> if filter P s = [] then None else Some (filter P s))" for k
    unfolding r_def bt_get_def by (rule map_of_restrict)
  have "filter P s \<noteq> [] \<and> bs_wf (filter P s)" if "bt_get m k = Some s" "filter P s \<noteq> []" for k s
    using that assms(1) by (auto simp: multimap_def bs_wf_def intro: sorted_wrt_filter)
  then have "multimap r"
    using wf_r get unfolding multimap_def by (simp split: option.splits if_splits)
  moreover have "members r k = {x \<in> members m k. P x}"
    by (auto simp: members_def get filter_empty_conv split: option.splits)
  ultimately show ?thesis by simp
qed


subsection \<open>The selected targets\<close>

lemma select_candidates_get:
  assumes "bt_wf candidates"
  shows "bt_wf (select_candidates authority unclaimed direct propagated candidates) \<and>
    bt_get (select_candidates authority unclaimed direct propagated candidates) t =
      (case bt_get candidates t of
         None \<Rightarrow> None
       | Some r \<Rightarrow> candidate_reasons authority unclaimed (direct t) (bt_get propagated (t_component t)) r)"
proof -
  let ?new = "\<lambda>t r. candidate_reasons authority unclaimed (direct t) (bt_get propagated (t_component t)) r"
  let ?step = "\<lambda>(t, r) selected. case ?new t r of None \<Rightarrow> selected | Some r' \<Rightarrow> bt_insert t r' selected"
  have "bt_wf (fold ?step es m) \<and> bt_get (fold ?step es m) t =
      (case map_of es t of None \<Rightarrow> bt_get m t | Some r \<Rightarrow> (case ?new t r of None \<Rightarrow> bt_get m t | Some r' \<Rightarrow> Some r'))"
    if "bt_wf m" "distinct (map fst es)" for es m
    using that
  proof (induction es arbitrary: m)
    case (Cons e es)
    obtain t' r where e: "e = (t', r)" by (cases e) auto
    let ?m = "?step e m"
    have fresh: "map_of es t' = None" using Cons(3) e by (simp add: map_of_eq_None_iff)
    have m: "bt_wf ?m" "bt_get ?m t = (if t = t' \<and> ?new t' r \<noteq> None then ?new t' r else bt_get m t)"
      using Cons(2) bt.get_put [OF Cons(2)] by (auto simp: e bt_wf_insert split: option.splits)
    from Cons(1) [OF m(1)] Cons(3)
    have "bt_wf (fold ?step (e # es) m)" "bt_get (fold ?step (e # es) m) t =
      (case map_of es t of None \<Rightarrow> bt_get ?m t | Some r \<Rightarrow> (case ?new t r of None \<Rightarrow> bt_get ?m t | Some r' \<Rightarrow> Some r'))"
      by simp_all
    then show ?case using m(2) fresh by (cases "t = t'") (auto simp: e split: option.splits)
  qed simp
  from this [of bt_empty candidates] bt_wf_distinct [OF assms] show ?thesis
    by (simp add: select_candidates_def bt_get_def bt_empty_def bt_wf_def cong: option.case_cong split: option.splits)
qed

text \<open>
  The shape of a selection: the paths outside the authority claim components and targets,
  or nothing, and every candidate gets the reasons that its claims and the propagation of
  its component give.
\<close>

definition foreign_paths :: "string list \<Rightarrow> string set" where
  "foreign_paths paths = {p \<in> set paths. p \<notin> set REPOSITORY_AUTHORITY_INPUTS}"

definition authority_in :: "string list \<Rightarrow> string list" where
  "authority_in paths = filter (\<lambda>p. p \<in> set REPOSITORY_AUTHORITY_INPUTS) paths"

definition claims_shape ::
    "RepositoryCatalog \<Rightarrow> TargetInputMatcherV1 \<Rightarrow> string list \<Rightarrow> (ComponentId, string btree_set) btree_map \<Rightarrow>
     string btree_set \<Rightarrow> (TargetId \<Rightarrow> string btree_set option) \<Rightarrow> bool" where
  "claims_shape catalog matchers paths D U T \<longleftrightarrow>
     multimap D \<and> (\<forall>c. members D c = {p \<in> foreign_paths paths. c \<in> claimed_components catalog matchers p}) \<and>
     bs_wf U \<and> set U = {p \<in> foreign_paths paths. claimed_components catalog matchers p = {}} \<and>
     (\<forall>t. case T t of
        None \<Rightarrow> {p \<in> foreign_paths paths. claims_target catalog matchers p t} = {}
      | Some ps \<Rightarrow> ps \<noteq> [] \<and> bs_wf ps \<and> set ps = {p \<in> foreign_paths paths. claims_target catalog matchers p t})"

definition shaped_reasons ::
    "repo_env \<Rightarrow> RepositoryCatalog \<Rightarrow> string list \<Rightarrow> (ComponentId, string btree_set) btree_map \<Rightarrow> string btree_set \<Rightarrow>
     (TargetId \<Rightarrow> string btree_set option) \<Rightarrow> TargetId \<Rightarrow> TargetSelectionReasons \<Rightarrow> TargetSelectionReasons option" where
  "shaped_reasons env catalog paths D U T t r =
     candidate_reasons (authority_in paths) (unclaimed_reasons env U) (map_option (direct_batch env) (T t))
       (opt_append None (propagated_batches env catalog D (t_component t))) r"

lemma multimap_option:
  assumes "multimap m" "members m k = S"
  shows "case bt_get m k of None \<Rightarrow> S = {} | Some ps \<Rightarrow> ps \<noteq> [] \<and> bs_wf ps \<and> set ps = S"
  using assms by (auto simp: multimap_def members_def split: option.splits)

lemma shape_from_batches:
  assumes "affected_catalog catalog" "matcher_for catalog matchers" "claims_shape catalog matchers paths D U T"
  shows "\<exists>b. affected_reason_batches env catalog D = Inr b \<and>
    (\<forall>k. bt_get (ab_direct b) k = map_option (direct_batch env) (bt_get D k)) \<and>
    (\<forall>k. bt_get (ab_propagated b) k = opt_append None (propagated_batches env catalog D k))"
proof -
  have D: "multimap D" using assms(3) by (simp add: claims_shape_def)
  have "set (bt_keys D) \<subseteq> set (bt_keys (rc_components catalog))"
  proof
    fix c assume "c \<in> set (bt_keys D)"
    then have "members D c \<noteq> {}" using D bt_get_keys members_nonempty by metis
    then obtain p where "c \<in> claimed_components catalog matchers p"
      using assms(3) unfolding claims_shape_def by auto
    then show "c \<in> set (bt_keys (rc_components catalog))"
      using claimed_components_known [OF assms(1,2)] by blast
  qed
  moreover have "components_ok catalog" "bt_wf D"
    using D assms(1) unfolding affected_catalog_def multimap_def by blast+
  ultimately show ?thesis using affected_reason_batches_spec [of catalog D env] by metis
qed

lemma target_local_shape:
  assumes "affected_catalog catalog" "matcher_for catalog matchers" "bt_wf candidates" "7 \<le> rc_contract_version catalog"
  shows "\<exists>D U T selected. claims_shape catalog matchers paths D U T \<and>
    select_target_local_affected env catalog candidates matchers paths (authority_in paths) = Inr selected \<and> bt_wf selected \<and>
    (\<forall>t. bt_get selected t =
       (case bt_get candidates t of None \<Rightarrow> None | Some r \<Rightarrow> shaped_reasons env catalog paths D U T t r))"
proof -
  let ?init = "\<lparr>tc_targets = bt_empty, tc_components = bt_empty, tc_unclaimed = []\<rparr>"
  define claims where "claims = fold (claim_target catalog matchers (authority_in paths)) paths ?init"
  have "target_claims_ok ?init" by (simp add: target_claims_ok_def multimap_empty bs_wf_def)
  note fold = claim_targets_fold [OF this, of catalog matchers "authority_in paths" paths, folded claims_def]
  have foreign: "{p \<in> set paths. p \<notin> set (authority_in paths) \<and> Q p} = {p \<in> foreign_paths paths. Q p}" for Q
    by (auto simp: authority_in_def foreign_paths_def)
  have ok: "multimap (tc_targets claims)" "multimap (tc_components claims)" "bs_wf (tc_unclaimed claims)"
    using fold by (simp_all add: target_claims_ok_def)
  have "members (tc_targets claims) t = {p \<in> foreign_paths paths. claims_target catalog matchers p t}" for t
    using fold [of t] assms(4) by (simp add: multimap_empty claims_target_def foreign)
  note targets = multimap_option [OF ok(1) this]
  have "claims_shape catalog matchers paths (tc_components claims) (tc_unclaimed claims) (bt_get (tc_targets claims))"
    unfolding claims_shape_def
  proof (intro conjI allI)
    show "members (tc_components claims) c = {p \<in> foreign_paths paths. c \<in> claimed_components catalog matchers p}" for c
      using fold [of _ c] assms(4) by (simp add: multimap_empty claimed_components_def foreign)
    show "set (tc_unclaimed claims) = {p \<in> foreign_paths paths. claimed_components catalog matchers p = {}}"
      using fold assms(4) by (simp add: claimed_components_def foreign)
  qed (use ok targets in simp_all)
  note shape = this
  obtain b where b: "affected_reason_batches env catalog (tc_components claims) = Inr b"
    "\<And>k. bt_get (ab_direct b) k = map_option (direct_batch env) (bt_get (tc_components claims) k)"
    "\<And>k. bt_get (ab_propagated b) k = opt_append None (propagated_batches env catalog (tc_components claims) k)"
    using shape_from_batches [OF assms(1,2) shape, of env] by blast
  define batches where "batches = map (\<lambda>(t, ps). (t, from_reasons env (map DirectInput ps))) (tc_targets claims)"
  have batches: "bt_get batches t = map_option (direct_batch env) (bt_get (tc_targets claims) t)" for t
    by (simp add: batches_def bt_get_def map_of_map direct_batch_def [abs_def])
  let ?selected = "select_candidates (authority_in paths) (unclaimed_reasons env (tc_unclaimed claims)) (bt_get batches)
    (ab_propagated b) candidates"
  have "select_target_local_affected env catalog candidates matchers paths (authority_in paths) = Inr ?selected"
    by (simp add: select_target_local_affected_def claims_def [symmetric] batches_def [symmetric] b(1) Let_def)
  moreover have "bt_get ?selected t = (case bt_get candidates t of None \<Rightarrow> None
      | Some r \<Rightarrow> shaped_reasons env catalog paths (tc_components claims) (tc_unclaimed claims) (bt_get (tc_targets claims)) t r)"
    for t
    using select_candidates_get [OF assms(3)] by (simp add: shaped_reasons_def batches b(3) cong: option.case_cong)
  ultimately show ?thesis using shape select_candidates_get [OF assms(3)] by blast
qed

lemma component_shape:
  assumes "affected_catalog catalog" "matcher_for catalog matchers" "bt_wf candidates" "\<not> 7 \<le> rc_contract_version catalog"
  shows "\<exists>D U T selected. claims_shape catalog matchers paths D U T \<and>
    select_component_affected env catalog candidates matchers paths (authority_in paths) = Inr selected \<and> bt_wf selected \<and>
    (\<forall>t. bt_get selected t =
       (case bt_get candidates t of None \<Rightarrow> None | Some r \<Rightarrow> shaped_reasons env catalog paths D U T t r))"
proof -
  define acc where "acc = directly_affected_components catalog matchers paths"
  let ?P = "\<lambda>p. p \<notin> set (authority_in paths)"
  define U where "U = filter ?P (snd acc)"
  define D where "D = filter (\<lambda>(c, ps). ps \<noteq> []) (map (\<lambda>(c, ps). (c, filter ?P ps)) (fst acc))"
  have init: "multimap (fst (bt_empty, []))" "bs_wf (snd (bt_empty, []))" by (simp_all add: multimap_empty bs_wf_def)
  from claim_components_fold [OF init, of catalog matchers paths]
  have acc: "multimap (fst acc)" "bs_wf (snd acc)"
    "\<And>c. members (fst acc) c = {p \<in> set paths. c \<in> set (claiming_components catalog matchers p)}"
    "set (snd acc) = {p \<in> set paths. claiming_components catalog matchers p = []}"
    unfolding acc_def directly_affected_components_def by (simp_all add: multimap_empty)
  have foreign: "{p \<in> set paths. Q p \<and> ?P p} = {p \<in> foreign_paths paths. Q p}" for Q
    by (auto simp: authority_in_def foreign_paths_def)
  have D: "multimap D" "\<And>c. members D c = {p \<in> foreign_paths paths. c \<in> claimed_components catalog matchers p}"
    using multimap_restrict [OF acc(1), of ?P] assms(4)
    unfolding D_def by (simp_all add: acc(3) claimed_components_def foreign)
  have U: "bs_wf U" "set U = {p \<in> foreign_paths paths. claimed_components catalog matchers p = {}}"
    using acc(2,4) assms(4) foreign [of "\<lambda>p. claiming_components catalog matchers p = []"]
    by (auto simp: U_def bs_wf_def claimed_components_def intro: sorted_wrt_filter)
  have "members D (t_component t) = {p \<in> foreign_paths paths. claims_target catalog matchers p t}" for t
    using D(2) assms(4) by (simp add: claims_target_def claimed_components_def)
  note targets = multimap_option [OF D(1) this]
  have shape: "claims_shape catalog matchers paths D U (\<lambda>t. bt_get D (t_component t))"
    using D U targets unfolding claims_shape_def by simp
  obtain b where b: "affected_reason_batches env catalog D = Inr b"
    "\<And>k. bt_get (ab_direct b) k = map_option (direct_batch env) (bt_get D k)"
    "\<And>k. bt_get (ab_propagated b) k = opt_append None (propagated_batches env catalog D k)"
    using shape_from_batches [OF assms(1,2) shape, of env] by blast
  let ?selected = "select_candidates (authority_in paths) (unclaimed_reasons env U)
    (\<lambda>t. bt_get (ab_direct b) (t_component t)) (ab_propagated b) candidates"
  have "select_component_affected env catalog candidates matchers paths (authority_in paths) = Inr ?selected"
    using b(1) unfolding select_component_affected_def acc_def [symmetric] U_def D_def Let_def
    by (cases acc) simp
  moreover have "bt_get ?selected t = (case bt_get candidates t of None \<Rightarrow> None
      | Some r \<Rightarrow> shaped_reasons env catalog paths D U (\<lambda>t. bt_get D (t_component t)) t r)" for t
    using select_candidates_get [OF assms(3)] by (simp add: shaped_reasons_def b(2,3) cong: option.case_cong)
  ultimately show ?thesis using shape select_candidates_get [OF assms(3)] by blast
qed

text \<open>The paths that count, and which targets they affect.\<close>

definition ignored_path :: "repo_env \<Rightarrow> RepositoryCatalog \<Rightarrow> string \<Rightarrow> bool" where
  "ignored_path env catalog path \<longleftrightarrow>
     list_ex (\<lambda>pattern. case compile_path_pattern env pattern of Inl e \<Rightarrow> False | Inr matcher \<Rightarrow> matcher path)
       (rc_affected_ignore catalog)"

definition relevant_paths ::
    "repo_env \<Rightarrow> RepositoryCatalog \<Rightarrow> TargetInputMatcherV1 \<Rightarrow> string list \<Rightarrow> string list \<Rightarrow> string set" where
  "relevant_paths env catalog matchers changed_paths observed_input_paths =
     {p \<in> set changed_paths \<union> {p \<in> set observed_input_paths. matches_any matchers p}.
        p = ''.jig.toml'' \<or> matches_any matchers p \<or> \<not> ignored_path env catalog p}"

definition affected_by :: "RepositoryCatalog \<Rightarrow> TargetInputMatcherV1 \<Rightarrow> string set \<Rightarrow> TargetId \<Rightarrow> bool" where
  "affected_by catalog matchers P target \<longleftrightarrow>
     ''.jig.toml'' \<in> P \<or>
     (\<exists>p \<in> P - {''.jig.toml''}.
        claimed_components catalog matchers p = {} \<or> claims_target catalog matchers p target \<or>
        (\<exists>c \<in> claimed_components catalog matchers p. propagated_from catalog c (t_component target)))"

lemma compile_all_Inl: "compile_all f xs = Inl e \<Longrightarrow> \<exists>x \<in> set xs. f x = Inl e"
  by (induction f xs rule: compile_all.induct) (auto split: sum.splits)

lemma compile_all_matches:
  "compile_all f xs = Inr ms \<Longrightarrow>
     list_ex (\<lambda>m. m p) ms \<longleftrightarrow> list_ex (\<lambda>x. case f x of Inl e \<Rightarrow> False | Inr m \<Rightarrow> m p) xs"
  by (induction f xs arbitrary: ms rule: compile_all.induct) (auto split: sum.splits)

lemma matcher_loop_Inl:
  "matcher_loop env m actions = Inl e \<Longrightarrow> \<exists>a \<in> set actions. \<exists>i \<in> set (a_inputs a). compile_input env i = Inl e"
  by (induction env m actions rule: matcher_loop.induct) (auto split: if_splits sum.splits dest!: compile_all_Inl)

lemma catalog_patterns_compile:
  assumes "catalog_ok env catalog"
  obtains matchers ignored where "new_matcher env catalog = Inr matchers"
    "compile_all (compile_path_pattern env) (rc_affected_ignore catalog) = Inr ignored"
proof -
  from assms have policy: "validate_native_path_policy env (rc_components catalog) (rc_actions catalog)
      (rc_affected_ignore catalog) = None" by (simp add: catalog_ok_def)
  then have inputs: "\<forall>a \<in> set (catalog_actions catalog). \<forall>i \<in> set (a_inputs a). \<forall>e. compile_input env i \<noteq> Inl e"
    and ignore: "\<forall>pattern \<in> set (rc_affected_ignore catalog). \<forall>e. compile_path_pattern env pattern \<noteq> Inl e"
    by (auto simp: validate_native_path_policy_def catalog_actions_def first_error_None_iff check_ignore_pattern_def
        split: option.splits sum.splits)
  have "\<exists>matchers. new_matcher env catalog = Inr matchers"
  proof (cases "new_matcher env catalog")
    case (Inl e)
    from matcher_loop_Inl [OF this [unfolded new_matcher_def]] inputs show ?thesis by blast
  qed simp
  moreover have "\<exists>ignored. compile_all (compile_path_pattern env) (rc_affected_ignore catalog) = Inr ignored"
  proof (cases "compile_all (compile_path_pattern env) (rc_affected_ignore catalog)")
    case (Inl e)
    from compile_all_Inl [OF this] ignore show ?thesis by blast
  qed simp
  ultimately show ?thesis using that by blast
qed

lemma normalize_paths_Inl:
  "normalize_paths s ps = Inl e \<Longrightarrow>
     \<exists>p \<in> set ps. \<exists>err. e = ChangedPath p err \<and> validate_git_changed_path p = Some err"
  by (induction s ps rule: normalize_paths.induct) (auto split: option.splits)

lemma normalize_paths_Inr:
  "normalize_paths s ps = Inr s' \<Longrightarrow> set s' = set s \<union> set ps \<and> (bs_wf s \<longrightarrow> bs_wf s')"
  by (induction s ps rule: normalize_paths.induct) (auto split: option.splits)

lemma affected_paths_spec:
  assumes "catalog_ok env catalog"
  shows "case affected_paths env catalog changed observed of
      Inl e \<Rightarrow> (\<exists>p \<in> set changed \<union> set observed. \<exists>err. e = ChangedPath p err \<and> validate_git_changed_path p = Some err)
    | Inr (matchers, paths) \<Rightarrow> new_matcher env catalog = Inr matchers \<and> bs_wf paths \<and>
        set paths = relevant_paths env catalog matchers changed observed"
proof -
  obtain matchers ignored where m: "new_matcher env catalog = Inr matchers"
    and i: "compile_all (compile_path_pattern env) (rc_affected_ignore catalog) = Inr ignored"
    by (rule catalog_patterns_compile [OF assms])
  show ?thesis
  proof (cases "normalized_changed_paths changed")
    case (Inl e)
    from normalize_paths_Inl [OF this [unfolded normalized_changed_paths_def]] show ?thesis using Inl by (simp add: affected_paths_def) blast
  next
    case c: (Inr paths)
    show ?thesis
    proof (cases "normalized_changed_paths observed")
      case (Inl e)
      from normalize_paths_Inl [OF this [unfolded normalized_changed_paths_def]] show ?thesis using Inl c m by (simp add: affected_paths_def) blast
    next
      case o: (Inr obs)
      let ?all = "bs_extend (filter (matches_any matchers) obs) paths"
      have sets: "set paths = set changed" "bs_wf paths" "set obs = set observed"
        using normalize_paths_Inr [OF c [unfolded normalized_changed_paths_def]]
          normalize_paths_Inr [OF o [unfolded normalized_changed_paths_def]] by (simp_all add: bs_wf_def)
      have all: "bs_wf ?all" "set ?all = set changed \<union> {p \<in> set observed. matches_any matchers p}"
        using bs.wf_fold_ins [OF sets(2)] bs.set_fold_ins [OF sets(2)] sets by (auto simp: bs_extend_def)
      have "ignored_path env catalog p \<longleftrightarrow> list_ex (\<lambda>m. m p) ignored" for p
        using compile_all_matches [OF i] by (simp add: ignored_path_def)
      then have "set (retained_paths matchers ignored ?all) = relevant_paths env catalog matchers changed observed"
        by (auto simp: retained_paths_def relevant_paths_def REPOSITORY_AUTHORITY_INPUTS_def all(2))
      moreover have "bs_wf (retained_paths matchers ignored ?all)"
        using all(1) by (simp add: retained_paths_def bs_wf_def sorted_wrt_filter)
      ultimately show ?thesis using c o m i by (simp add: affected_paths_def)
    qed
  qed
qed

lemma nonempty_iff: "set xs = {p \<in> A. Q p} \<Longrightarrow> xs \<noteq> [] \<longleftrightarrow> (\<exists>p \<in> A. Q p)"
  using set_empty [of xs] by auto

lemma shaped_reasons_Some_iff:
  assumes "claims_shape catalog matchers paths D U T"
  shows "shaped_reasons env catalog paths D U T t r \<noteq> None \<longleftrightarrow> affected_by catalog matchers (set paths) t"
proof -
  have foreign: "foreign_paths paths = set paths - {''.jig.toml''}"
    by (auto simp: foreign_paths_def REPOSITORY_AUTHORITY_INPUTS_def)
  have "shaped_reasons env catalog paths D U T t r \<noteq> None \<longleftrightarrow>
      authority_in paths \<noteq> [] \<or> U \<noteq> [] \<or> T t \<noteq> None \<or> propagated_batches env catalog D (t_component t) \<noteq> []"
    by (simp add: shaped_reasons_def candidate_reasons_def unclaimed_reasons_def opt_append_def Let_def)
  moreover have "authority_in paths \<noteq> [] \<longleftrightarrow> ''.jig.toml'' \<in> set paths"
    by (auto simp: authority_in_def REPOSITORY_AUTHORITY_INPUTS_def filter_empty_conv)
  moreover have "U \<noteq> [] \<longleftrightarrow> (\<exists>p \<in> foreign_paths paths. claimed_components catalog matchers p = {})"
  proof -
    have "set U = {p \<in> foreign_paths paths. claimed_components catalog matchers p = {}}"
      using assms unfolding claims_shape_def by blast
    then show ?thesis by (rule nonempty_iff)
  qed
  moreover have "T t \<noteq> None \<longleftrightarrow> (\<exists>p \<in> foreign_paths paths. claims_target catalog matchers p t)"
  proof -
    have "case T t of None \<Rightarrow> {p \<in> foreign_paths paths. claims_target catalog matchers p t} = {}
        | Some ps \<Rightarrow> ps \<noteq> [] \<and> bs_wf ps \<and> set ps = {p \<in> foreign_paths paths. claims_target catalog matchers p t}"
      using assms unfolding claims_shape_def by blast
    then show ?thesis using nonempty_iff [of _ "foreign_paths paths" "\<lambda>p. claims_target catalog matchers p t"]
      by (cases "T t") auto
  qed
  moreover have "propagated_batches env catalog D (t_component t) \<noteq> [] \<longleftrightarrow>
      (\<exists>c \<in> set (bt_keys D). propagated_from catalog c (t_component t))"
    by (force simp: propagated_batches_def filter_empty_conv bt_keys_def)
  moreover have "c \<in> set (bt_keys D) \<longleftrightarrow> (\<exists>p \<in> foreign_paths paths. c \<in> claimed_components catalog matchers p)" for c
  proof -
    have "multimap D" "members D c = {p \<in> foreign_paths paths. c \<in> claimed_components catalog matchers p}"
      using assms unfolding claims_shape_def by blast+
    then show ?thesis unfolding bt_get_keys [symmetric] members_nonempty [OF \<open>multimap D\<close>] by blast
  qed
  ultimately show ?thesis unfolding affected_by_def foreign by blast
qed

lemma select_affected_shape:
  assumes "affected_catalog catalog" "bt_wf candidates" "affected_paths env catalog changed observed = Inr (matchers, paths)"
    "new_matcher env catalog = Inr matchers"
  shows "\<exists>D U T selected. claims_shape catalog matchers paths D U T \<and>
    select_affected_targets env catalog candidates changed observed = Inr selected \<and> bt_wf selected \<and>
    (\<forall>t. bt_get selected t =
       (case bt_get candidates t of None \<Rightarrow> None | Some r \<Rightarrow> shaped_reasons env catalog paths D U T t r))"
proof (cases "7 \<le> rc_contract_version catalog")
  case True
  then have "select_affected_targets env catalog candidates changed observed =
      select_target_local_affected env catalog candidates matchers paths (authority_in paths)"
    by (simp add: select_affected_targets_def assms(3) authority_in_def Let_def)
  then show ?thesis using target_local_shape [OF assms(1) new_matcher_for [OF assms(4)] assms(2) True, of paths env] by simp
next
  case False
  then have "select_affected_targets env catalog candidates changed observed =
      select_component_affected env catalog candidates matchers paths (authority_in paths)"
    by (simp add: select_affected_targets_def assms(3) authority_in_def Let_def)
  then show ?thesis using component_shape [OF assms(1) new_matcher_for [OF assms(4)] assms(2) False, of paths env] by simp
qed

text \<open>
  C32. Affected selection is exact and fails only on a malformed path. For an admitted
  catalog it returns an error only for a changed or observed path that is not a
  repository-relative path; otherwise the selected targets are exactly the candidates that
  the relevant paths affect: all of them when the repository authority changed or some path
  is claimed by no component, and else those that a path claims or that depend, along
  components that pass their changes on, on a component that a path claims.
\<close>

theorem affected_selection_exact:
  assumes "catalog_ok env catalog" "bt_wf candidates"
  shows "case select_affected_targets env catalog candidates changed observed of
      Inl e \<Rightarrow> (\<exists>p \<in> set (changed @ observed). \<exists>err. e = ChangedPath p err \<and> validate_git_changed_path p = Some err)
    | Inr selected \<Rightarrow> (\<exists>matchers. new_matcher env catalog = Inr matchers \<and>
        set (bt_keys selected) =
          {t \<in> set (bt_keys candidates). affected_by catalog matchers (relevant_paths env catalog matchers changed observed) t})"
proof (cases "affected_paths env catalog changed observed")
  case (Inl e)
  then show ?thesis using affected_paths_spec [OF assms(1), of changed observed] by (simp add: select_affected_targets_def)
next
  case (Inr r)
  obtain matchers paths where r: "r = (matchers, paths)" by (cases r) auto
  from affected_paths_spec [OF assms(1), of changed observed] have m: "new_matcher env catalog = Inr matchers"
    and paths: "set paths = relevant_paths env catalog matchers changed observed" by (simp_all add: Inr r)
  obtain D U T selected where shape: "claims_shape catalog matchers paths D U T"
    and sel: "select_affected_targets env catalog candidates changed observed = Inr selected"
    and get: "\<And>t. bt_get selected t =
       (case bt_get candidates t of None \<Rightarrow> None | Some r \<Rightarrow> shaped_reasons env catalog paths D U T t r)"
    using select_affected_shape [OF catalog_ok_affected [OF assms(1)] assms(2) Inr [unfolded r] m] by blast
  have "t \<in> set (bt_keys selected) \<longleftrightarrow> t \<in> set (bt_keys candidates) \<and> affected_by catalog matchers (set paths) t" for t
    using shaped_reasons_Some_iff [OF shape, of env t] unfolding bt_get_keys [symmetric] get
    by (cases "bt_get candidates t") simp_all
  then have "set (bt_keys selected) = {t \<in> set (bt_keys candidates). affected_by catalog matchers (set paths) t}" by blast
  then show ?thesis using m sel by (simp add: paths)
qed


definition sample_input_action :: "string \<Rightarrow> string \<Rightarrow> ActionSpec" where
  "sample_input_action component input =
     (new_action (component, ''test'') Check (Native ''jig.lint'' None))
       \<lparr>a_effects := [ReadOnly, Process], a_inputs := [input]\<rparr>"

definition sample_affected_env :: repo_env where
  "sample_affected_env = sample_repo_env \<lparr>re_sha256 := (\<lambda>s. [])\<rparr>"

definition sample_affected_result :: "catalog_error + RepositoryCatalog" where
  "sample_affected_result =
     from_native_with_ignore sample_affected_env 8 ''d''
       [(new_component ''lib'' ''lib'') \<lparr>c_propagate_affected_to_dependents := True\<rparr>,
        (new_component ''app'' ''app'') \<lparr>c_depends_on := [''lib'']\<rparr>, new_component ''web'' ''web'']
       [sample_input_action ''lib'' ''lib/x'', sample_input_action ''app'' ''app/y'', sample_input_action ''web'' ''web/z'']
       [new_profile ''verify'' [(''app'', ''test'')]] (Some ''verify'') []"

definition sample_affected_catalog :: RepositoryCatalog where
  "sample_affected_catalog = (case sample_affected_result of Inr catalog \<Rightarrow> catalog | Inl e \<Rightarrow> sample_catalog)"

lemma sample_affected_admitted: "sample_affected_result = Inr sample_affected_catalog"
proof -
  have "\<not> isl sample_affected_result" by code_simp
  then show ?thesis unfolding sample_affected_catalog_def by (rule not_isl_Inr)
qed

definition sample_candidates :: TargetSelection where
  "sample_candidates = map (\<lambda>c. ((c, ''test''), default_reasons)) [''app'', ''lib'', ''web'']"

definition sample_selected :: "affected_error + TargetSelection" where
  "sample_selected = select_affected_targets sample_affected_env sample_affected_catalog sample_candidates [''lib/x''] []"

theorem affected_selection_exact_witness:
  "bt_keys (projr sample_selected) = [(''app'', ''test''), (''lib'', ''test'')] \<and>
   (\<exists>matchers. new_matcher sample_affected_env sample_affected_catalog = Inr matchers \<and>
      {(''app'', ''test''), (''lib'', ''test'')} = {t \<in> set (bt_keys sample_candidates).
         affected_by sample_affected_catalog matchers
           (relevant_paths sample_affected_env sample_affected_catalog matchers [''lib/x''] []) t})"
proof -
  have keys: "bt_keys (projr sample_selected) = [(''app'', ''test''), (''lib'', ''test'')]" by code_simp
  have "\<not> isl sample_selected" by code_simp
  then have sel: "sample_selected = Inr (projr sample_selected)" by (simp add: sum.expand)
  have "catalog_ok sample_affected_env sample_affected_catalog"
    by (rule from_native_catalog_ok [OF sample_affected_admitted [unfolded sample_affected_result_def]])
  moreover have "bt_wf sample_candidates" by (simp add: bt_wf_def sample_candidates_def)
  ultimately have "case sample_selected of
      Inl e \<Rightarrow> (\<exists>p \<in> set ([''lib/x''] @ []). \<exists>err. e = ChangedPath p err \<and> validate_git_changed_path p = Some err)
    | Inr selected \<Rightarrow> (\<exists>matchers. new_matcher sample_affected_env sample_affected_catalog = Inr matchers \<and>
        set (bt_keys selected) = {t \<in> set (bt_keys sample_candidates). affected_by sample_affected_catalog matchers
           (relevant_paths sample_affected_env sample_affected_catalog matchers [''lib/x''] []) t})"
    unfolding sample_selected_def by (rule affected_selection_exact)
  then have "\<exists>matchers. new_matcher sample_affected_env sample_affected_catalog = Inr matchers \<and>
      {(''app'', ''test''), (''lib'', ''test'')} = {t \<in> set (bt_keys sample_candidates).
         affected_by sample_affected_catalog matchers
           (relevant_paths sample_affected_env sample_affected_catalog matchers [''lib/x''] []) t}"
    by (subst (asm) sel) (simp only: sum.case keys list.set)
  with keys show ?thesis by blast
qed

end
