(* ===== verification/Planner.thy ===== *)
theory Planner
  imports Affected
begin

text \<open>
  \<open>crates/jig-repository/src/planner.rs\<close> and \<open>evidence.rs\<close>: resolving a request into a run
  plan, from the selectors or the profile through affected selection, the closure under
  action dependencies, the gate for the planning policy, the binding of arguments and the
  execution layers to the planned targets with their bounded selection reasons; and the
  targets whose evidence a work gate requires. The part of a plan that reads the worktree,
  runs Git and Cargo, or prepares the input of a native runner is not modelled, and a plan
  carries none of it.
\<close>

section \<open>Requests and plans\<close>

datatype ExactTreeProvenanceV1 = ExplicitTree | WorkPlan | PushBefore | UnbornWorktree

datatype StrictInventoryReasonV1 = ExplicitAudit | ExplicitCheck | MissingComparisonFallback

datatype ComparisonRequestV1 =
    MergeBaseRef string
  | ExactTree string ExactTreeProvenanceV1
  | IndexAgainstHead
  | StrictInventory StrictInventoryReasonV1

text \<open>The comparison of a request is for the preparation of native inputs; the planning below never reads it.\<close>

record PlanRunRequest =
  rq_selectors :: "string list"
  rq_profile :: "string option"
  rq_affected_base :: "string option"
  rq_comparison :: "ComparisonRequestV1 option"

datatype PlanningPolicy = ChecksOnly | DeclaredActions

record SourceIdentity =
  si_commit :: "string option"
  si_worktree_fingerprint :: string

record PlannedTarget =
  pt_target :: TargetId
  pt_intent :: ActionIntent
  pt_effects :: "ActionEffect list"
  pt_runner :: ActionRunner
  pt_resources :: "ExecutionResourceV1 list"
  pt_arguments :: ActionArguments
  pt_inputs :: "string list"
  pt_depends_on :: "TargetId list"
  pt_timeout_seconds :: "u64 option"
  pt_result_parser :: ResultParser
  pt_input_digest :: string
  pt_reasons :: "SelectionReason list"
  pt_selection_reason_count :: "u64 option"
  pt_selection_reasons_truncated :: bool
  pt_selection_reasons_digest :: "string option"

record RunPlan =
  rp_schema_version :: nat
  rp_id :: string
  rp_config_digest :: string
  rp_source :: SourceIdentity
  rp_selectors :: "string list"
  rp_profile :: "ProfileId option"
  rp_affected_base :: "string option"
  rp_targets :: "PlannedTarget list"
  rp_execution_layers :: "TargetId list list"
  rp_effects :: "ActionEffect list"

datatype plan_error =
    EmptyBase
  | EmptySelector
  | SelectorsAndProfile
  | NoGitContext string
  | AffectedVersion
  | PathsWithoutBase
  | BadProfile IdentifierError
  | UnknownProfile ProfileId
  | NoDefaultCheckProfile
  | BadSelector selector_error
  | NoMatchingTarget string
  | AffectedError affected_error
  | UndefinedSelected TargetId
  | ClosureError closure_error
  | EffectfulWithoutSelectors
  | UnselectedArguments TargetId
  | BadArguments argument_error
  | MissingSelectedAction TargetId
  | LayerCycle "TargetId list"
  | OverlappingReasons u64 nat

section \<open>Normalising the request\<close>

definition normalize_affected_base :: "string option \<Rightarrow> plan_error + string option" where
  "normalize_affected_base base =
     (case base of
        None \<Rightarrow> Inr None
      | Some value \<Rightarrow> if trim value = [] then Inl EmptyBase else Inr (Some (trim value)))"

definition normalize_selectors :: "string list \<Rightarrow> plan_error + string list" where
  "normalize_selectors selectors =
     (if list_ex (\<lambda>s. trim s = []) selectors then Inl EmptySelector
      else Inr (remdups_adj (sort (map trim selectors))))"

section \<open>Selection\<close>

text \<open>\<open>selected.entry(target).or_default().insert(reason)\<close>.\<close>

definition add_reason :: "TargetId \<Rightarrow> SelectionReason \<Rightarrow> TargetSelection \<Rightarrow> TargetSelection" where
  "add_reason target reason selected =
     bt_update target (\<lambda>v. reasons_insert reason (case v of None \<Rightarrow> default_reasons | Some r \<Rightarrow> r)) selected"

definition select_legacy_alias :: "TargetSelection \<Rightarrow> string \<Rightarrow> TargetId \<Rightarrow> TargetSelection" where
  "select_legacy_alias selected alias target = add_reason target (LegacyAlias alias) selected"

definition select_explicit :: "RepositoryCatalog \<Rightarrow> string \<Rightarrow> TargetSelection \<Rightarrow> plan_error + TargetSelection" where
  "select_explicit catalog selector selected =
     (let legacy_alias = target_for_alias catalog selector in
      case parse_selector selector of
        Inl e \<Rightarrow>
          (case legacy_alias of
             Some target \<Rightarrow> Inr (select_legacy_alias selected selector target)
           | None \<Rightarrow> Inl (BadSelector e))
      | Inr canonical \<Rightarrow>
          (let matches = map a_target (filter (\<lambda>spec. selector_matches canonical (a_target spec)) (catalog_actions catalog)) in
           if matches = [] then
             (case legacy_alias of
                Some target \<Rightarrow> Inr (select_legacy_alias selected selector target)
              | None \<Rightarrow> Inl (NoMatchingTarget selector))
           else Inr (fold (\<lambda>target. add_reason target (Explicit selector)) matches selected)))"

fun select_all :: "RepositoryCatalog \<Rightarrow> string list \<Rightarrow> TargetSelection \<Rightarrow> plan_error + TargetSelection" where
  "select_all catalog [] selected = Inr selected"
| "select_all catalog (selector # rest) selected =
     (case select_explicit catalog selector selected of
        Inl e \<Rightarrow> Inl e
      | Inr selected' \<Rightarrow> select_all catalog rest selected')"

definition selected_profile :: "RepositoryCatalog \<Rightarrow> PlanRunRequest \<Rightarrow> plan_error + ProfileId option" where
  "selected_profile catalog request =
     (case rq_profile request of
        Some profile \<Rightarrow>
          (case parse_identifier ProfileKind profile of Inl e \<Rightarrow> Inl (BadProfile e) | Inr ident \<Rightarrow> Inr (Some ident))
      | None \<Rightarrow> Inr (if rq_selectors request = [] then rc_default_check_profile catalog else None))"

definition select_profile ::
    "RepositoryCatalog \<Rightarrow> PlanRunRequest \<Rightarrow> ProfileId option \<Rightarrow> plan_error + TargetSelection" where
  "select_profile catalog request profile =
     (case profile of
        Some profile_id \<Rightarrow>
          (case catalog_profile catalog profile_id of
             None \<Rightarrow> Inl (UnknownProfile profile_id)
           | Some spec \<Rightarrow> Inr (fold (\<lambda>target. add_reason target (ProfileReason profile_id)) (pr_targets spec) bt_empty))
      | None \<Rightarrow> if rq_selectors request = [] then Inl NoDefaultCheckProfile else Inr bt_empty)"

section \<open>The closure under action dependencies\<close>

definition add_dependency :: "TargetId \<Rightarrow> TargetId \<Rightarrow> TargetSelection \<Rightarrow> TargetSelection" where
  "add_dependency target dependency selected = add_reason dependency (ActionDependency target) selected"

interpretation selection_keys: worklist "\<lambda>s. set (bt_keys s)" add_dependency
  by unfold_locales
    (auto simp: add_dependency_def add_reason_def bt_update_def bt_keys_def set_bt_insert_keys)

definition dependency_universe :: "RepositoryCatalog \<Rightarrow> TargetId set" where
  "dependency_universe catalog = (\<Union>a \<in> ran (catalog_action catalog). set (a_depends_on a))"

lemma finite_catalog_action: "finite (dom (catalog_action catalog))"
  by (simp add: catalog_action_def [abs_def] bt_get_def [abs_def] finite_dom_map_of)

lemma finite_dependency_universe: "finite (dependency_universe catalog)"
  by (simp add: dependency_universe_def finite_ran finite_catalog_action)

text \<open>The stack is the list \<open>pending\<close> with its top first; the error is the undefined target.\<close>

function expand_loop :: "RepositoryCatalog \<Rightarrow> TargetId list \<Rightarrow> TargetSelection \<Rightarrow> TargetId + TargetSelection" where
  "expand_loop catalog [] selected = Inr selected"
| "expand_loop catalog (target # rest) selected =
     (case catalog_action catalog target of
        None \<Rightarrow> Inl target
      | Some action \<Rightarrow>
          (case fold (\<lambda>d (s, ps). (add_dependency target d s, if d \<in> set (bt_keys s) then ps else d # ps))
                  (a_depends_on action) (selected, rest) of
             (selected', pending') \<Rightarrow> expand_loop catalog pending' selected'))"
  by pat_completeness auto

termination expand_loop
proof (relation "measures [\<lambda>(catalog, pending, selected). card (dependency_universe catalog - set (bt_keys selected)),
    \<lambda>(catalog, pending, selected). length pending]", goal_cases)
  case (2 catalog target rest selected action selected' pending')
  have "set (a_depends_on action) \<subseteq> dependency_universe catalog"
    using 2(1) by (auto simp: dependency_universe_def intro: ranI)
  then show ?case
    using selection_keys.push_decreases [OF finite_dependency_universe, of "a_depends_on action" catalog target selected
        rest selected' pending'] 2(2) by auto
qed simp

declare expand_loop.simps(2) [simp del]

definition expand_action_dependencies :: "RepositoryCatalog \<Rightarrow> TargetSelection \<Rightarrow> plan_error + TargetSelection" where
  "expand_action_dependencies catalog selected =
     (case expand_loop catalog (rev (bt_keys selected)) selected of
        Inl target \<Rightarrow> Inl (UndefinedSelected target)
      | Inr expanded \<Rightarrow> Inr expanded)"

section \<open>Gates, arguments and layers\<close>

definition validate_check_actions :: "RepositoryCatalog \<Rightarrow> TargetId list \<Rightarrow> closure_error option" where
  "validate_check_actions catalog targets = validate_read_only_check_closure (catalog_actions catalog) targets"

definition effectful :: "ActionSpec \<Rightarrow> bool" where
  "effectful action \<longleftrightarrow>
     a_intent action \<noteq> Check \<or> Worktree \<in> set (a_effects action) \<or> External \<in> set (a_effects action)"

text \<open>The scan stops at the first effectful action; a target without an action before it is a panic.\<close>

fun any_effectful :: "RepositoryCatalog \<Rightarrow> TargetId list \<Rightarrow> plan_error + bool" where
  "any_effectful catalog [] = Inr False"
| "any_effectful catalog (target # rest) =
     (case catalog_action catalog target of
        None \<Rightarrow> Inl (MissingSelectedAction target)
      | Some action \<Rightarrow> if effectful action then Inr True else any_effectful catalog rest)"

definition validate_declared_action_selection ::
    "RepositoryCatalog \<Rightarrow> PlanRunRequest \<Rightarrow> TargetId list \<Rightarrow> plan_error option" where
  "validate_declared_action_selection catalog request targets =
     (case any_effectful catalog targets of
        Inl e \<Rightarrow> Some e
      | Inr has_effectful_action \<Rightarrow>
          if has_effectful_action \<and> rq_selectors request = [] then Some EffectfulWithoutSelectors else None)"

definition validate_policy ::
    "RepositoryCatalog \<Rightarrow> PlanningPolicy \<Rightarrow> PlanRunRequest \<Rightarrow> TargetId list \<Rightarrow> plan_error option" where
  "validate_policy catalog policy request targets =
     (case policy of
        ChecksOnly \<Rightarrow> map_option ClosureError (validate_check_actions catalog targets)
      | DeclaredActions \<Rightarrow> validate_declared_action_selection catalog request targets)"

type_synonym argument_map = "(TargetId, ActionArguments) btree_map"

fun bind_targets :: "repo_env \<Rightarrow> RepositoryCatalog \<Rightarrow> TargetId list \<Rightarrow> argument_map \<Rightarrow> plan_error + argument_map" where
  "bind_targets env catalog [] arguments = Inr arguments"
| "bind_targets env catalog (target # rest) arguments =
     (case catalog_action catalog target of
        None \<Rightarrow> Inl (MissingSelectedAction target)
      | Some action \<Rightarrow>
          (let supplied = (case bt_get arguments target of None \<Rightarrow> bt_empty | Some s \<Rightarrow> s) in
           case bind env (rc_contract_version catalog) action supplied of
             Inl e \<Rightarrow> Inl (BadArguments e)
           | Inr normalized \<Rightarrow> bind_targets env catalog rest (bt_insert target normalized arguments)))"

definition bind_action_arguments ::
    "repo_env \<Rightarrow> RepositoryCatalog \<Rightarrow> TargetId list \<Rightarrow> argument_map \<Rightarrow> plan_error + argument_map" where
  "bind_action_arguments env catalog targets arguments =
     (let targets' = bs_collect targets in
      case find (\<lambda>target. target \<notin> set targets') (bt_keys arguments) of
        Some target \<Rightarrow> Inl (UnselectedArguments target)
      | None \<Rightarrow>
          (case bind_targets env catalog targets' arguments of
             Inl e \<Rightarrow> Inl e
           | Inr bound \<Rightarrow> Inr (filter (\<lambda>(target, value). value \<noteq> []) bound)))"

text \<open>Every round looks up all the remaining targets, so a target without an action is a panic in the first.\<close>

definition execution_layers :: "RepositoryCatalog \<Rightarrow> TargetId list \<Rightarrow> plan_error + TargetId list list" where
  "execution_layers catalog targets =
     (let targets' = bs_collect targets in
      case find (\<lambda>target. catalog_action catalog target = None) targets' of
        Some target \<Rightarrow> Inl (MissingSelectedAction target)
      | None \<Rightarrow>
          (case layer_loop
                  (\<lambda>target. filter (\<lambda>d. d \<in> set targets') (deps_of a_depends_on (rc_actions catalog) target)) targets' [] of
             Inl remaining \<Rightarrow> Inl (LayerCycle remaining)
           | Inr layers \<Rightarrow> Inr layers))"

definition target_input_digest :: "repo_env \<Rightarrow> RepositoryCatalog \<Rightarrow> TargetId \<Rightarrow> string \<Rightarrow> plan_error + string" where
  "target_input_digest env catalog target worktree_fingerprint =
     (case catalog_action catalog target of
        None \<Rightarrow> Inl (UndefinedSelected target)
      | Some action \<Rightarrow>
          Inr (conservative_action_input_digest env (rc_contract_version catalog) action worktree_fingerprint))"

section \<open>Bounded selection reasons\<close>

definition SELECTION_REASONS_DIGEST_DOMAIN :: string where
  "SELECTION_REASONS_DIGEST_DOMAIN = ''jig-selection-reasons-v2'' @ [CHR 0x00]"

record BoundedSelectionReasons =
  br_preview :: "SelectionReason list"
  br_total :: "u64 option"
  br_truncated :: bool
  br_digest :: "string option"

primrec selection_reason_priority :: "SelectionReason \<Rightarrow> nat" where
  "selection_reason_priority (Explicit s) = 0"
| "selection_reason_priority (ProfileReason p) = 0"
| "selection_reason_priority (ActionDependency t) = 0"
| "selection_reason_priority (LegacyAlias a) = 0"
| "selection_reason_priority (DirectInput p) = 1"
| "selection_reason_priority (UnclaimedInput p) = 1"
| "selection_reason_priority (ComponentDependency c p) = 1"

definition merge_batch ::
    "SelectionReasonBatch \<Rightarrow> u64 \<times> string \<times> SelectionReason btree_set \<Rightarrow> u64 \<times> string \<times> SelectionReason btree_set" where
  "merge_batch batch acc =
     (case acc of (reason_total, sum_digest, preview) \<Rightarrow>
        (u64_sat_add reason_total (sb_count batch), add_selection_reason_digest sum_digest (sb_sum_digest batch),
         bs_extend (sb_preview batch) preview))"

text \<open>The preview of a truncated list, by class of reason and then by the order of reasons.\<close>

definition reason_order :: "SelectionReason \<Rightarrow> nat \<times> SelectionReason" where
  "reason_order reason = (selection_reason_priority reason, reason)"

text \<open>\<open>len()\<close>, as a count that stays at the largest \<open>usize\<close>; no collection in memory is as long.\<close>

definition usize_len :: "'a list \<Rightarrow> u64" where
  "usize_len xs = fold (\<lambda>x n. u64_sat_add n 1) xs 0"

definition bounded_selection_reasons :: "repo_env \<Rightarrow> TargetSelectionReasons \<Rightarrow> plan_error + BoundedSelectionReasons" where
  "bounded_selection_reasons env reasons =
     (let explicit_digest = fold (\<lambda>reason sum_digest.
            add_selection_reason_digest sum_digest (selection_reason_item_digest env reason)) (tr_explicit reasons) zero_digest;
          (reason_total, sum_digest, preview) = fold merge_batch (tr_batches reasons)
            (usize_len (tr_explicit reasons), explicit_digest, bs_collect (tr_explicit reasons)) in
      if reason_total \<le> of_nat MAX_SELECTION_REASONS then
        (if usize_len preview \<noteq> reason_total then Inl (OverlappingReasons reason_total (length preview))
         else Inr \<lparr>br_preview = preview, br_total = None, br_truncated = False, br_digest = None\<rparr>)
      else
        (let digest = ''sha256:'' @ hex (re_sha256 env
               (SELECTION_REASONS_DIGEST_DOMAIN @ be_bytes64 (unat reason_total) @ sum_digest)) in
         Inr \<lparr>br_preview = take MAX_SELECTION_REASONS (sort_key reason_order preview), br_total = Some reason_total,
              br_truncated = True, br_digest = Some digest\<rparr>))"

section \<open>The plan\<close>

definition planned_target ::
    "repo_env \<Rightarrow> RepositoryCatalog \<Rightarrow> SourceIdentity \<Rightarrow> argument_map \<Rightarrow> TargetId \<Rightarrow> ActionSpec \<Rightarrow>
     BoundedSelectionReasons \<Rightarrow> PlannedTarget" where
  "planned_target env catalog source arguments target action bounded =
     \<lparr>pt_target = target, pt_intent = a_intent action, pt_effects = a_effects action, pt_runner = a_runner action,
      pt_resources = a_resources action,
      pt_arguments = (case bt_get arguments target of None \<Rightarrow> bt_empty | Some args \<Rightarrow> args),
      pt_inputs = a_inputs action, pt_depends_on = a_depends_on action,
      pt_timeout_seconds = a_timeout_seconds action, pt_result_parser = a_result_parser action,
      pt_input_digest = conservative_action_input_digest env (rc_contract_version catalog) action
        (si_worktree_fingerprint source),
      pt_reasons = br_preview bounded, pt_selection_reason_count = br_total bounded,
      pt_selection_reasons_truncated = br_truncated bounded, pt_selection_reasons_digest = br_digest bounded\<rparr>"

fun plan_targets ::
    "repo_env \<Rightarrow> RepositoryCatalog \<Rightarrow> SourceIdentity \<Rightarrow> argument_map \<Rightarrow> TargetSelection \<Rightarrow>
     ActionEffect btree_set \<times> PlannedTarget list \<Rightarrow> plan_error + ActionEffect btree_set \<times> PlannedTarget list" where
  "plan_targets env catalog source arguments [] acc = Inr acc"
| "plan_targets env catalog source arguments ((target, reasons) # rest) (effects, targets) =
     (case catalog_action catalog target of
        None \<Rightarrow> Inl (MissingSelectedAction target)
      | Some action \<Rightarrow>
          (case bounded_selection_reasons env reasons of
             Inl e \<Rightarrow> Inl e
           | Inr bounded \<Rightarrow>
               plan_targets env catalog source arguments rest
                 (bs_extend (a_effects action) effects,
                  targets @ [planned_target env catalog source arguments target action bounded])))"

text \<open>\<open>plan_digest\<close>: the digest of the JSON text of every field but the identifier.\<close>

definition plan_digest :: "repo_env \<Rightarrow> (RunPlan \<Rightarrow> string) \<Rightarrow> RunPlan \<Rightarrow> string" where
  "plan_digest env to_json plan = ''run-plan_sha256:'' @ hex (re_sha256 env (to_json (plan \<lparr>rp_id := []\<rparr>)))"

definition check_affected_request :: "RepositoryCatalog \<Rightarrow> string option \<Rightarrow> string list option \<Rightarrow> plan_error option" where
  "check_affected_request catalog affected_base changed_paths =
     (case (affected_base, changed_paths) of
        (Some base, None) \<Rightarrow> Some (NoGitContext base)
      | (Some base, Some paths) \<Rightarrow> if rc_contract_version catalog < 6 then Some AffectedVersion else None
      | (None, Some paths) \<Rightarrow> Some PathsWithoutBase
      | (None, None) \<Rightarrow> None)"

text \<open>The request after normalisation, and the selection before the closure.\<close>

definition normalize_request :: "PlanRunRequest \<Rightarrow> plan_error + PlanRunRequest" where
  "normalize_request request =
     (case normalize_affected_base (rq_affected_base request) of
        Inl e \<Rightarrow> Inl e
      | Inr base \<Rightarrow>
          (case normalize_selectors (rq_selectors request) of
             Inl e \<Rightarrow> Inl e
           | Inr selectors \<Rightarrow>
               if rq_profile request \<noteq> None \<and> selectors \<noteq> [] then Inl SelectorsAndProfile
               else Inr (request \<lparr>rq_affected_base := base, rq_selectors := selectors\<rparr>)))"

definition select_targets ::
    "repo_env \<Rightarrow> RepositoryCatalog \<Rightarrow> PlanRunRequest \<Rightarrow> ProfileId option \<Rightarrow> string list option \<Rightarrow> string list \<Rightarrow>
     plan_error + TargetSelection" where
  "select_targets env catalog request profile changed_paths observed_input_paths =
     (case select_profile catalog request profile of
        Inl e \<Rightarrow> Inl e
      | Inr selected \<Rightarrow>
          (case select_all catalog (rq_selectors request) selected of
             Inl e \<Rightarrow> Inl e
           | Inr selected' \<Rightarrow>
               (case changed_paths of
                  None \<Rightarrow> Inr selected'
                | Some paths \<Rightarrow>
                    (case select_affected_targets env catalog selected' paths observed_input_paths of
                       Inl e \<Rightarrow> Inl (AffectedError e)
                     | Inr affected \<Rightarrow> Inr affected))))"

definition assemble_plan ::
    "repo_env \<Rightarrow> (RunPlan \<Rightarrow> string) \<Rightarrow> RepositoryCatalog \<Rightarrow> PlanRunRequest \<Rightarrow> SourceIdentity \<Rightarrow> ProfileId option \<Rightarrow>
     argument_map \<Rightarrow> TargetId list list \<Rightarrow> TargetSelection \<Rightarrow> plan_error + RunPlan" where
  "assemble_plan env to_json catalog request source profile arguments layers selected =
     (case plan_targets env catalog source arguments selected ([], []) of
        Inl e \<Rightarrow> Inl e
      | Inr (effects, targets) \<Rightarrow>
          (let plan = \<lparr>rp_schema_version = 4, rp_id = [], rp_config_digest = rc_config_digest catalog, rp_source = source,
                       rp_selectors = rq_selectors request, rp_profile = profile,
                       rp_affected_base = rq_affected_base request, rp_targets = targets,
                       rp_execution_layers = layers, rp_effects = effects\<rparr> in
           Inr (plan \<lparr>rp_id := plan_digest env to_json plan\<rparr>)))"

definition plan_selection ::
    "repo_env \<Rightarrow> (RunPlan \<Rightarrow> string) \<Rightarrow> RepositoryCatalog \<Rightarrow> PlanRunRequest \<Rightarrow> SourceIdentity \<Rightarrow> ProfileId option \<Rightarrow>
     argument_map \<Rightarrow> PlanningPolicy \<Rightarrow> TargetSelection \<Rightarrow> plan_error + RunPlan" where
  "plan_selection env to_json catalog request source profile arguments policy selected =
     (case expand_action_dependencies catalog selected of
        Inl e \<Rightarrow> Inl e
      | Inr expanded \<Rightarrow>
          (case validate_policy catalog policy request (bt_keys expanded) of
             Some e \<Rightarrow> Inl e
           | None \<Rightarrow>
               (case bind_action_arguments env catalog (bt_keys expanded) arguments of
                  Inl e \<Rightarrow> Inl e
                | Inr bound \<Rightarrow>
                    (case execution_layers catalog (bt_keys expanded) of
                       Inl e \<Rightarrow> Inl e
                     | Inr layers \<Rightarrow>
                         assemble_plan env to_json catalog request source profile bound layers expanded))))"

definition plan_run_with_source_and_paths ::
    "repo_env \<Rightarrow> (RunPlan \<Rightarrow> string) \<Rightarrow> RepositoryCatalog \<Rightarrow> PlanRunRequest \<Rightarrow> SourceIdentity \<Rightarrow> string list option \<Rightarrow>
     string list \<Rightarrow> argument_map \<Rightarrow> PlanningPolicy \<Rightarrow> plan_error + RunPlan" where
  "plan_run_with_source_and_paths env to_json catalog request0 source changed_paths observed_input_paths arguments policy =
     (case normalize_request request0 of
        Inl e \<Rightarrow> Inl e
      | Inr request \<Rightarrow>
          (case check_affected_request catalog (rq_affected_base request) changed_paths of
             Some e \<Rightarrow> Inl e
           | None \<Rightarrow>
               (case selected_profile catalog request of
                  Inl e \<Rightarrow> Inl e
                | Inr profile \<Rightarrow>
                    (case select_targets env catalog request profile changed_paths observed_input_paths of
                       Inl e \<Rightarrow> Inl e
                     | Inr selected \<Rightarrow>
                         plan_selection env to_json catalog request source profile arguments policy selected))))"

section \<open>Evidence of work gates\<close>

datatype WorkEvidenceSelector = EvidenceTarget TargetId | EvidenceProfile ProfileId

datatype evidence_error =
    UnknownEvidenceTarget TargetId
  | UnknownEvidenceProfile ProfileId
  | EmptyEvidenceProfile ProfileId
  | UndefinedEvidence TargetId
  | EvidenceClosure closure_error

definition add_evidence :: "TargetId \<Rightarrow> TargetId \<Rightarrow> TargetId btree_set \<Rightarrow> TargetId btree_set" where
  "add_evidence target dependency targets = bs_insert dependency targets"

interpretation evidence_set: worklist set add_evidence
  by unfold_locales (simp add: add_evidence_def)

function evidence_loop :: "RepositoryCatalog \<Rightarrow> TargetId list \<Rightarrow> TargetId btree_set \<Rightarrow> TargetId + TargetId btree_set" where
  "evidence_loop catalog [] targets = Inr targets"
| "evidence_loop catalog (target # rest) targets =
     (case catalog_action catalog target of
        None \<Rightarrow> Inl target
      | Some action \<Rightarrow>
          (case fold (\<lambda>d (s, ps). (add_evidence target d s, if d \<in> set s then ps else d # ps))
                  (a_depends_on action) (targets, rest) of
             (targets', pending') \<Rightarrow> evidence_loop catalog pending' targets'))"
  by pat_completeness auto

termination evidence_loop
proof (relation "measures [\<lambda>(catalog, pending, targets). card (dependency_universe catalog - set targets),
    \<lambda>(catalog, pending, targets). length pending]", goal_cases)
  case (2 catalog target rest targets action targets' pending')
  have "set (a_depends_on action) \<subseteq> dependency_universe catalog"
    using 2(1) by (auto simp: dependency_universe_def intro: ranI)
  then show ?case
    using evidence_set.push_decreases [OF finite_dependency_universe, of "a_depends_on action" catalog target targets
        rest targets' pending'] 2(2) by auto
qed simp

declare evidence_loop.simps(2) [simp del]

definition evidence_roots :: "RepositoryCatalog \<Rightarrow> WorkEvidenceSelector \<Rightarrow> evidence_error + TargetId btree_set" where
  "evidence_roots catalog selector =
     (case selector of
        EvidenceTarget target \<Rightarrow>
          if catalog_action catalog target = None then Inl (UnknownEvidenceTarget target) else Inr [target]
      | EvidenceProfile profile \<Rightarrow>
          (case catalog_profile catalog profile of
             None \<Rightarrow> Inl (UnknownEvidenceProfile profile)
           | Some spec \<Rightarrow>
               if pr_targets spec = [] then Inl (EmptyEvidenceProfile (pr_id spec)) else Inr (bs_collect (pr_targets spec))))"

definition resolve_evidence_targets :: "RepositoryCatalog \<Rightarrow> WorkEvidenceSelector \<Rightarrow> evidence_error + TargetId btree_set" where
  "resolve_evidence_targets catalog selector =
     (case evidence_roots catalog selector of
        Inl e \<Rightarrow> Inl e
      | Inr required \<Rightarrow>
          (case evidence_loop catalog (rev required) required of
             Inl target \<Rightarrow> Inl (UndefinedEvidence target)
           | Inr targets \<Rightarrow>
               (case validate_check_actions catalog targets of
                  Some e \<Rightarrow> Inl (EvidenceClosure e)
                | None \<Rightarrow>
                    Inr (if TARGET_FRESHNESS_CONTRACT_VERSION \<le> rc_contract_version catalog then required else targets))))"


section \<open>Lemmas\<close>

subsection \<open>The closure under action dependencies\<close>

interpretation expansion: worklist_loop "\<lambda>s. set (bt_keys s)" add_dependency "catalog_action catalog" a_depends_on
  "expand_loop catalog" for catalog
  by unfold_locales (auto simp: finite_catalog_action expand_loop.simps)

interpretation evidence: worklist_loop set add_evidence "catalog_action catalog" a_depends_on "evidence_loop catalog"
  for catalog
  by unfold_locales (auto simp: finite_catalog_action evidence_loop.simps)

lemma catalog_dom: "dom (catalog_action catalog) = set (bt_keys (rc_actions catalog))"
  by (auto simp: catalog_action_def bt_keys_dom)

lemma expansion_depends: "expansion.depends catalog = action_edges (rc_actions catalog)"
  by (simp add: expansion.depends_def action_edges_def catalog_action_def)

lemma evidence_depends: "evidence.depends catalog = action_edges (rc_actions catalog)"
  by (simp add: evidence.depends_def action_edges_def catalog_action_def)

lemma expand_spec:
  "case expand_action_dependencies catalog selected of
     Inr expanded \<Rightarrow> set (bt_keys expanded) = reachable (rc_actions catalog) (bt_keys selected) \<and>
       set (bt_keys expanded) \<subseteq> set (bt_keys (rc_actions catalog))
   | Inl e \<Rightarrow> (\<exists>t. e = UndefinedSelected t \<and> t \<in> reachable (rc_actions catalog) (bt_keys selected) \<and>
       t \<notin> set (bt_keys (rc_actions catalog)))"
proof -
  have "set (rev (bt_keys selected)) = set (bt_keys selected)" by simp
  from expansion.loop_from_keys [OF this, of catalog] show ?thesis
    unfolding expansion_depends catalog_dom reachable_def expand_action_dependencies_def
    by (cases "expand_loop catalog (rev (bt_keys selected)) selected") (simp, force)
qed

text \<open>
  C33. The closure under action dependencies terminates and computes reachability: the
  targets of the expanded selection are exactly those that the selection reaches through
  the dependencies of the catalog, and it fails only with a reachable target that the
  catalog does not define.
\<close>

theorem expansion_is_reachability:
  "case expand_action_dependencies catalog selected of
     Inr expanded \<Rightarrow> set (bt_keys expanded) = reachable (rc_actions catalog) (bt_keys selected) \<and>
       set (bt_keys expanded) \<subseteq> set (bt_keys (rc_actions catalog))
   | Inl e \<Rightarrow> (\<exists>t. e = UndefinedSelected t \<and> t \<in> reachable (rc_actions catalog) (bt_keys selected) \<and>
       t \<notin> set (bt_keys (rc_actions catalog)))"
  by (rule expand_spec)

subsection \<open>Execution layers\<close>

lemma reachable_closed:
  assumes "t \<in> reachable actions targets"
  shows "set (deps_of a_depends_on actions t) \<subseteq> reachable actions targets"
proof
  fix d assume "d \<in> set (deps_of a_depends_on actions t)"
  then have "(t, d) \<in> action_edges actions" 
    by (cases "bt_get actions t") (auto simp: deps_of_def action_edges_def)
  then show "d \<in> reachable actions targets"
    using assms unfolding reachable_def by (meson Image_iff rtrancl.rtrancl_into_rtrancl)
qed

lemma action_edges_closed:
  assumes "catalog_ok env catalog" "set targets \<subseteq> set (bt_keys (rc_actions catalog))"
  shows "reachable (rc_actions catalog) targets \<subseteq> set (bt_keys (rc_actions catalog))"
proof -
  have wf: "bt_wf (rc_actions catalog)" and declared: "dependencies_declared a_depends_on (rc_actions catalog)"
    using assms(1) by (simp_all add: catalog_ok_def collected_def dependency_verdict_def)
  have edge: "d \<in> set (bt_keys (rc_actions catalog))" if "(t, d) \<in> action_edges (rc_actions catalog)" for t d
  proof -
    from that obtain a where a: "bt_get (rc_actions catalog) t = Some a" "d \<in> set (a_depends_on a)"
      by (auto simp: action_edges_def)
    then have "(t, a) \<in> set (rc_actions catalog)" by (auto simp: bt_get_def dest: map_of_SomeD)
    then show ?thesis using declared a(2) by (auto simp: dependencies_declared_def list_all_iff)
  qed
  have "d \<in> set (bt_keys (rc_actions catalog))"
    if "(t, d) \<in> (action_edges (rc_actions catalog))\<^sup>*" "t \<in> set (bt_keys (rc_actions catalog))" for t d
    using that(1) by (cases rule: rtranclE) (use that(2) edge in auto)
  then show ?thesis using assms(2) unfolding reachable_def by blast
qed

abbreviation inner_deps :: "RepositoryCatalog \<Rightarrow> TargetId set \<Rightarrow> TargetId \<Rightarrow> TargetId list" where
  "inner_deps catalog S t \<equiv> filter (\<lambda>d. d \<in> S) (deps_of a_depends_on (rc_actions catalog) t)"

lemma execution_layers_ok:
  assumes "catalog_ok env catalog" "set targets \<subseteq> set (bt_keys (rc_actions catalog))"
  shows "\<exists>layers. execution_layers catalog targets = Inr layers \<and> set (concat layers) = set targets \<and>
    distinct (concat layers) \<and> scheduled (inner_deps catalog (set targets)) {} layers"
proof -
  let ?t = "bs_collect targets" and ?deps = "inner_deps catalog (set targets)"
  have set: "set ?t = set targets" and dist: "distinct ?t"
    using sorted_bs_collect [of targets] by (auto simp: strict_sorted_iff)
  have defined: "find (\<lambda>t. catalog_action catalog t = None) ?t = None"
    using assms(2) by (auto simp: find_None_iff set catalog_action_def bt_keys_dom)
  have "acyclic (edges (deps_of a_depends_on (rc_actions catalog)) (set (bt_keys (rc_actions catalog))))"
    using assms(1) by (simp add: catalog_ok_def dependency_verdict_def)
  moreover have "edges ?deps (set ?t) \<subseteq> edges (deps_of a_depends_on (rc_actions catalog)) (set (bt_keys (rc_actions catalog)))"
    using assms(2) by (auto simp: edges_def set)
  ultimately have "acyclic (edges ?deps (set ?t))" by (rule acyclic_subset)
  moreover have "closed_under ?deps (set ?t)" by (auto simp: closed_under_def set)
  ultimately obtain layers where layers: "layer_loop ?deps ?t [] = Inr layers"
    using layer_loop_acyclic_iff [OF dist] by blast
  from layer_loop_Inr [OF this] dist
  have "set (concat layers) = set targets \<and> distinct (concat layers) \<and> scheduled ?deps {} layers" by (simp add: set)
  moreover have "execution_layers catalog targets = Inr layers"
    using layers defined by (simp add: execution_layers_def set Let_def)
  ultimately show ?thesis by blast
qed

text \<open>
  C34. Scheduling never gets stuck. For an admitted catalog and targets that it defines, the
  execution layers exist; every target is in exactly one layer, no layer is empty, and the
  dependencies of a target among the targets are all in earlier layers.
\<close>

theorem execution_layers_live:
  assumes "catalog_ok env catalog" "set targets \<subseteq> set (bt_keys (rc_actions catalog))"
  shows "\<exists>layers. execution_layers catalog targets = Inr layers \<and> set (concat layers) = set targets \<and>
    distinct (concat layers) \<and> scheduled (inner_deps catalog (set targets)) {} layers"
  by (rule execution_layers_ok [OF assms])

theorem execution_layers_live_witness:
  "execution_layers sample_catalog [(''api'', ''test''), (''api'', ''build'')] =
     Inr [[(''api'', ''build'')], [(''api'', ''test'')]] \<and>
   scheduled (inner_deps sample_catalog (set [(''api'', ''test''), (''api'', ''build'')])) {}
     [[(''api'', ''build'')], [(''api'', ''test'')]]"
proof -
  have layers: "execution_layers sample_catalog [(''api'', ''test''), (''api'', ''build'')] =
     Inr [[(''api'', ''build'')], [(''api'', ''test'')]]" by code_simp
  have "catalog_ok sample_repo_env sample_catalog"
    by (rule from_native_catalog_ok [OF sample_catalog_admitted [unfolded sample_catalog_result_def]])
  moreover have "bt_keys (rc_actions sample_catalog) = [(''api'', ''build''), (''api'', ''test'')]" by code_simp
  ultimately have "\<exists>layers. execution_layers sample_catalog [(''api'', ''test''), (''api'', ''build'')] = Inr layers \<and>
      set (concat layers) = set [(''api'', ''test''), (''api'', ''build'')] \<and> distinct (concat layers) \<and>
      scheduled (inner_deps sample_catalog (set [(''api'', ''test''), (''api'', ''build'')])) {} layers"
    by (intro execution_layers_live) simp_all
  then show ?thesis unfolding layers by (elim exE conjE) (simp only: sum.inject simp_thms)
qed


subsection \<open>Bounded selection reasons\<close>

text \<open>The smallest elements survive when every element left out has enough smaller ones left.\<close>

lemma take_filter_smallest:
  assumes sorted: "sorted_wrt (\<lambda>x y. f x < (f y :: 'b::linorder)) xs"
    and enough: "\<And>x. x \<in> set xs \<Longrightarrow> x \<notin> P \<Longrightarrow> \<exists>Y. Y \<subseteq> P \<inter> set xs \<and> (\<forall>y \<in> Y. f y < f x) \<and> n \<le> card Y"
  shows "take n (filter (\<lambda>x. x \<in> P) xs) = take n xs"
proof -
  have "x \<in> P" if "x \<in> set (take n xs)" for x
  proof (rule ccontr)
    assume "x \<notin> P"
    from that obtain i where "i < length (take n xs)" "take n xs ! i = x" unfolding in_set_conv_nth by blast
    then have i: "i < n" "i < length xs" "xs ! i = x" by auto
    then have "x \<in> set xs" by auto
    from enough [OF this \<open>x \<notin> P\<close>] obtain Y where Y: "Y \<subseteq> set xs" "\<forall>y \<in> Y. f y < f x" "n \<le> card Y" by auto
    have "Y \<subseteq> set (take i xs)"
    proof
      fix y assume y: "y \<in> Y"
      then obtain j where j: "j < length xs" "xs ! j = y" using Y(1) by (metis in_set_conv_nth subsetD)
      have "j < i"
      proof (rule ccontr)
        assume "\<not> j < i"
        then have "j = i \<or> i < j" by auto
        then have "f x \<le> f y" using sorted_wrt_nth_less [OF sorted, of i j] i j by auto
        then show False using Y(2) y by auto
      qed
      then show "y \<in> set (take i xs)" using j i by (auto simp: in_set_conv_nth)
    qed
    then have "card Y \<le> i" using card_mono [of "set (take i xs)" Y] card_length [of "take i xs"] i(2) by simp
    then show False using Y(3) i(1) by simp
  qed
  then have "filter (\<lambda>x. x \<in> P) (take n xs) = take n xs" by (simp add: filter_id_conv)
  then have split: "filter (\<lambda>x. x \<in> P) xs = take n xs @ filter (\<lambda>x. x \<in> P) (drop n xs)"
    using append_take_drop_id [of n xs] by (metis filter_append)
  show ?thesis
  proof (cases "n \<le> length xs")
    case True
    then show ?thesis unfolding split by simp
  next
    case False
    then show ?thesis using split by simp
  qed
qed

lemma reason_order_inj: "inj_on reason_order S"
  by (simp add: inj_on_def reason_order_def)

lemma sort_reasons_strict:
  assumes "distinct xs"
  shows "sorted_wrt (\<lambda>x y. reason_order x < reason_order y) (sort_key reason_order xs)"
proof -
  have "sorted (map reason_order (sort_key reason_order xs))" by simp
  moreover have "distinct (map reason_order (sort_key reason_order xs))"
    using assms by (simp add: distinct_map reason_order_inj)
  ultimately have "sorted_wrt (<) (map reason_order (sort_key reason_order xs))" unfolding strict_sorted_iff by blast
  then show ?thesis by (simp only: sorted_wrt_map)
qed

definition reference_reasons :: "repo_env \<Rightarrow> SelectionReason list \<Rightarrow> BoundedSelectionReasons" where
  "reference_reasons env reasons =
     (if length reasons \<le> MAX_SELECTION_REASONS
      then \<lparr>br_preview = sort reasons, br_total = None, br_truncated = False, br_digest = None\<rparr>
      else \<lparr>br_preview = take MAX_SELECTION_REASONS (sort_key reason_order reasons),
            br_total = Some (of_nat (length reasons)), br_truncated = True,
            br_digest = Some (''sha256:'' @ hex (re_sha256 env (SELECTION_REASONS_DIGEST_DOMAIN @
              be_bytes64 (length reasons) @ sb_sum_digest (from_reasons env reasons))))\<rparr>)"

text \<open>Reasons in explicit and batched form: each batch ordered, all of them path reasons, and no reason twice.\<close>

definition reason_batches_ok :: "SelectionReason list \<Rightarrow> SelectionReason list list \<Rightarrow> bool" where
  "reason_batches_ok explicit batches \<longleftrightarrow>
     bs_wf explicit \<and> list_all bs_wf batches \<and> distinct (explicit @ concat batches) \<and>
     list_all (\<lambda>r. selection_reason_priority r = 1) (concat batches)"

lemma le_nat_bound: "le_nat s < 256 ^ length s"
proof (induction s)
  case (Cons c s)
  define m :: nat where "m = 256 ^ length s"
  have "byte c < 256" by (rule nat_of_char_less_256)
  moreover have "le_nat s < m" using Cons by (simp add: m_def)
  ultimately have "byte c + 256 * le_nat s < 256 * m" by linarith
  then show ?case by (simp only: le_nat.simps length_Cons power_Suc m_def)
qed simp

lemma merge_batches:
  assumes "\<forall>s. length (re_sha256 env s) = 32" "length digest = 32"
  shows "fold merge_batch (map (from_reasons env) batches) (n, digest, preview) =
    (n', digest', preview') \<Longrightarrow>
    unat n' = min (unat n + length (concat batches)) (2 ^ 64 - 1) \<and> length digest' = 32 \<and>
    be_nat digest' = (be_nat digest + (\<Sum>r\<leftarrow>concat batches. be_nat (selection_reason_item_digest env r))) mod 2 ^ 256 \<and>
    preview' = bs_extend (concat (map (take MAX_SELECTION_REASONS) batches)) preview"
  using assms(2)
proof (induction batches arbitrary: n digest preview)
  case Nil
  have "be_nat s < 2 ^ 256" if "length s = 32" for s
    using le_nat_bound [of "rev s"] that by (simp add: be_nat_def)
  moreover have "unat n \<le> 2 ^ 64 - 1" using unat_u64_less [of n] by (simp del: unat_u64_less)
  ultimately show ?case using Nil by (auto simp: bs_extend_def min_absorb1 simp del: unat_u64_less)
next
  case (Cons batch batches)
  note spec = from_reasons_spec [OF assms(1), of batch]
  note add = add_selection_reason_digest_spec [OF Cons(3), of "sb_sum_digest (from_reasons env batch)"]
  let ?n = "u64_sat_add n (sb_count (from_reasons env batch))"
  let ?d = "add_selection_reason_digest digest (sb_sum_digest (from_reasons env batch))"
  let ?p = "bs_extend (take MAX_SELECTION_REASONS batch) preview"
  have "fold merge_batch (map (from_reasons env) batches) (?n, ?d, ?p) = (n', digest', preview')"
  proof -
    have "merge_batch (from_reasons env batch) (n, digest, preview) = (?n, ?d, ?p)" using spec by (simp add: merge_batch_def)
    then show ?thesis using Cons(2) by simp
  qed
  from Cons(1) [OF this] add spec
  have IH: "unat n' = min (unat ?n + length (concat batches)) (2 ^ 64 - 1)" "length digest' = 32"
    "be_nat digest' = (be_nat ?d + (\<Sum>r\<leftarrow>concat batches. be_nat (selection_reason_item_digest env r))) mod 2 ^ 256"
    "preview' = bs_extend (concat (map (take MAX_SELECTION_REASONS) batches)) ?p" by simp_all
  have "unat n' = min (unat n + length (concat (batch # batches))) (2 ^ 64 - 1)"
    unfolding IH(1) unat_sat_add using spec by (simp add: min_def) arith?
  moreover have "be_nat digest' = (be_nat digest + (\<Sum>r\<leftarrow>concat (batch # batches). be_nat (selection_reason_item_digest env r))) mod 2 ^ 256"
    unfolding IH(3) using add spec by (simp add: mod_simps add.assoc)
  moreover have "preview' = bs_extend (concat (map (take MAX_SELECTION_REASONS) (batch # batches))) preview"
    unfolding IH(4) by (simp add: bs_extend_def)
  ultimately show ?case using IH(2) by blast
qed

lemma explicit_digest:
  assumes "\<forall>s. length (re_sha256 env s) = 32"
  shows "fold (\<lambda>reason sum_digest. add_selection_reason_digest sum_digest (selection_reason_item_digest env reason))
    reasons zero_digest = sb_sum_digest (from_reasons env reasons)"
proof (induction reasons rule: rev_induct)
  case (snoc r rs)
  then show ?case by (simp add: from_reasons_def batch_add_def)
qed (simp add: from_reasons_def)

lemma bs_extend_set: "bs_wf s \<Longrightarrow> bs_extend xs s = sorted_list_of_set (set xs \<union> set s)"
proof -
  assume s: "bs_wf s"
  have "bs_wf (bs_extend xs s)" "set (bs_extend xs s) = set xs \<union> set s"
    using bs.wf_fold_ins [OF s] bs.set_fold_ins [OF s] by (simp_all add: bs_extend_def)
  then show ?thesis
    by (metis bs_wf_def sorted_list_of_set.idem_if_sorted_distinct strict_sorted_iff)
qed

text \<open>The truncated batches still hold every reason that the bounded preview shows.\<close>

lemma truncated_preview:
  assumes ok: "reason_batches_ok explicit batches"
  defines "kept \<equiv> set explicit \<union> set (concat (map (take MAX_SELECTION_REASONS) batches))"
  shows "take MAX_SELECTION_REASONS (sort_key reason_order (sorted_list_of_set kept)) =
    take MAX_SELECTION_REASONS (sort_key reason_order (explicit @ concat batches))"
proof -
  let ?all = "explicit @ concat batches"
  have dist: "distinct ?all" and wf: "list_all bs_wf batches"
    and prio: "\<forall>r \<in> set (concat batches). selection_reason_priority r = 1"
    using ok unfolding reason_batches_ok_def list_all_iff [of _ "concat batches"] by blast+
  have sub: "kept \<subseteq> set ?all" unfolding kept_def by (auto dest: in_set_takeD)
  have "mset (sorted_list_of_set kept) = mset (filter (\<lambda>x. x \<in> kept) ?all)"
  proof (rule set_eq_iff_mset_eq_distinct [THEN iffD1])
    show "set (sorted_list_of_set kept) = set (filter (\<lambda>x. x \<in> kept) ?all)"
      using sub by (auto simp: kept_def)
    show "distinct (filter (\<lambda>x. x \<in> kept) ?all)" using dist by (rule distinct_filter)
  qed simp
  then have "sort_key reason_order (sorted_list_of_set kept) = sort_key reason_order (filter (\<lambda>x. x \<in> kept) ?all)"
    by (intro sort_key_inj_key_eq) (simp_all add: reason_order_inj)
  also have "\<dots> = filter (\<lambda>x. x \<in> kept) (sort_key reason_order ?all)" by (simp only: filter_sort)
  also have "take MAX_SELECTION_REASONS \<dots> = take MAX_SELECTION_REASONS (sort_key reason_order ?all)"
  proof (rule take_filter_smallest [OF sort_reasons_strict [OF dist]])
    fix x assume x: "x \<in> set (sort_key reason_order ?all)" "x \<notin> kept"
    then obtain b where b: "b \<in> set batches" "x \<in> set b" "x \<notin> set (take MAX_SELECTION_REASONS b)"
      unfolding kept_def by auto
    let ?Y = "set (take MAX_SELECTION_REASONS b)"
    obtain i where i: "i < length b" "b ! i = x" using b(2) by (auto simp: in_set_conv_nth)
    have large: "MAX_SELECTION_REASONS \<le> i"
      using b(3) i by (metis in_set_conv_nth length_take linorder_not_le min_less_iff_conj nth_take)
    have sorted: "sorted_wrt (<) b" using wf b(1) by (auto simp: list_all_iff bs_wf_def)
    have "y < x" if y: "y \<in> ?Y" for y
    proof -
      from y obtain j where "j < MAX_SELECTION_REASONS" "j < length b" "b ! j = y"
        unfolding in_set_conv_nth by auto
      then show ?thesis using sorted_wrt_nth_less [OF sorted, of j i] i large by simp
    qed
    moreover have "selection_reason_priority y = selection_reason_priority x" if "y \<in> ?Y" for y
      using that prio b(1,2) by (auto dest: in_set_takeD)
    ultimately have "\<forall>y \<in> ?Y. reason_order y < reason_order x" by (auto simp: reason_order_def less_prod_def)
    moreover have "?Y \<subseteq> kept \<inter> set (sort_key reason_order ?all)"
      using b(1) unfolding kept_def by (auto dest: in_set_takeD)
    moreover have "MAX_SELECTION_REASONS \<le> card ?Y"
    proof -
      have "distinct (take MAX_SELECTION_REASONS b)" using sorted strict_sorted_iff distinct_take by blast
      then show ?thesis using i(1) large by (simp add: distinct_card)
    qed
    ultimately show "\<exists>Y. Y \<subseteq> kept \<inter> set (sort_key reason_order ?all) \<and> (\<forall>y \<in> Y. reason_order y < reason_order x) \<and>
        MAX_SELECTION_REASONS \<le> card Y" by blast
  qed
  finally show ?thesis .
qed

lemma unat_usize_len: "unat (usize_len xs) = min (length xs) (2 ^ 64 - 1)"
  by (induction xs rule: rev_induct) (simp_all add: usize_len_def unat_sat_add)

lemma usize_len_eq: "length xs < 2 ^ 64 \<Longrightarrow> usize_len xs = of_nat (length xs)"
proof -
  assume "length xs < 2 ^ 64"
  then have "unat (usize_len xs) = length xs" using unat_usize_len [of xs] by simp
  moreover have "usize_len xs = of_nat (unat (usize_len xs))" by simp
  ultimately show ?thesis by simp
qed

lemma bounded_reasons_spec:
  assumes sha: "\<forall>s. length (re_sha256 env s) = 32" and ok: "reason_batches_ok explicit batches"
    and small: "length (explicit @ concat batches) < 2 ^ 64"
  shows "bounded_selection_reasons env \<lparr>tr_explicit = explicit, tr_batches = map (from_reasons env) batches\<rparr> =
    Inr (reference_reasons env (explicit @ concat batches))"
proof -
  let ?all = "explicit @ concat batches"
  let ?kept = "concat (map (take MAX_SELECTION_REASONS) batches)"
  have dist: "distinct ?all" and wf: "bs_wf explicit" using ok by (simp_all add: reason_batches_ok_def)
  have collected: "bs_collect explicit = explicit"
    using wf by (metis bs_collect_eq bs_wf_def sorted_list_of_set.idem_if_sorted_distinct strict_sorted_iff)
  obtain n digest preview where merged: "fold merge_batch (map (from_reasons env) batches)
      (usize_len explicit, sb_sum_digest (from_reasons env explicit), explicit) = (n, digest, preview)"
    by (cases "fold merge_batch (map (from_reasons env) batches)
      (usize_len explicit, sb_sum_digest (from_reasons env explicit), explicit)") auto
  note explicit_spec = from_reasons_spec [OF sha, of explicit] and all_spec = from_reasons_spec [OF sha, of ?all]
  have "length explicit < 2 ^ 64" using small by simp
  then have len: "unat (usize_len explicit) = length explicit" by (simp add: unat_usize_len)
  from merge_batches [OF sha _ merged] explicit_spec
  have n: "unat n = min (length explicit + length (concat batches)) (2 ^ 64 - 1)"
    and digest: "length digest = 32"
      "be_nat digest = (be_nat (sb_sum_digest (from_reasons env explicit)) +
         (\<Sum>r\<leftarrow>concat batches. be_nat (selection_reason_item_digest env r))) mod 2 ^ 256"
    and preview: "preview = bs_extend ?kept explicit" by (simp_all add: len)
  have total: "unat n = length ?all" using n small by (simp add: min_def)
  have "n = of_nat (unat n)" by simp
  then have total': "n = of_nat (length ?all)" unfolding total .
  have sum: "digest = sb_sum_digest (from_reasons env ?all)"
    using digest explicit_spec all_spec by (intro be_nat_inj) (simp_all add: mod_simps)
  have kept: "preview = sorted_list_of_set (set explicit \<union> set ?kept)"
    unfolding preview bs_extend_set [OF wf] by (simp add: Un_commute)
  have bound: "n \<le> of_nat MAX_SELECTION_REASONS \<longleftrightarrow> length ?all \<le> MAX_SELECTION_REASONS"
    unfolding word_le_nat_alt total by (simp add: MAX_SELECTION_REASONS_def)
  show ?thesis
  proof (cases "length ?all \<le> MAX_SELECTION_REASONS")
    case True
    have "take MAX_SELECTION_REASONS b = b" if "b \<in> set batches" for b
    proof -
      have "length b \<le> length (concat batches)" using that by (induction batches) auto
      then show ?thesis using True by simp
    qed
    then have "?kept = concat batches" by (simp cong: map_cong)
    then have "preview = sorted_list_of_set (set ?all)" using kept by simp
    then have sorted: "preview = sort ?all" using sorted_list_of_set_sort_remdups [of ?all] dist by (simp add: distinct_remdups_id)
    then have "usize_len preview = n" unfolding total' using small by (subst usize_len_eq) simp_all
    then show ?thesis
      using True bound merged sorted
      by (simp add: bounded_selection_reasons_def explicit_digest [OF sha] collected reference_reasons_def)
  next
    case False
    then have "\<not> n \<le> of_nat MAX_SELECTION_REASONS" using bound by simp
    then show ?thesis
      using False merged truncated_preview [OF ok] total
      by (simp add: bounded_selection_reasons_def explicit_digest [OF sha] collected reference_reasons_def kept sum total' Let_def)
  qed
qed

lemma bounded_reasons_total:
  assumes sha: "\<forall>s. length (re_sha256 env s) = 32" and ok: "reason_batches_ok explicit batches"
  shows "\<exists>bounded. bounded_selection_reasons env \<lparr>tr_explicit = explicit, tr_batches = map (from_reasons env) batches\<rparr> = Inr bounded"
proof (cases "length (explicit @ concat batches) < 2 ^ 64")
  case True
  then show ?thesis using bounded_reasons_spec [OF sha ok] by blast
next
  case False
  let ?digest = "fold (\<lambda>reason sum_digest. add_selection_reason_digest sum_digest (selection_reason_item_digest env reason))
    explicit zero_digest"
  obtain n digest preview where merged: "fold merge_batch (map (from_reasons env) batches)
      (usize_len explicit, ?digest, bs_collect explicit) = (n, digest, preview)"
    by (cases "fold merge_batch (map (from_reasons env) batches) (usize_len explicit, ?digest, bs_collect explicit)") auto
  have "length ?digest = 32" using from_reasons_spec [OF sha] by (simp add: explicit_digest [OF sha])
  from merge_batches [OF sha this merged] have "unat n = 2 ^ 64 - 1" using False by (simp add: unat_usize_len min_def)
  then have "\<not> n \<le> of_nat MAX_SELECTION_REASONS" by (simp add: word_le_nat_alt MAX_SELECTION_REASONS_def)
  then show ?thesis using merged by (simp add: bounded_selection_reasons_def Let_def)
qed

text \<open>
  C35. The bounded selection reasons are what one pass over all reasons would give. However
  the path reasons are divided into batches, each of which keeps only its first hundred, the
  result is that of the reference: with at most a hundred reasons all of them in order, and
  else the hundred that come first by class and order, with the exact count and the digest
  of their number and of the sum of the digests of all of them.
\<close>

theorem bounded_reasons_reference:
  assumes "\<forall>s. length (re_sha256 env s) = 32" and "reason_batches_ok explicit batches"
    and "length (explicit @ concat batches) < 2 ^ 64"
  shows "bounded_selection_reasons env \<lparr>tr_explicit = explicit, tr_batches = map (from_reasons env) batches\<rparr> =
    Inr (reference_reasons env (explicit @ concat batches))"
  by (rule bounded_reasons_spec [OF assms])

theorem bounded_reasons_reference_witness:
  "bounded_selection_reasons sample_repo_env
     \<lparr>tr_explicit = [Explicit ''lint''], tr_batches = map (from_reasons sample_repo_env) [map DirectInput [''a'', ''b'']]\<rparr> =
   Inr \<lparr>br_preview = [Explicit ''lint'', DirectInput ''a'', DirectInput ''b''], br_total = None, br_truncated = False,
     br_digest = None\<rparr>"
proof -
  have "\<forall>s. length (re_sha256 sample_repo_env s) = 32" by (simp add: sample_repo_env_def)
  moreover have "reason_batches_ok [Explicit ''lint''] [map DirectInput [''a'', ''b'']]" by code_simp
  moreover have "length ([Explicit ''lint''] @ concat [map DirectInput [''a'', ''b'']]) < 2 ^ 64" by simp
  ultimately have "bounded_selection_reasons sample_repo_env
     \<lparr>tr_explicit = [Explicit ''lint''], tr_batches = map (from_reasons sample_repo_env) [map DirectInput [''a'', ''b'']]\<rparr> =
     Inr (reference_reasons sample_repo_env ([Explicit ''lint''] @ concat [map DirectInput [''a'', ''b'']]))"
    by (rule bounded_reasons_reference)
  moreover have "sort [Explicit ''lint'', DirectInput ''a'', DirectInput ''b''] = [Explicit ''lint'', DirectInput ''a'', DirectInput ''b'']"
    by code_simp
  ultimately show ?thesis by (simp add: reference_reasons_def MAX_SELECTION_REASONS_def)
qed


subsection \<open>The reasons along the plan\<close>

definition reasons_ok :: "repo_env \<Rightarrow> TargetSelectionReasons \<Rightarrow> bool" where
  "reasons_ok env reasons \<longleftrightarrow>
     (\<exists>batches. tr_batches reasons = map (from_reasons env) batches \<and> reason_batches_ok (tr_explicit reasons) batches)"

definition plain_reasons :: "TargetSelectionReasons \<Rightarrow> bool" where
  "plain_reasons reasons \<longleftrightarrow> tr_batches reasons = [] \<and> bs_wf (tr_explicit reasons) \<and>
     (\<forall>r \<in> set (tr_explicit reasons). selection_reason_priority r = 0)"

lemma plain_reasons_ok: "plain_reasons reasons \<Longrightarrow> reasons_ok env reasons"
  by (auto simp: plain_reasons_def reasons_ok_def reason_batches_ok_def bs_wf_distinct)

lemma default_plain: "plain_reasons default_reasons"
  by (simp add: plain_reasons_def default_reasons_def bs_wf_def)

lemma plain_insert:
  "plain_reasons reasons \<Longrightarrow> selection_reason_priority r = 0 \<Longrightarrow> plain_reasons (reasons_insert r reasons)"
  by (auto simp: plain_reasons_def reasons_insert_def bs_wf_bs_insert)

lemma reasons_ok_insert:
  assumes "reasons_ok env reasons" "selection_reason_priority r = 0"
  shows "reasons_ok env (reasons_insert r reasons)"
proof -
  from assms(1) obtain batches where b: "tr_batches reasons = map (from_reasons env) batches"
    "reason_batches_ok (tr_explicit reasons) batches" by (auto simp: reasons_ok_def)
  have "r \<notin> set (concat batches)" using b(2) assms(2) unfolding reason_batches_ok_def list_all_iff by auto
  then have "reason_batches_ok (bs_insert r (tr_explicit reasons)) batches"
    using b(2) bs_wf_bs_insert [of "tr_explicit reasons" r] bs_wf_distinct [of "bs_insert r (tr_explicit reasons)"]
    unfolding reason_batches_ok_def by auto
  then show ?thesis using b(1) by (auto simp: reasons_ok_def reasons_insert_def)
qed

text \<open>The path reasons of distinct origins are distinct.\<close>

abbreviation dependency_reasons :: "ComponentId \<times> string list \<Rightarrow> SelectionReason list" where
  "dependency_reasons e \<equiv> map (\<lambda>path. ComponentDependency (fst e) (Some path)) (snd e)"

lemma dependency_reasons_distinct:
  "distinct (map fst D) \<Longrightarrow> \<forall>e \<in> set D. distinct (snd e) \<Longrightarrow> distinct (concat (map dependency_reasons D))"
proof (induction D)
  case (Cons e D)
  have "set (dependency_reasons e) \<inter> set (concat (map dependency_reasons D)) = {}" using Cons(2) by force
  moreover have "distinct (dependency_reasons e)" using Cons(3) by (auto simp: distinct_map inj_on_def)
  moreover have "distinct (concat (map dependency_reasons D))" using Cons by simp
  ultimately show ?case unfolding list.map concat.simps distinct_append by blast
qed simp

lemma bs_wf_map:
  assumes "bs_wf ps" "\<And>p q. p < q \<Longrightarrow> f p < f q"
  shows "bs_wf (map f ps)"
  using assms(1) unfolding bs_wf_def sorted_wrt_map by (rule sorted_wrt_mono_rel [rotated]) (rule assms(2))

lemma reason_mono:
  "p < q \<Longrightarrow> DirectInput p < DirectInput q" "p < q \<Longrightarrow> UnclaimedInput p < UnclaimedInput q"
  "p < q \<Longrightarrow> ComponentDependency c (Some p) < ComponentDependency c (Some q)"
  by (simp_all add: less_SelectionReason_def)

lemma reason_lists_wf:
  "bs_wf ps \<Longrightarrow> bs_wf (map DirectInput ps)" "bs_wf ps \<Longrightarrow> bs_wf (map UnclaimedInput ps)"
  "bs_wf ps \<Longrightarrow> bs_wf (map (\<lambda>p. ComponentDependency c (Some p)) ps)"
  by (erule bs_wf_map, erule reason_mono)+

text \<open>The batches that affected selection attaches.\<close>

lemma fold_insert_explicit:
  "tr_explicit (fold (\<lambda>p. reasons_insert (f p)) ps r) = bs_extend (map f ps) (tr_explicit r) \<and>
   tr_batches (fold (\<lambda>p. reasons_insert (f p)) ps r) = tr_batches r"
  by (induction ps arbitrary: r) (simp_all add: reasons_insert_def bs_extend_def)

lemma fold_attach:
  "tr_explicit (fold reasons_attach bs r) = tr_explicit r \<and> tr_batches (fold reasons_attach bs r) = tr_batches r @ bs"
  by (induction bs arbitrary: r) (simp_all add: reasons_attach_def)

lemma candidate_reasons_Some:
  assumes "candidate_reasons authority unclaimed direct propagated r = Some r'"
  shows "tr_explicit r' = bs_extend (map DirectInput authority) (tr_explicit r) \<and>
    tr_batches r' = tr_batches r @ (case unclaimed of None \<Rightarrow> [] | Some b \<Rightarrow> [b]) @
      (case direct of None \<Rightarrow> [] | Some b \<Rightarrow> [b]) @ (case propagated of None \<Rightarrow> [] | Some bs \<Rightarrow> bs)"
  using assms fold_insert_explicit [of DirectInput authority r]
  by (auto simp: candidate_reasons_def Let_def reasons_attach_def fold_attach split: if_splits option.splits)

lemma shaped_reasons_batches:
  assumes shape: "claims_shape catalog matchers paths D U T" and r: "plain_reasons r"
    and r': "shaped_reasons env catalog paths D U T t r = Some r'"
  shows "reasons_ok env r'"
proof -
  define D' where "D' = filter (\<lambda>(origin, ps). propagated_from catalog origin (t_component t)) D"
  define direct where "direct = (case T t of None \<Rightarrow> [] | Some ps \<Rightarrow> [map DirectInput ps])"
  define batches where "batches = (if U = [] then [] else [map UnclaimedInput U]) @ direct @ map dependency_reasons D'"
  let ?E = "bs_extend (map DirectInput (authority_in paths)) (tr_explicit r)"
  have plain: "tr_batches r = []" "bs_wf (tr_explicit r)" "\<forall>x \<in> set (tr_explicit r). selection_reason_priority x = 0"
    using r by (simp_all add: plain_reasons_def)
  from candidate_reasons_Some [OF r' [unfolded shaped_reasons_def]]
  have "tr_explicit r' = ?E" "tr_batches r' = map (from_reasons env) batches"
    by (auto simp: plain(1) batches_def direct_def D'_def unclaimed_reasons_def opt_append_def propagated_batches_def
        direct_batch_def dependency_batch_def case_prod_beta split: option.splits)
  moreover have "reason_batches_ok ?E batches"
  proof -
    have D: "multimap D" and U: "bs_wf U" using shape by (simp_all add: claims_shape_def)
    have T: "bs_wf ps \<and> set ps \<subseteq> foreign_paths paths" if "T t = Some ps" for ps
    proof -
      have "case T t of None \<Rightarrow> {p \<in> foreign_paths paths. claims_target catalog matchers p t} = {}
        | Some ps \<Rightarrow> ps \<noteq> [] \<and> bs_wf ps \<and> set ps = {p \<in> foreign_paths paths. claims_target catalog matchers p t}"
        using shape unfolding claims_shape_def by blast
      then show ?thesis using that by simp
    qed
    have entry: "bs_wf (snd e)" if "e \<in> set D'" for e
    proof -
      have "e \<in> set D" using that by (auto simp: D'_def)
      then have "bt_get D (fst e) = Some (snd e)"
        using D map_of_is_SomeI [of D "fst e" "snd e"] unfolding multimap_def bt_get_def by (simp add: bt_wf_distinct)
      then show ?thesis using D unfolding multimap_def by blast
    qed
    have wf: "bs_wf ?E" "set ?E = DirectInput ` set (authority_in paths) \<union> set (tr_explicit r)"
      using bs.wf_fold_ins [OF plain(2)] bs.set_fold_ins [OF plain(2)] by (simp_all add: bs_extend_def)
    have "list_all bs_wf direct \<and> distinct (concat direct) \<and> set (concat direct) \<subseteq> DirectInput ` foreign_paths paths"
    proof (cases "T t")
      case (Some ps)
      have "bs_wf (map DirectInput ps)" using T [OF Some] reason_lists_wf(1) by blast
      then show ?thesis using T [OF Some] Some bs_wf_distinct by (auto simp: direct_def)
    qed (simp add: direct_def)
    then have direct: "list_all bs_wf direct" "distinct (concat direct)"
      "set (concat direct) \<subseteq> DirectInput ` foreign_paths paths" by simp_all
    have deps: "list_all bs_wf (map dependency_reasons D')"
      using entry reason_lists_wf(3) by (auto simp: list_all_iff)
    have "distinct (map fst D')"
      using D unfolding D'_def multimap_def by (auto simp: distinct_map_filter bt_wf_distinct)
    then have deps_distinct: "distinct (concat (map dependency_reasons D'))"
      using entry bs_wf_distinct by (intro dependency_reasons_distinct) auto
    have unclaimed: "list_all bs_wf (if U = [] then [] else [map UnclaimedInput U])"
      "distinct (concat (if U = [] then [] else [map UnclaimedInput U]))"
      using reason_lists_wf(2) [OF U] bs_wf_distinct by auto
    have "authority_in paths = [] \<or> set (authority_in paths) \<inter> foreign_paths paths = {}"
      by (auto simp: authority_in_def foreign_paths_def)
    then have disjoint: "set (authority_in paths) \<inter> foreign_paths paths = {}" by auto
    have "distinct (concat batches)"
      using unclaimed(2) direct(2,3) deps_distinct unfolding batches_def concat_append distinct_append by (auto split: if_splits)
    moreover have one: "list_all (\<lambda>r. selection_reason_priority r = 1) (concat batches)"
      using direct(3) unfolding batches_def list_all_iff by (auto split: if_splits)
    moreover have "set (tr_explicit r) \<inter> set (concat batches) = {}"
    proof -
      have "x \<notin> set (concat batches)" if "x \<in> set (tr_explicit r)" for x
        using that plain(3) one unfolding list_all_iff by (metis zero_neq_one)
      then show ?thesis by blast
    qed
    moreover have "DirectInput ` set (authority_in paths) \<inter> set (concat batches) = {}"
      using direct(3) disjoint unfolding batches_def by (auto split: if_splits)
    moreover have "list_all bs_wf batches" using unclaimed(1) direct(1) deps by (simp add: batches_def)
    ultimately show ?thesis
      using wf bs_wf_distinct [OF wf(1)] unfolding reason_batches_ok_def distinct_append by (simp add: Int_Un_distrib2)
  qed
  ultimately show ?thesis by (auto simp: reasons_ok_def)
qed


subsection \<open>Selections along the plan\<close>

definition selection_ok :: "(TargetSelectionReasons \<Rightarrow> bool) \<Rightarrow> TargetSelection \<Rightarrow> bool" where
  "selection_ok P selected \<longleftrightarrow> bt_wf selected \<and> (\<forall>t r. bt_get selected t = Some r \<longrightarrow> P r)"

lemma selection_ok_mono: "selection_ok P s \<Longrightarrow> (\<And>r. P r \<Longrightarrow> Q r) \<Longrightarrow> selection_ok Q s"
  by (auto simp: selection_ok_def)

lemma empty_selection_ok: "selection_ok P bt_empty"
  by (simp add: selection_ok_def bt.wf_empty bt.get_empty)

lemma add_reason_ok:
  assumes "selection_ok P s" "P default_reasons" "\<And>r. P r \<Longrightarrow> P (reasons_insert x r)"
  shows "selection_ok P (add_reason t x s)"
proof -
  let ?v = "reasons_insert x (case bt_get s t of None \<Rightarrow> default_reasons | Some r \<Rightarrow> r)"
  have wf: "bt_wf s" and get: "\<And>t r. bt_get s t = Some r \<Longrightarrow> P r" using assms(1) unfolding selection_ok_def by blast+
  have "P ?v" using assms(2,3) get by (cases "bt_get s t") simp_all
  then have "P r" if "bt_get (bt_insert t ?v s) u = Some r" for u r
    using that get [of u r] unfolding bt.get_put [OF wf] by (simp split: if_splits)
  then show ?thesis
    using bt.wf_put [OF wf] unfolding selection_ok_def add_reason_def bt_update_def by blast
qed

lemma add_reason_keys: "set (bt_keys (add_reason t x s)) = insert t (set (bt_keys s))"
  by (simp add: add_reason_def bt_update_def bt_keys_def set_bt_insert_keys)

lemma fold_add_reason:
  assumes "selection_ok P s" "P default_reasons" "\<And>r. P r \<Longrightarrow> P (reasons_insert x r)"
  shows "selection_ok P (fold (\<lambda>t. add_reason t x) ts s) \<and>
    set (bt_keys (fold (\<lambda>t. add_reason t x) ts s)) = set ts \<union> set (bt_keys s)"
  using assms(1)
proof (induction ts arbitrary: s)
  case (Cons t ts)
  from Cons(1) [OF add_reason_ok [OF Cons(2) assms(2,3)], of t] show ?case unfolding add_reason_keys by simp
qed simp

text \<open>A selection of targets that the catalog defines, for the reasons that \<open>P\<close> allows.\<close>

abbreviation catalog_selection ::
    "RepositoryCatalog \<Rightarrow> (TargetSelectionReasons \<Rightarrow> bool) \<Rightarrow> TargetSelection \<Rightarrow> bool" where
  "catalog_selection catalog P s \<equiv> selection_ok P s \<and> set (bt_keys s) \<subseteq> set (bt_keys (rc_actions catalog))"

lemma select_reason_list:
  assumes "catalog_selection catalog plain_reasons s" "selection_reason_priority x = 0"
    "set ts \<subseteq> set (bt_keys (rc_actions catalog))"
  shows "catalog_selection catalog plain_reasons (fold (\<lambda>t. add_reason t x) ts s)"
  using fold_add_reason [of plain_reasons s x ts] assms default_plain plain_insert by auto

lemma alias_defined:
  assumes "catalog_ok env catalog" "target_for_alias catalog name = Some t"
  shows "t \<in> set (bt_keys (rc_actions catalog))"
proof -
  have "aliases_of (rc_actions catalog) name t"
    using assms unfolding catalog_ok_def collected_def target_for_alias_def fst_conv by blast
  then show ?thesis unfolding aliases_of_def bt_get_keys [symmetric] by (auto split: option.splits)
qed

lemma catalog_targets:
  assumes "catalog_ok env catalog"
  shows "map a_target (catalog_actions catalog) = bt_keys (rc_actions catalog)"
  using assms by (auto simp: catalog_ok_def collected_def catalog_actions_def bt_values_def bt_keys_def keyed_def list_all_iff)

lemma select_explicit_ok:
  assumes "catalog_ok env catalog" "select_explicit catalog selector s = Inr s'"
    "catalog_selection catalog plain_reasons s"
  shows "catalog_selection catalog plain_reasons s'"
proof -
  let ?matches = "\<lambda>c. map a_target (filter (\<lambda>spec. selector_matches c (a_target spec)) (catalog_actions catalog))"
  have matches: "set (?matches c) \<subseteq> set (bt_keys (rc_actions catalog))" for c
    unfolding catalog_targets [OF assms(1), symmetric] by auto
  have name: "catalog_selection catalog plain_reasons (select_legacy_alias s selector t)"
    if "target_for_alias catalog selector = Some t" for t
    using select_reason_list [OF assms(3), of "LegacyAlias selector" "[t]"] alias_defined [OF assms(1) that]
    by (simp add: select_legacy_alias_def)
  have selected: "catalog_selection catalog plain_reasons
      (fold (\<lambda>target. add_reason target (Explicit selector)) (?matches c) s)" for c
    by (rule select_reason_list [OF assms(3) _ matches]) simp
  from assms(2) consider t where "target_for_alias catalog selector = Some t" "s' = select_legacy_alias s selector t"
    | c where "s' = fold (\<lambda>target. add_reason target (Explicit selector)) (?matches c) s"
    unfolding select_explicit_def Let_def by (auto split: sum.splits option.splits if_splits)
  then show ?thesis
  proof cases
    case 1
    then show ?thesis using name by blast
  next
    case 2
    show ?thesis unfolding 2 by (rule selected)
  qed
qed

lemma select_all_ok:
  assumes "catalog_ok env catalog"
  shows "select_all catalog selectors s = Inr s' \<Longrightarrow> catalog_selection catalog plain_reasons s \<Longrightarrow>
    catalog_selection catalog plain_reasons s'"
proof (induction selectors arbitrary: s)
  case (Cons selector rest)
  from Cons(2) obtain s'' where s'': "select_explicit catalog selector s = Inr s''" "select_all catalog rest s'' = Inr s'"
    by (auto split: sum.splits)
  show ?case by (rule Cons(1) [OF s''(2) select_explicit_ok [OF assms s''(1) Cons(3)]])
qed simp

lemma profile_admitted:
  assumes "catalog_ok env catalog" "catalog_profile catalog p = Some spec"
  shows "profile_ok (rc_actions catalog) spec"
proof -
  have "spec \<in> set (bt_values (rc_profiles catalog))"
    using assms(2) by (auto simp: catalog_profile_def bt_get_def bt_values_def dest!: map_of_SomeD intro: rev_image_eqI)
  then show ?thesis using assms(1) by (simp add: catalog_ok_def list_all_iff)
qed

lemma profile_targets_defined:
  assumes "catalog_ok env catalog" "catalog_profile catalog p = Some spec"
  shows "set (pr_targets spec) \<subseteq> set (bt_keys (rc_actions catalog))"
  using profile_admitted [OF assms] unfolding profile_ok_def list_all_iff bt_get_keys by blast

lemma select_profile_ok:
  assumes "catalog_ok env catalog" "select_profile catalog request profile = Inr s"
  shows "catalog_selection catalog plain_reasons s"
proof -
  have empty: "catalog_selection catalog plain_reasons bt_empty"
    by (simp add: empty_selection_ok) (simp add: bt_empty_def bt_keys_def)
  consider "s = bt_empty" | p spec where "catalog_profile catalog p = Some spec"
      "s = fold (\<lambda>target. add_reason target (ProfileReason p)) (pr_targets spec) bt_empty"
    using assms(2) unfolding select_profile_def by (auto split: option.splits if_splits)
  then show ?thesis
  proof cases
    case 1
    then show ?thesis using empty by blast
  next
    case (2 p spec)
    from select_reason_list [OF empty _ profile_targets_defined [OF assms(1) 2(1)], of "ProfileReason p"] show ?thesis unfolding 2(2) by simp
  qed
qed

lemma select_targets_ok:
  assumes "catalog_ok env catalog" "select_targets env catalog request profile changed observed = Inr s"
  shows "catalog_selection catalog (reasons_ok env) s"
proof -
  from assms(2) obtain s0 s1 where s: "select_profile catalog request profile = Inr s0"
      "select_all catalog (rq_selectors request) s0 = Inr s1"
      "case changed of None \<Rightarrow> s = s1 | Some paths \<Rightarrow> select_affected_targets env catalog s1 paths observed = Inr s"
    unfolding select_targets_def by (auto split: sum.splits option.splits)
  have s1: "catalog_selection catalog plain_reasons s1"
    by (rule select_all_ok [OF assms(1) s(2) select_profile_ok [OF assms(1) s(1)]])
  show ?thesis
  proof (cases changed)
    case None
    then show ?thesis using s1 s(3) selection_ok_mono [of plain_reasons s1 "reasons_ok env"] plain_reasons_ok by auto
  next
    case (Some changed_paths)
    then have sel: "select_affected_targets env catalog s1 changed_paths observed = Inr s" using s(3) by simp
    then obtain matchers paths where paths: "affected_paths env catalog changed_paths observed = Inr (matchers, paths)"
      unfolding select_affected_targets_def by (auto split: sum.splits)
    have m: "new_matcher env catalog = Inr matchers"
      using affected_paths_spec [OF assms(1), of changed_paths observed] paths by simp
    obtain D U T selected where shape: "claims_shape catalog matchers paths D U T"
      "select_affected_targets env catalog s1 changed_paths observed = Inr selected" "bt_wf selected"
      "\<forall>t. bt_get selected t = (case bt_get s1 t of None \<Rightarrow> None | Some r \<Rightarrow> shaped_reasons env catalog paths D U T t r)"
      using select_affected_shape [OF catalog_ok_affected [OF assms(1)] _ paths m, of s1] s1
      unfolding selection_ok_def by blast
    have "selected = s" using sel shape(2) by simp
    have "reasons_ok env r'" if "bt_get s t = Some r'" for t r'
    proof -
      from that shape(4) obtain r where r: "bt_get s1 t = Some r" "shaped_reasons env catalog paths D U T t r = Some r'"
        unfolding \<open>selected = s\<close> by (auto split: option.splits)
      have "plain_reasons r" using s1 r(1) unfolding selection_ok_def by blast
      then show ?thesis by (rule shaped_reasons_batches [OF shape(1) _ r(2)])
    qed
    moreover have "set (bt_keys s) \<subseteq> set (bt_keys s1)"
    proof
      fix t assume "t \<in> set (bt_keys s)"
      then show "t \<in> set (bt_keys s1)"
        using shape(4) unfolding \<open>selected = s\<close> bt_get_keys [symmetric] by (cases "bt_get s1 t") simp_all
    qed
    ultimately show ?thesis using shape(3) s1 unfolding \<open>selected = s\<close> selection_ok_def by blast
  qed
qed


lemma push_dependencies_ok:
  assumes "selection_ok (reasons_ok env) s"
  shows "selection_ok (reasons_ok env)
    (fst (fold (\<lambda>d (s, ps). (add_dependency target d s, if d \<in> set (bt_keys s) then ps else d # ps)) ds (s, ps)))"
  using assms
proof (induction ds arbitrary: s ps)
  case (Cons d ds)
  have "selection_ok (reasons_ok env) (add_dependency target d s)"
    unfolding add_dependency_def
    by (rule add_reason_ok [OF Cons(2) plain_reasons_ok [OF default_plain]]) (simp add: reasons_ok_insert)
  then show ?case using Cons(1) by simp
qed simp

lemma expand_loop_ok:
  "expand_loop catalog pending s = Inr s' \<Longrightarrow> selection_ok (reasons_ok env) s \<Longrightarrow> selection_ok (reasons_ok env) s'"
proof (induction catalog pending s rule: expand_loop.induct)
  case (2 catalog target rest s)
  then obtain action where action: "catalog_action catalog target = Some action"
    by (auto simp: expand_loop.simps split: option.splits)
  let ?push = "fold (\<lambda>d (s, ps). (add_dependency target d s, if d \<in> set (bt_keys s) then ps else d # ps))
    (a_depends_on action) (s, rest)"
  have loop: "expand_loop catalog (snd ?push) (fst ?push) = Inr s'"
    using 2(2) by (simp add: expand_loop.simps action case_prod_beta)
  show ?case
    by (rule 2(1) [OF action prod.collapse loop push_dependencies_ok [OF 2(3)]])
qed simp

lemma expand_ok:
  assumes "catalog_ok env catalog" "catalog_selection catalog (reasons_ok env) s"
  shows "\<exists>expanded. expand_action_dependencies catalog s = Inr expanded \<and>
    catalog_selection catalog (reasons_ok env) expanded \<and>
    set (bt_keys expanded) = reachable (rc_actions catalog) (bt_keys s)"
proof -
  have closed: "reachable (rc_actions catalog) (bt_keys s) \<subseteq> set (bt_keys (rc_actions catalog))"
    using action_edges_closed [OF assms(1)] assms(2) by blast
  obtain expanded where e: "expand_action_dependencies catalog s = Inr expanded"
    using expand_spec [of catalog s] closed by (cases "expand_action_dependencies catalog s") auto
  then have "expand_loop catalog (rev (bt_keys s)) s = Inr expanded"
    by (auto simp: expand_action_dependencies_def split: sum.splits)
  from expand_loop_ok [OF this] assms(2) have "selection_ok (reasons_ok env) expanded" by blast
  then show ?thesis using e expand_spec [of catalog s] closed by auto
qed

text \<open>The read-only gate over the actions of an admitted catalog.\<close>

lemma actions_by_target_catalog:
  assumes "catalog_ok env catalog"
  shows "bt_get (actions_by_target (catalog_actions catalog)) = bt_get (rc_actions catalog)"
    "distinct (map a_target (catalog_actions catalog))"
proof -
  have wf: "bt_wf (rc_actions catalog)" and keyed: "keyed a_target (rc_actions catalog)"
    using assms by (simp_all add: catalog_ok_def collected_def)
  show dist: "distinct (map a_target (catalog_actions catalog))"
    unfolding catalog_targets [OF assms] by (rule distinct_bt_keys [OF wf])
  have index: "bt_wf m \<Longrightarrow> distinct (map a_target actions) \<Longrightarrow>
      bt_get (fold (\<lambda>a. bt_insert (a_target a) a) actions m) = bt_get m ++ map_of (map (\<lambda>a. (a_target a, a)) actions)" for m actions
  proof (induction actions arbitrary: m)
    case (Cons a actions)
    have "map_of (map (\<lambda>a. (a_target a, a)) actions) (a_target a) = None"
      using Cons(3) by (simp add: map_of_eq_None_iff image_image)
    then show ?case
      using Cons(1) [OF bt.wf_put [OF Cons(2)], of "a_target a" a] Cons(3) bt.get_put [OF Cons(2)]
      by (auto simp: fun_eq_iff map_add_def split: option.splits)
  qed simp
  have "map (\<lambda>a. (a_target a, a)) (catalog_actions catalog) = rc_actions catalog"
    using keyed by (auto simp: catalog_actions_def bt_values_def keyed_def list_all_iff intro!: map_idI)
  then show "bt_get (actions_by_target (catalog_actions catalog)) = bt_get (rc_actions catalog)"
    using index [OF bt.wf_empty dist] by (simp add: actions_by_target_def bt_get_def [abs_def] bt_empty_def)
qed


lemma closure_loop_error:
  assumes "closure_loop actions (rev targets) [] = Inl e"
  shows "\<exists>t \<in> reachable actions targets. bt_get actions t = None \<and> e = UndefinedTarget t \<or>
    (\<exists>a. bt_get actions t = Some a \<and> \<not> read_only_check a \<and> e = NotAReadOnlyCheck t (a_intent a) (a_effects a))"
proof -
  have "visited_checks actions (rev targets) []" by (simp add: visited_checks_def bs_wf_def)
  from closure_loop_correct [OF this] show ?thesis unfolding reachable_def assms by simp
qed

lemma check_actions_verdict:
  assumes ok: "catalog_ok env catalog" and targets: "set targets \<subseteq> set (bt_keys (rc_actions catalog))"
  shows "case validate_check_actions catalog targets of
      None \<Rightarrow> (\<forall>t \<in> reachable (rc_actions catalog) targets. \<exists>a. catalog_action catalog t = Some a \<and> read_only_check a)
    | Some e \<Rightarrow> (\<exists>t \<in> reachable (rc_actions catalog) targets. \<exists>a. catalog_action catalog t = Some a \<and>
        \<not> read_only_check a \<and> e = NotAReadOnlyCheck t (a_intent a) (a_effects a))"
proof -
  let ?m = "actions_by_target (catalog_actions catalog)"
  note get = actions_by_target_catalog(1) [OF ok]
  have m: "index_actions bt_empty (catalog_actions catalog) = Inr ?m"
    using actions_by_target_catalog(2) [OF ok] by (simp add: index_actions_Inr_iff actions_by_target_def bt.get_empty)
  have reach: "reachable ?m targets = reachable (rc_actions catalog) targets"
    unfolding reachable_def action_edges_def get ..
  have closed: "reachable ?m targets \<subseteq> set (bt_keys (rc_actions catalog))"
    unfolding reach by (rule action_edges_closed [OF ok targets])
  show ?thesis
  proof (cases "closure_loop ?m (rev targets) []")
    case (Inl e)
    from closure_loop_error [OF this] obtain t where t: "t \<in> reachable ?m targets"
      "bt_get ?m t = None \<and> e = UndefinedTarget t \<or>
       (\<exists>a. bt_get ?m t = Some a \<and> \<not> read_only_check a \<and> e = NotAReadOnlyCheck t (a_intent a) (a_effects a))" by blast
    have "bt_get ?m t \<noteq> None" using t(1) closed unfolding get bt_get_keys by blast
    moreover have "validate_check_actions catalog targets = Some e"
      using m Inl by (simp add: validate_check_actions_def validate_read_only_check_closure_def)
    ultimately show ?thesis using t unfolding reach get catalog_action_def by auto
  next
    case (Inr s)
    from closure_loop_targets [of ?m targets] Inr
    have checks: "\<forall>t \<in> reachable ?m targets. \<exists>a. bt_get ?m t = Some a \<and> read_only_check a" by auto
    have "acyclic (edges (deps_of a_depends_on (rc_actions catalog)) (set (bt_keys (rc_actions catalog))))"
      using ok by (simp add: catalog_ok_def dependency_verdict_def)
    then have "acyclic (edges (deps_of a_depends_on ?m) (reachable ?m targets))"
    proof (rule acyclic_subset)
      have "deps_of a_depends_on ?m = deps_of a_depends_on (rc_actions catalog)" by (simp add: deps_of_def [abs_def] get)
      then show "edges (deps_of a_depends_on ?m) (reachable ?m targets) \<subseteq>
          edges (deps_of a_depends_on (rc_actions catalog)) (set (bt_keys (rc_actions catalog)))"
        using closed by (auto simp: edges_def)
    qed
    then have "validate_check_actions catalog targets = None"
      using checks actions_by_target_catalog(2) [OF ok]
      by (simp add: validate_check_actions_def read_only_closure_None_iff Let_def)
    then show ?thesis using checks unfolding reach get catalog_action_def by simp
  qed
qed

text \<open>The other gate, and the binding of arguments.\<close>

lemma any_effectful_spec:
  assumes "set targets \<subseteq> set (bt_keys (rc_actions catalog))"
  shows "any_effectful catalog targets =
    Inr (\<exists>t \<in> set targets. \<exists>a. catalog_action catalog t = Some a \<and> effectful a)"
  using assms
proof (induction targets)
  case (Cons t targets)
  then have "bt_get (rc_actions catalog) t \<noteq> None" unfolding bt_get_keys by simp
  then show ?case using Cons by (auto simp: catalog_action_def)
qed simp

lemma bind_targets_Inl:
  assumes "bind_targets env catalog targets arguments = Inl e" "set targets \<subseteq> set (bt_keys (rc_actions catalog))"
  shows "\<exists>err. e = BadArguments err"
  using assms
proof (induction env catalog targets arguments rule: bind_targets.induct)
  case (2 env catalog t rest arguments)
  then have "bt_get (rc_actions catalog) t \<noteq> None" unfolding bt_get_keys by simp
  then show ?case using 2 by (auto simp: catalog_action_def Let_def split: sum.splits)
qed simp

lemma bind_action_arguments_Inl:
  assumes "bind_action_arguments env catalog targets arguments = Inl e" "set targets \<subseteq> set (bt_keys (rc_actions catalog))"
  shows "(\<exists>t. e = UnselectedArguments t) \<or> (\<exists>err. e = BadArguments err)"
  using assms bind_targets_Inl [of env catalog "bs_collect targets" arguments e]
  by (auto simp: bind_action_arguments_def Let_def split: option.splits sum.splits)

text \<open>The planned targets.\<close>

lemma reasons_ok_bounded:
  assumes "\<forall>s. length (re_sha256 env s) = 32" "reasons_ok env reasons"
  shows "\<exists>bounded. bounded_selection_reasons env reasons = Inr bounded"
proof -
  from assms(2) obtain batches where b: "tr_batches reasons = map (from_reasons env) batches"
    "reason_batches_ok (tr_explicit reasons) batches" by (auto simp: reasons_ok_def)
  from bounded_reasons_total [OF assms(1) b(2)] show ?thesis unfolding b(1) [symmetric] by (cases reasons) simp
qed

lemma plan_targets_total:
  assumes "\<forall>s. length (re_sha256 env s) = 32"
    "\<forall>(t, r) \<in> set s. t \<in> set (bt_keys (rc_actions catalog)) \<and> reasons_ok env r"
  shows "\<exists>result. plan_targets env catalog source arguments s acc = Inr result"
  using assms(2)
proof (induction s arbitrary: acc)
  case (Cons e s)
  obtain t r effects targets where e: "e = (t, r)" "acc = (effects, targets)" by (metis surj_pair)
  have "bt_get (rc_actions catalog) t \<noteq> None" using Cons(2) unfolding bt_get_keys e by simp
  then obtain a where a: "catalog_action catalog t = Some a" by (auto simp: catalog_action_def)
  obtain bounded where "bounded_selection_reasons env r = Inr bounded"
    using reasons_ok_bounded [OF assms(1)] Cons(2) unfolding e by auto
  then show ?case using a Cons by (simp add: e)
qed simp

lemma plan_targets_Inr:
  assumes "plan_targets env catalog source arguments s (effects, targets) = Inr (effects', targets')" "bs_wf effects"
  shows "bs_wf effects' \<and> (\<exists>new. targets' = targets @ new \<and> map pt_target new = map fst s \<and>
    set effects' = set effects \<union> (\<Union>pt \<in> set new. set (pt_effects pt)) \<and>
    (\<forall>pt \<in> set new. \<exists>a r bounded. catalog_action catalog (pt_target pt) = Some a \<and> (pt_target pt, r) \<in> set s \<and>
       bounded_selection_reasons env r = Inr bounded \<and>
       pt = planned_target env catalog source arguments (pt_target pt) a bounded))"
  using assms
proof (induction s arbitrary: effects targets)
  case (Cons e s)
  obtain t r where e: "e = (t, r)" by (metis surj_pair)
  from Cons(2) obtain a bounded where step: "catalog_action catalog t = Some a" "bounded_selection_reasons env r = Inr bounded"
    "plan_targets env catalog source arguments s (bs_extend (a_effects a) effects,
       targets @ [planned_target env catalog source arguments t a bounded]) = Inr (effects', targets')"
    by (auto simp: e split: option.splits sum.splits)
  let ?pt = "planned_target env catalog source arguments t a bounded"
  have wf: "bs_wf (bs_extend (a_effects a) effects)" and
    set: "set (bs_extend (a_effects a) effects) = set (a_effects a) \<union> set effects"
    using bs.wf_fold_ins [OF Cons(3)] bs.set_fold_ins [OF Cons(3)] by (simp_all add: bs_extend_def)
  from Cons(1) [OF step(3) wf] obtain new where new: "bs_wf effects'" "targets' = (targets @ [?pt]) @ new"
    "map pt_target new = map fst s"
    "set effects' = set (bs_extend (a_effects a) effects) \<union> (\<Union>pt \<in> set new. set (pt_effects pt))"
    "\<forall>pt \<in> set new. \<exists>a r bounded. catalog_action catalog (pt_target pt) = Some a \<and> (pt_target pt, r) \<in> set s \<and>
       bounded_selection_reasons env r = Inr bounded \<and>
       pt = planned_target env catalog source arguments (pt_target pt) a bounded" by blast
  have fields: "pt_target ?pt = t" "pt_effects ?pt = a_effects a" by (simp_all add: planned_target_def)
  have "\<exists>a r bounded. catalog_action catalog (pt_target pt) = Some a \<and> (pt_target pt, r) \<in> set (e # s) \<and>
       bounded_selection_reasons env r = Inr bounded \<and>
       pt = planned_target env catalog source arguments (pt_target pt) a bounded" if "pt \<in> set (?pt # new)" for pt
  proof (cases "pt = ?pt")
    case True
    show ?thesis unfolding True fields(1) using step(1,2) by (intro exI [of _ a] exI [of _ r] exI [of _ bounded]) (simp add: e)
  next
    case False
    then have "pt \<in> set new" using that by simp
    with new(5) obtain a' r' bounded' where "catalog_action catalog (pt_target pt) = Some a'" "(pt_target pt, r') \<in> set s"
      "bounded_selection_reasons env r' = Inr bounded'"
      "pt = planned_target env catalog source arguments (pt_target pt) a' bounded'" by blast
    then show ?thesis by (intro exI [of _ a'] exI [of _ r'] exI [of _ bounded'] conjI) simp_all
  qed
  moreover have "targets' = targets @ ?pt # new" "map pt_target (?pt # new) = map fst (e # s)"
    using new(2,3) fields(1) by (simp_all add: e)
  moreover have "set effects' = set effects \<union> (\<Union>pt \<in> set (?pt # new). set (pt_effects pt))"
    unfolding new(4) set using fields(2) by auto
  ultimately show ?case using new(1) by blast
qed auto


subsection \<open>The plan\<close>

lemma scheduled_cong:
  "\<forall>t \<in> set (concat layers). set (deps t) = set (deps' t) \<Longrightarrow> scheduled deps D layers \<longleftrightarrow> scheduled deps' D layers"
  by (induction layers arbitrary: D) (auto simp: list_all_iff)

lemma reachable_idem:
  assumes "set ts = reachable actions roots"
  shows "reachable actions ts = set ts"
  unfolding reachable_def assms [unfolded reachable_def] by (metis relcomp_Image rtrancl_idemp_self_comp)

text \<open>What the stages of a successful planning establish, for the expanded selection.\<close>

lemma plan_stages:
  assumes ok: "catalog_ok env catalog"
    and plan: "plan_run_with_source_and_paths env to_json catalog request0 source changed observed arguments policy = Inr plan"
  shows "\<exists>request profile expanded bound.
    normalize_request request0 = Inr request \<and> selected_profile catalog request = Inr profile \<and>
    rp_selectors plan = rq_selectors request \<and> rp_profile plan = profile \<and>
    catalog_selection catalog (reasons_ok env) expanded \<and>
    reachable (rc_actions catalog) (bt_keys expanded) = set (bt_keys expanded) \<and>
    validate_policy catalog policy request (bt_keys expanded) = None \<and>
    execution_layers catalog (bt_keys expanded) = Inr (rp_execution_layers plan) \<and>
    plan_targets env catalog source bound expanded ([], []) = Inr (rp_effects plan, rp_targets plan)"
proof -
  from plan obtain request profile selected where r: "normalize_request request0 = Inr request"
    "selected_profile catalog request = Inr profile"
    "select_targets env catalog request profile changed observed = Inr selected"
    "plan_selection env to_json catalog request source profile arguments policy selected = Inr plan"
    unfolding plan_run_with_source_and_paths_def by (auto split: sum.splits option.splits)
  obtain expanded where e: "expand_action_dependencies catalog selected = Inr expanded"
    "catalog_selection catalog (reasons_ok env) expanded"
    "set (bt_keys expanded) = reachable (rc_actions catalog) (bt_keys selected)"
    using expand_ok [OF ok select_targets_ok [OF ok r(3)]] by blast
  from r(4) e(1) obtain bound layers where b: "validate_policy catalog policy request (bt_keys expanded) = None"
    "execution_layers catalog (bt_keys expanded) = Inr layers"
    "assemble_plan env to_json catalog request source profile bound layers expanded = Inr plan"
    unfolding plan_selection_def by (auto split: sum.splits option.splits)
  from b(3) obtain effects targets where "plan_targets env catalog source bound expanded ([], []) = Inr (effects, targets)"
    "rp_selectors plan = rq_selectors request" "rp_profile plan = profile" "rp_execution_layers plan = layers"
    "rp_effects plan = effects" "rp_targets plan = targets"
    unfolding assemble_plan_def by (auto simp: Let_def split: sum.splits)
  then show ?thesis using r(1,2) e(2) b(1,2) reachable_idem [OF e(3)] by metis
qed

text \<open>The planned targets of a plan.\<close>

definition planned_from :: "RepositoryCatalog \<Rightarrow> PlannedTarget \<Rightarrow> ActionSpec \<Rightarrow> bool" where
  "planned_from catalog pt a \<longleftrightarrow>
     catalog_action catalog (pt_target pt) = Some a \<and> pt_intent pt = a_intent a \<and> pt_effects pt = a_effects a \<and>
     pt_runner pt = a_runner a \<and> pt_resources pt = a_resources a \<and> pt_inputs pt = a_inputs a \<and>
     pt_depends_on pt = a_depends_on a \<and> pt_timeout_seconds pt = a_timeout_seconds a \<and>
     pt_result_parser pt = a_result_parser a"

lemma planned_targets_of:
  assumes "plan_targets env catalog source bound expanded ([], []) = Inr (effects, targets)"
  shows "map pt_target targets = bt_keys expanded" "bs_wf effects"
    "set effects = (\<Union>pt \<in> set targets. set (pt_effects pt))"
    "\<forall>pt \<in> set targets. \<exists>a. planned_from catalog pt a"
proof -
  from plan_targets_Inr [OF assms] obtain new where new: "bs_wf effects" "targets = new" "map pt_target new = map fst expanded"
    "set effects = (\<Union>pt \<in> set new. set (pt_effects pt))"
    and origin: "\<forall>pt \<in> set new. \<exists>a r bounded. catalog_action catalog (pt_target pt) = Some a \<and> (pt_target pt, r) \<in> set expanded \<and>
       bounded_selection_reasons env r = Inr bounded \<and>
       pt = planned_target env catalog source bound (pt_target pt) a bounded" by (auto simp: bs_wf_def)
  show "map pt_target targets = bt_keys expanded" "bs_wf effects"
    "set effects = (\<Union>pt \<in> set targets. set (pt_effects pt))" using new by (simp_all add: bt_keys_def)
  show "\<forall>pt \<in> set targets. \<exists>a. planned_from catalog pt a"
  proof
    fix pt assume "pt \<in> set targets"
    then obtain a bounded where a: "catalog_action catalog (pt_target pt) = Some a"
      and pt: "pt = planned_target env catalog source bound (pt_target pt) a bounded" using origin new(2) by blast
    define t where "t = pt_target pt"
    have "planned_from catalog pt a"
      using a unfolding t_def [symmetric] pt [folded t_def] by (simp add: planned_from_def planned_target_def)
    then show "\<exists>a. planned_from catalog pt a" ..
  qed
qed

lemma reachable_root: "set targets \<subseteq> reachable actions targets"
  unfolding reachable_def by blast

text \<open>
  C36. A plan for checks only cannot change anything. When the catalog is admitted and
  planning under the policy for checks succeeds, every planned target, among them all the
  targets that were added as dependencies, carries the intent, the effects and the runner
  of its action in the catalog; it is a check with the read-only effect and without the
  worktree and external effects, and the plan as a whole declares neither of the two.
\<close>

theorem plan_checks_only_safe:
  assumes "catalog_ok env catalog"
    "plan_run_with_source_and_paths env to_json catalog request source changed observed arguments ChecksOnly = Inr plan"
  shows "list_all (\<lambda>pt. \<exists>a. planned_from catalog pt a \<and> read_only_check a \<and> pt_intent pt = Check \<and>
      ReadOnly \<in> set (pt_effects pt) \<and> Worktree \<notin> set (pt_effects pt) \<and> External \<notin> set (pt_effects pt)) (rp_targets plan) \<and>
    Worktree \<notin> set (rp_effects plan) \<and> External \<notin> set (rp_effects plan)"
proof -
  from plan_stages [OF assms] obtain request expanded bound where
    sel: "catalog_selection catalog (reasons_ok env) expanded"
    and gate: "validate_policy catalog ChecksOnly request (bt_keys expanded) = None"
    and targets: "plan_targets env catalog source bound expanded ([], []) = Inr (rp_effects plan, rp_targets plan)" by blast
  note planned = planned_targets_of [OF targets]
  have "validate_check_actions catalog (bt_keys expanded) = None" using gate by (simp add: validate_policy_def)
  with check_actions_verdict [OF assms(1) conjunct2 [OF sel]]
  have checks: "\<forall>t \<in> reachable (rc_actions catalog) (bt_keys expanded). \<exists>a. catalog_action catalog t = Some a \<and> read_only_check a" by simp
  have safe: "\<exists>a. planned_from catalog pt a \<and> read_only_check a \<and> pt_intent pt = Check \<and>
      ReadOnly \<in> set (pt_effects pt) \<and> Worktree \<notin> set (pt_effects pt) \<and> External \<notin> set (pt_effects pt)"
    if pt: "pt \<in> set (rp_targets plan)" for pt
  proof -
    have "pt_target pt \<in> set (bt_keys expanded)" unfolding planned(1) [symmetric] using pt by simp
    then obtain a where a: "catalog_action catalog (pt_target pt) = Some a" "read_only_check a"
      using checks reachable_root by blast
    moreover have "planned_from catalog pt a" using planned(4) pt a(1) by (auto simp: planned_from_def)
    ultimately show ?thesis by (intro exI [of _ a]) (simp add: planned_from_def read_only_check_def)
  qed
  then show ?thesis unfolding list_all_iff planned(3) by blast
qed

text \<open>
  C37. Effects need an explicit request. A plan for declared actions that contains anything
  but a check, or an action with the worktree or external effect, names its selectors, and
  was not made from a profile; so neither a profile nor the default can select an effect.
\<close>

theorem plan_effects_need_selectors:
  assumes "catalog_ok env catalog"
    "plan_run_with_source_and_paths env to_json catalog request source changed observed arguments DeclaredActions = Inr plan"
    "pt \<in> set (rp_targets plan)" "pt_intent pt \<noteq> Check \<or> Worktree \<in> set (pt_effects pt) \<or> External \<in> set (pt_effects pt)"
  shows "rp_selectors plan \<noteq> [] \<and> rp_profile plan = None"
proof -
  from plan_stages [OF assms(1,2)] obtain request' profile expanded bound where
    request: "normalize_request request = Inr request'" "selected_profile catalog request' = Inr profile"
      "rp_selectors plan = rq_selectors request'" "rp_profile plan = profile"
    and sel: "catalog_selection catalog (reasons_ok env) expanded"
    and gate: "validate_policy catalog DeclaredActions request' (bt_keys expanded) = None"
    and targets: "plan_targets env catalog source bound expanded ([], []) = Inr (rp_effects plan, rp_targets plan)" by blast
  note planned = planned_targets_of [OF targets]
  obtain a where a: "planned_from catalog pt a" using planned(4) assms(3) by blast
  have "pt_target pt \<in> set (bt_keys expanded)" unfolding planned(1) [symmetric] using assms(3) by simp
  moreover have "effectful a" using a assms(4) by (simp add: planned_from_def effectful_def)
  ultimately have "any_effectful catalog (bt_keys expanded) = Inr True"
    using any_effectful_spec [OF conjunct2 [OF sel]] a unfolding planned_from_def by auto
  then have nonempty: "rq_selectors request' \<noteq> []"
    using gate by (auto simp: validate_policy_def validate_declared_action_selection_def)
  then have "rq_profile request' = None"
    using request(1) by (auto simp: normalize_request_def split: sum.splits if_splits)
  then have "profile = None" using request(2) nonempty by (simp add: selected_profile_def)
  then show ?thesis using nonempty request by simp
qed


text \<open>
  C38. A plan is complete and can be run layer by layer. For an admitted catalog, the
  targets of every plan, whatever the policy, are in strictly increasing order and hold the
  facts of their actions; they contain all their dependencies; the layers hold each of them
  exactly once, none is empty, and all dependencies of a target are in earlier layers; and
  the effects of the plan are those of its targets, in order and without repetition.
\<close>

theorem plan_schedule_sound:
  assumes "catalog_ok env catalog"
    "plan_run_with_source_and_paths env to_json catalog request source changed observed arguments policy = Inr plan"
  shows "sorted_wrt (<) (map pt_target (rp_targets plan)) \<and>
    list_all (\<lambda>pt. (\<exists>a. planned_from catalog pt a) \<and> set (pt_depends_on pt) \<subseteq> pt_target ` set (rp_targets plan)) (rp_targets plan) \<and>
    set (concat (rp_execution_layers plan)) = pt_target ` set (rp_targets plan) \<and>
    distinct (concat (rp_execution_layers plan)) \<and>
    scheduled (deps_of a_depends_on (rc_actions catalog)) {} (rp_execution_layers plan) \<and>
    rp_effects plan = sorted_list_of_set (\<Union>pt \<in> set (rp_targets plan). set (pt_effects pt))"
proof -
  from plan_stages [OF assms] obtain expanded bound where
    sel: "catalog_selection catalog (reasons_ok env) expanded"
    and closed: "reachable (rc_actions catalog) (bt_keys expanded) = set (bt_keys expanded)"
    and layers: "execution_layers catalog (bt_keys expanded) = Inr (rp_execution_layers plan)"
    and targets: "plan_targets env catalog source bound expanded ([], []) = Inr (rp_effects plan, rp_targets plan)" by blast
  note planned = planned_targets_of [OF targets]
  have keys: "pt_target ` set (rp_targets plan) = set (bt_keys expanded)" unfolding planned(1) [symmetric] by simp
  have deps: "set (deps_of a_depends_on (rc_actions catalog) t) \<subseteq> set (bt_keys expanded)" if "t \<in> set (bt_keys expanded)" for t
    using reachable_closed [of t "rc_actions catalog" "bt_keys expanded"] that unfolding closed .
  have sorted: "sorted_wrt (<) (map pt_target (rp_targets plan))"
    using sel unfolding planned(1) by (simp add: selection_ok_def bt_wf_def bt_keys_def)
  have facts: "(\<exists>a. planned_from catalog pt a) \<and> set (pt_depends_on pt) \<subseteq> set (bt_keys expanded)"
    if "pt \<in> set (rp_targets plan)" for pt
  proof -
    obtain a where a: "planned_from catalog pt a" using planned(4) \<open>pt \<in> set (rp_targets plan)\<close> by blast
    moreover have "pt_target pt \<in> set (bt_keys expanded)" using keys \<open>pt \<in> set (rp_targets plan)\<close> by blast
    ultimately show ?thesis using deps [of "pt_target pt"] by (auto simp: planned_from_def catalog_action_def deps_of_def)
  qed
  have schedule: "set (concat (rp_execution_layers plan)) = set (bt_keys expanded)" "distinct (concat (rp_execution_layers plan))"
    "scheduled (inner_deps catalog (set (bt_keys expanded))) {} (rp_execution_layers plan)"
    using execution_layers_ok [OF assms(1) conjunct2 [OF sel]] layers by auto
  have "\<forall>t \<in> set (concat (rp_execution_layers plan)).
      set (inner_deps catalog (set (bt_keys expanded)) t) = set (deps_of a_depends_on (rc_actions catalog) t)"
    using deps unfolding schedule(1) by auto
  from scheduled_cong [OF this] schedule(3)
  have "scheduled (deps_of a_depends_on (rc_actions catalog)) {} (rp_execution_layers plan)" by blast
  moreover have "rp_effects plan = sorted_list_of_set (\<Union>pt \<in> set (rp_targets plan). set (pt_effects pt))"
    using planned(2) unfolding planned(3) [symmetric]
    by (metis bs_wf_def sorted_list_of_set.idem_if_sorted_distinct strict_sorted_iff)
  ultimately show ?thesis unfolding keys list_all_iff using sorted facts schedule by blast
qed

text \<open>The errors that a request can cause; all others are violations of an invariant of the code.\<close>

fun request_error :: "plan_error \<Rightarrow> bool" where
  "request_error (AffectedError e) = (case e of ChangedPath p err \<Rightarrow> True | _ \<Rightarrow> False)"
| "request_error (ClosureError e) = (case e of NotAReadOnlyCheck t i eff \<Rightarrow> True | _ \<Rightarrow> False)"
| "request_error (UndefinedSelected t) = False"
| "request_error (MissingSelectedAction t) = False"
| "request_error (LayerCycle ts) = False"
| "request_error (OverlappingReasons m n) = False"
| "request_error e = True"

lemma select_affected_error:
  assumes "catalog_ok env catalog" "bt_wf s" "select_affected_targets env catalog s changed observed = Inl e"
  shows "request_error (AffectedError e)"
proof (cases "affected_paths env catalog changed observed")
  case (Inl e')
  then show ?thesis using affected_paths_spec [OF assms(1), of changed observed] assms(3)
    by (auto simp: select_affected_targets_def)
next
  case (Inr r)
  obtain matchers paths where r: "r = (matchers, paths)" by (cases r) auto
  have m: "new_matcher env catalog = Inr matchers"
    using affected_paths_spec [OF assms(1), of changed observed] by (simp add: Inr r)
  from select_affected_shape [OF catalog_ok_affected [OF assms(1)] assms(2) Inr [unfolded r] m] assms(3) show ?thesis by auto
qed

lemma select_explicit_error: "select_explicit catalog selector s = Inl e \<Longrightarrow> request_error e"
  by (auto simp: select_explicit_def Let_def split: sum.splits option.splits if_splits)

lemma select_all_error: "select_all catalog selectors s = Inl e \<Longrightarrow> request_error e"
  by (induction catalog selectors s rule: select_all.induct) (auto dest: select_explicit_error split: sum.splits)

lemma select_targets_error:
  assumes "catalog_ok env catalog" "select_targets env catalog request profile changed observed = Inl e"
  shows "request_error e"
proof -
  consider "select_profile catalog request profile = Inl e"
    | s where "select_profile catalog request profile = Inr s" "select_all catalog (rq_selectors request) s = Inl e"
    | s s' paths e' where "select_profile catalog request profile = Inr s" "select_all catalog (rq_selectors request) s = Inr s'"
        "select_affected_targets env catalog s' paths observed = Inl e'" "e = AffectedError e'"
    using assms(2) unfolding select_targets_def by (auto split: sum.splits option.splits)
  then show ?thesis
  proof cases
    case 1
    then show ?thesis by (auto simp: select_profile_def split: option.splits if_splits)
  next
    case 2
    then show ?thesis using select_all_error by blast
  next
    case (3 s s' paths e')
    have "bt_wf s'"
      using select_all_ok [OF assms(1) 3(2) select_profile_ok [OF assms(1) 3(1)]] by (simp add: selection_ok_def)
    then show ?thesis using select_affected_error [OF assms(1) _ 3(3)] unfolding 3(4) by blast
  qed
qed

lemma validate_policy_error:
  assumes "catalog_ok env catalog" "set targets \<subseteq> set (bt_keys (rc_actions catalog))"
    "validate_policy catalog policy request targets = Some e"
  shows "request_error e"
proof (cases policy)
  case ChecksOnly
  then obtain ce where "validate_check_actions catalog targets = Some ce" "e = ClosureError ce"
    using assms(3) by (auto simp: validate_policy_def)
  then show ?thesis using check_actions_verdict [OF assms(1,2)] by auto
next
  case DeclaredActions
  then show ?thesis
    using assms(3) any_effectful_spec [OF assms(2)]
    by (auto simp: validate_policy_def validate_declared_action_selection_def split: if_splits)
qed

lemma plan_selection_error:
  assumes ok: "catalog_ok env catalog" "\<forall>s. length (re_sha256 env s) = 32"
    and s: "catalog_selection catalog (reasons_ok env) s"
    and e: "plan_selection env to_json catalog request source profile arguments policy s = Inl e"
  shows "request_error e"
proof -
  obtain expanded where x: "expand_action_dependencies catalog s = Inr expanded"
    "catalog_selection catalog (reasons_ok env) expanded" using expand_ok [OF ok(1) s] by blast
  obtain layers where layers: "execution_layers catalog (bt_keys expanded) = Inr layers"
    using execution_layers_ok [OF ok(1)] x(2) by blast
  have "\<forall>(t, r) \<in> set expanded. t \<in> set (bt_keys (rc_actions catalog)) \<and> reasons_ok env r"
  proof (intro ballI, clarify)
    fix c n r assume "((c, n), r) \<in> set expanded"
    then have "bt_get expanded (c, n) = Some r"
      using bt.entries_get [of expanded "(c, n)" r] x(2) unfolding selection_ok_def by blast
    moreover from this have "(c, n) \<in> set (bt_keys expanded)" by (simp flip: bt_get_keys)
    ultimately show "(c, n) \<in> set (bt_keys (rc_actions catalog)) \<and> reasons_ok env r" using x(2) unfolding selection_ok_def by blast
  qed
  then have assembled: "assemble_plan env to_json catalog request source profile bound layers expanded \<noteq> Inl e" for bound
    using plan_targets_total [OF ok(2), of expanded catalog source bound "([], [])"]
    by (auto simp: assemble_plan_def Let_def)
  consider "validate_policy catalog policy request (bt_keys expanded) = Some e"
    | "bind_action_arguments env catalog (bt_keys expanded) arguments = Inl e"
    using e x(1) layers assembled by (auto simp: plan_selection_def split: sum.splits option.splits)
  then show ?thesis
  proof cases
    case 1
    then show ?thesis using validate_policy_error [OF ok(1)] x(2) by blast
  next
    case 2
    then show ?thesis using bind_action_arguments_Inl x(2) by fastforce
  qed
qed

text \<open>
  C39. Planning has no internal failure. For an admitted catalog and digests of 32 bytes,
  planning, which always terminates, fails only with an error about the request: a
  malformed or unknown selector, profile, base, changed path or argument, or a target that
  the policy does not allow. The panics for a selected target without an action, the
  undefined dependency, the dependency cycle in the layers and the overlap of selection
  reasons never occur.
\<close>

theorem plan_never_panics:
  assumes "catalog_ok env catalog" "\<forall>s. length (re_sha256 env s) = 32"
    "plan_run_with_source_and_paths env to_json catalog request source changed observed arguments policy = Inl e"
  shows "request_error e"
proof -
  have check: "request_error e'" if "check_affected_request catalog base changed = Some e'" for base e'
    using that by (auto simp: check_affected_request_def split: option.splits if_splits)
  show ?thesis
  proof (cases "normalize_request request")
    case (Inl e')
    then show ?thesis
      using assms(3) by (auto simp: plan_run_with_source_and_paths_def normalize_request_def normalize_affected_base_def
          normalize_selectors_def split: sum.splits option.splits if_splits)
  next
    case (Inr request')
    note run = assms(3) [unfolded plan_run_with_source_and_paths_def Inr sum.case]
    show ?thesis
    proof (cases "check_affected_request catalog (rq_affected_base request') changed")
      case None
      show ?thesis
      proof (cases "selected_profile catalog request'")
        case (Inl e')
        then show ?thesis
          using run None by (auto simp: selected_profile_def split: option.splits sum.splits if_splits)
      next
        case (Inr profile)
        then show ?thesis
          using run None select_targets_error [OF assms(1), of request' profile changed observed]
            plan_selection_error [OF assms(1,2) select_targets_ok [OF assms(1), of request' profile changed observed]]
          by (cases "select_targets env catalog request' profile changed observed") simp_all
      qed
    qed (use run check in simp)
  qed
qed


subsection \<open>Evidence\<close>

text \<open>The roots of a selector that an admitted catalog resolves.\<close>

lemma evidence_roots_defined:
  assumes "catalog_ok env catalog" "evidence_roots catalog selector = Inr roots"
  shows "roots \<noteq> [] \<and> set roots \<subseteq> set (bt_keys (rc_actions catalog))"
proof (cases selector)
  case (EvidenceTarget t)
  then have "roots = [t]" "bt_get (rc_actions catalog) t \<noteq> None"
    using assms(2) by (auto simp: evidence_roots_def catalog_action_def split: if_splits)
  then show ?thesis unfolding bt_get_keys by simp
next
  case (EvidenceProfile p)
  then obtain spec where spec: "catalog_profile catalog p = Some spec" "pr_targets spec \<noteq> []" "roots = bs_collect (pr_targets spec)"
    using assms(2) by (auto simp: evidence_roots_def split: option.splits if_splits)
  have "set roots = set (pr_targets spec)" using sorted_bs_collect [of "pr_targets spec"] spec(3) by simp
  moreover have "set (pr_targets spec) \<subseteq> set (bt_keys (rc_actions catalog))"
    by (rule profile_targets_defined [OF assms(1) spec(1)])
  ultimately show ?thesis using spec(2) by auto
qed

lemma evidence_roots_error:
  assumes "catalog_ok env catalog" "evidence_roots catalog selector = Inl e"
  shows "case selector of
      EvidenceTarget t \<Rightarrow> catalog_action catalog t = None \<and> e = UnknownEvidenceTarget t
    | EvidenceProfile p \<Rightarrow> catalog_profile catalog p = None \<and> e = UnknownEvidenceProfile p"
proof (cases selector)
  case (EvidenceTarget t)
  then show ?thesis using assms(2) by (auto simp: evidence_roots_def split: if_splits)
next
  case (EvidenceProfile p)
  have "pr_targets spec \<noteq> []" if "catalog_profile catalog p = Some spec" for spec
    using profile_admitted [OF assms(1) that] by (simp add: profile_ok_def)
  then show ?thesis using assms(2) EvidenceProfile by (auto simp: evidence_roots_def split: option.splits if_splits)
qed

lemma evidence_loop_closure:
  assumes "catalog_ok env catalog" "set roots \<subseteq> set (bt_keys (rc_actions catalog))"
  shows "\<exists>targets. evidence_loop catalog (rev roots) roots = Inr targets \<and> set targets = reachable (rc_actions catalog) roots"
proof -
  have "set (rev roots) = set roots" by simp
  from evidence.loop_from_keys [OF this, of catalog] action_edges_closed [OF assms]
  show ?thesis unfolding evidence_depends catalog_dom reachable_def
    by (cases "evidence_loop catalog (rev roots) roots") auto
qed

text \<open>
  C40. The evidence of a work gate. For an admitted catalog a selector is rejected only when
  it names an unknown target or profile, or when its closure contains an action that is not
  a read-only check. Otherwise every target it reaches through dependencies is a read-only
  check, and the targets whose evidence is required are the roots themselves from the
  contract version with target freshness on, and all the targets they reach before it.
\<close>

theorem evidence_targets_exact:
  assumes "catalog_ok env catalog"
  shows "case resolve_evidence_targets catalog selector of
      Inl e \<Rightarrow>
        (case selector of
           EvidenceTarget t \<Rightarrow> catalog_action catalog t = None \<and> e = UnknownEvidenceTarget t
         | EvidenceProfile p \<Rightarrow> catalog_profile catalog p = None \<and> e = UnknownEvidenceProfile p) \<or>
        (\<exists>roots. evidence_roots catalog selector = Inr roots \<and>
          (\<exists>t \<in> reachable (rc_actions catalog) roots. \<exists>a. catalog_action catalog t = Some a \<and> \<not> read_only_check a \<and>
            e = EvidenceClosure (NotAReadOnlyCheck t (a_intent a) (a_effects a))))
    | Inr targets \<Rightarrow>
        (\<exists>roots. evidence_roots catalog selector = Inr roots \<and> roots \<noteq> [] \<and>
          (\<forall>t \<in> reachable (rc_actions catalog) roots. \<exists>a. catalog_action catalog t = Some a \<and> read_only_check a) \<and>
          set targets = (if TARGET_FRESHNESS_CONTRACT_VERSION \<le> rc_contract_version catalog then set roots
                         else reachable (rc_actions catalog) roots))"
proof (cases "evidence_roots catalog selector")
  case (Inl e)
  then show ?thesis using evidence_roots_error [OF assms Inl] by (simp add: resolve_evidence_targets_def)
next
  case (Inr roots)
  note roots = evidence_roots_defined [OF assms Inr]
  obtain targets where targets: "evidence_loop catalog (rev roots) roots = Inr targets"
    "set targets = reachable (rc_actions catalog) roots" using evidence_loop_closure [OF assms] roots by blast
  have defined: "set targets \<subseteq> set (bt_keys (rc_actions catalog))"
    unfolding targets(2) using action_edges_closed [OF assms] roots by blast
  note closed = reachable_idem [OF targets(2)]
  from check_actions_verdict [OF assms defined] show ?thesis
    unfolding closed targets(2) using Inr targets roots
    by (cases "validate_check_actions catalog targets") (auto simp: resolve_evidence_targets_def)
qed


subsection \<open>Samples\<close>

text \<open>A check that depends on a check, and an action with an external effect that depends on both.\<close>

definition sample_release_result :: "repo_env \<Rightarrow> catalog_error + RepositoryCatalog" where
  "sample_release_result env =
     from_native_with_ignore env 8 ''d'' [new_component ''api'' ''.'']
       [sample_action ''test'' [''build''], sample_action ''build'' [],
        (new_action (''api'', ''ship'') Operate (Native ''jig.lint'' None))
          \<lparr>a_effects := [Process, External], a_depends_on := [(''api'', ''test'')]\<rparr>]
       [new_profile ''verify'' [(''api'', ''test'')]] (Some ''verify'') []"

definition sample_release :: "repo_env \<Rightarrow> RepositoryCatalog" where
  "sample_release env = (case sample_release_result env of Inr catalog \<Rightarrow> catalog | Inl e \<Rightarrow> sample_catalog)"

definition sample_plan_result :: "repo_env \<Rightarrow> PlanningPolicy \<Rightarrow> string list \<Rightarrow> plan_error + RunPlan" where
  "sample_plan_result env policy selectors =
     plan_run_with_source_and_paths env (\<lambda>p. []) (sample_release env)
       \<lparr>rq_selectors = selectors, rq_profile = None, rq_affected_base = None, rq_comparison = None\<rparr>
       \<lparr>si_commit = None, si_worktree_fingerprint = ''w''\<rparr> None [] [] policy"

lemma sample_release_ok:
  "catalog_ok sample_repo_env (sample_release sample_repo_env)"
  "catalog_ok sample_affected_env (sample_release sample_affected_env)"
proof -
  have admitted: "catalog_ok env (sample_release env)" if "\<not> isl (sample_release_result env)" for env
    using that from_native_catalog_ok by (auto simp: sample_release_def sample_release_result_def split: sum.splits)
  have "\<not> isl (sample_release_result sample_repo_env)" by code_simp
  then show "catalog_ok sample_repo_env (sample_release sample_repo_env)" by (rule admitted)
  have "\<not> isl (sample_release_result sample_affected_env)" by code_simp
  then show "catalog_ok sample_affected_env (sample_release sample_affected_env)" by (rule admitted)
qed

theorem plan_checks_only_safe_witness:
  "\<exists>plan. sample_plan_result sample_affected_env ChecksOnly [''api:test''] = Inr plan \<and>
     map pt_target (rp_targets plan) = [(''api'', ''build''), (''api'', ''test'')] \<and>
     list_all (\<lambda>pt. pt_intent pt = Check) (rp_targets plan) \<and> External \<notin> set (rp_effects plan)"
proof -
  have "map_sum id (\<lambda>plan. map pt_target (rp_targets plan)) (sample_plan_result sample_affected_env ChecksOnly [''api:test'']) =
      Inr [(''api'', ''build''), (''api'', ''test'')]" by code_simp
  then obtain plan where plan: "sample_plan_result sample_affected_env ChecksOnly [''api:test''] = Inr plan"
    "map pt_target (rp_targets plan) = [(''api'', ''build''), (''api'', ''test'')]"
    by (cases "sample_plan_result sample_affected_env ChecksOnly [''api:test'']") simp_all
  note safe = plan_checks_only_safe [OF sample_release_ok(2) plan(1) [unfolded sample_plan_result_def]]
  have checks: "list_all (\<lambda>pt. pt_intent pt = Check) (rp_targets plan)"
    using conjunct1 [OF safe] by (rule list.pred_mono_strong) (elim exE conjE)
  show ?thesis by (intro exI [of _ plan] conjI plan checks conjunct2 [OF conjunct2 [OF safe]])
qed

theorem plan_effects_need_selectors_witness:
  "\<exists>plan. sample_plan_result sample_affected_env DeclaredActions [''api:ship''] = Inr plan \<and>
     map pt_effects (rp_targets plan) = [[ReadOnly, Process], [Process, External], [ReadOnly, Process]] \<and>
     rp_selectors plan \<noteq> [] \<and> rp_profile plan = None"
proof -
  have "map_sum id (\<lambda>plan. map pt_effects (rp_targets plan)) (sample_plan_result sample_affected_env DeclaredActions [''api:ship'']) =
      Inr [[ReadOnly, Process], [Process, External], [ReadOnly, Process]]" by code_simp
  then obtain plan where plan: "sample_plan_result sample_affected_env DeclaredActions [''api:ship''] = Inr plan"
    "map pt_effects (rp_targets plan) = [[ReadOnly, Process], [Process, External], [ReadOnly, Process]]"
    by (cases "sample_plan_result sample_affected_env DeclaredActions [''api:ship'']") simp_all
  have "[Process, External] \<in> set (map pt_effects (rp_targets plan))" unfolding plan(2) by simp
  then obtain pt where pt: "[Process, External] = pt_effects pt" "pt \<in> set (rp_targets plan)"
    unfolding set_map by (rule imageE)
  have "External \<in> set (pt_effects pt)" unfolding pt(1) [symmetric] by simp
  note selected = plan_effects_need_selectors [OF sample_release_ok(2) plan(1) [unfolded sample_plan_result_def] pt(2)
      disjI2 [OF disjI2 [OF this]]]
  show ?thesis by (intro exI [of _ plan] conjI plan conjunct1 [OF selected] conjunct2 [OF selected])
qed

theorem plan_schedule_sound_witness:
  "\<exists>plan. sample_plan_result sample_affected_env DeclaredActions [''api:ship''] = Inr plan \<and>
     rp_execution_layers plan = [[(''api'', ''build'')], [(''api'', ''test'')], [(''api'', ''ship'')]] \<and>
     pt_target ` set (rp_targets plan) = {(''api'', ''build''), (''api'', ''test''), (''api'', ''ship'')} \<and>
     scheduled (deps_of a_depends_on (rc_actions (sample_release sample_affected_env))) {} (rp_execution_layers plan)"
proof -
  have "map_sum id rp_execution_layers (sample_plan_result sample_affected_env DeclaredActions [''api:ship'']) =
      Inr [[(''api'', ''build'')], [(''api'', ''test'')], [(''api'', ''ship'')]]" by code_simp
  then obtain plan where plan: "sample_plan_result sample_affected_env DeclaredActions [''api:ship''] = Inr plan"
    "rp_execution_layers plan = [[(''api'', ''build'')], [(''api'', ''test'')], [(''api'', ''ship'')]]"
    by (cases "sample_plan_result sample_affected_env DeclaredActions [''api:ship'']") simp_all
  note sound = plan_schedule_sound [OF sample_release_ok(2) plan(1) [unfolded sample_plan_result_def]]
  then have "pt_target ` set (rp_targets plan) = set (concat (rp_execution_layers plan))" by (elim conjE) (rule sym)
  then have targets: "pt_target ` set (rp_targets plan) = {(''api'', ''build''), (''api'', ''test''), (''api'', ''ship'')}"
    unfolding plan(2) by simp
  have "scheduled (deps_of a_depends_on (rc_actions (sample_release sample_affected_env))) {} (rp_execution_layers plan)"
    using sound by (elim conjE)
  then show ?thesis by (intro exI [of _ plan] conjI plan targets)
qed

theorem plan_never_panics_witness:
  "sample_plan_result sample_repo_env ChecksOnly [''api:none''] = Inl (NoMatchingTarget ''api:none'') \<and>
   request_error (NoMatchingTarget ''api:none'')"
proof -
  have sha: "\<forall>s. length (re_sha256 sample_repo_env s) = 32" by (simp add: sample_repo_env_def)
  have "map_sum (\<lambda>e. e = NoMatchingTarget ''api:none'') (\<lambda>plan. ())
      (sample_plan_result sample_repo_env ChecksOnly [''api:none'']) = Inl True" by code_simp
  then have run: "sample_plan_result sample_repo_env ChecksOnly [''api:none''] = Inl (NoMatchingTarget ''api:none'')"
    by (cases "sample_plan_result sample_repo_env ChecksOnly [''api:none'']") simp_all
  show ?thesis
    by (intro conjI run plan_never_panics [OF sample_release_ok(1) sha run [unfolded sample_plan_result_def]])
qed

theorem evidence_targets_exact_witness:
  "resolve_evidence_targets (sample_release sample_repo_env) (EvidenceProfile ''verify'') = Inr [(''api'', ''test'')] \<and>
   reachable (rc_actions (sample_release sample_repo_env)) [(''api'', ''test'')] \<subseteq>
     {t. \<exists>a. catalog_action (sample_release sample_repo_env) t = Some a \<and> read_only_check a}"
proof -
  have roots: "evidence_roots (sample_release sample_repo_env) (EvidenceProfile ''verify'') = Inr [(''api'', ''test'')]" by code_simp
  have run: "resolve_evidence_targets (sample_release sample_repo_env) (EvidenceProfile ''verify'') = Inr [(''api'', ''test'')]"
    by code_simp
  from evidence_targets_exact [OF sample_release_ok(1), of "EvidenceProfile ''verify''"]
  have "\<forall>t \<in> reachable (rc_actions (sample_release sample_repo_env)) [(''api'', ''test'')].
      \<exists>a. catalog_action (sample_release sample_repo_env) t = Some a \<and> read_only_check a"
    unfolding run roots sum.case sum.inject by blast
  then show ?thesis using run by blast
qed

end
