(* ===== verification/Spec2Isabelle.thy ===== *)
theory Spec2Isabelle
  imports Budget_Evaluation Planner
begin

text \<open>
  A verification development of Jig, a repository harness written in Rust (\<open>src/crates\<close>).
  It models the two pure engines of the program as executable functions and proves what
  makes them correct: the file-budget engine (\<open>jig-file-budget\<close>), which decides whether the
  files of a repository may grow, and the repository engine (\<open>jig-repository\<close> with the
  records and rules of \<open>jig-contract\<close>, \<open>jig-context\<close> and \<open>jig-rust\<close> it is made of), which
  admits a catalog of actions and decides which of them a request runs.

  \<^bold>\<open>How the parts interact.\<close> A file-budget policy is parsed and validated; a file is
  measured by a bounded read loop; the evaluation compares the measurements of a change with
  the rules, the waivers and the previous state and yields sorted diagnostics; a change
  passes when none is an error. A repository catalog is admitted from the components,
  actions and profiles of a native contract, or projected from the tools of a legacy one.
  A request selects actions of an admitted catalog, affected selection narrows them to those
  that changed paths concern, their dependencies are added, the read-only gate decides
  whether they may run as checks, and the result is a plan of targets in layers. A work gate
  names the targets whose evidence it requires in the same catalog.

  \<^bold>\<open>The theories, in the order of their imports.\<close>

  \<^item> \<open>Jig_Prelude\<close>: the part of Rust's standard library that the crates use (strings as byte
    lists, \<open>u64\<close> as 64-bit words with saturating and checked arithmetic, UTF-8, trimming,
    splitting, hexadecimal text) and the lemmas on them.
  \<^item> \<open>Ordered_Map\<close>: \<open>BTreeMap\<close> and \<open>BTreeSet\<close> as sorted lists. The locales \<open>ordered_map\<close> and
    \<open>ordered_set\<close> state their laws; the interpretations \<open>bt\<close> and \<open>bs\<close> carry the lemmas on
    indexes to the components.
  \<^item> \<open>Budget_Measurement\<close>, \<open>Budget_Diagnostic\<close>, \<open>Budget_Policy\<close>, \<open>Budget_Validation\<close>,
    \<open>Budget_Waiver\<close> and \<open>Budget_Evaluation\<close>: \<open>measurement.rs\<close>, \<open>diagnostic.rs\<close>, \<open>policy.rs\<close>
    with \<open>policy/identity.rs\<close>, \<open>policy/validation.rs\<close>, \<open>evaluation/waiver.rs\<close> and
    \<open>evaluation.rs\<close> of \<open>jig-file-budget\<close>. They show that the read loop stays within its
    budget and measures exactly, that dates round trip, which policies are accepted and what
    an accepted policy guarantees, that diagnostics are totally ordered with errors first,
    exactly when an evaluation passes, and that along passing evaluations debt never grows.
  \<^item> \<open>Contract\<close>: the records of \<open>jig-contract\<close> (\<open>repository.rs\<close>, \<open>cargo.rs\<close>, \<open>rust_focus.rs\<close>,
    \<open>resources.rs\<close>, \<open>run.rs\<close>), identifiers and the target syntax, with its round trip.
  \<^item> \<open>Repository_Path\<close> (\<open>jig-context/src/repository_path.rs\<close>): normal forms of paths and the
    refusal of symbolic links, with the file system as a function from paths to metadata.
  \<^item> \<open>Rust_Focus\<close> (\<open>jig-rust/src/rust_focus.rs\<close>): normalisation of a focus and the Nextest
    command line, into which no value can inject an option.
  \<^item> \<open>Actions\<close> (\<open>arguments.rs\<close>, \<open>runners.rs\<close>, \<open>planner/resources.rs\<close> of \<open>jig-repository\<close>,
    \<open>inputs_policy.rs\<close> and \<open>migration.rs\<close> of \<open>jig-context\<close>): arguments, runners, resources
    and native configuration of one action.
  \<^item> \<open>Dependency_Graph\<close>: the graph loops that the repository engine shares: layers, the walk
    to a cycle, and the closure of a set with a stack. The locales \<open>worklist\<close> and
    \<open>worklist_loop\<close> prove once that such a loop ends and computes reachability.
  \<^item> \<open>Catalog\<close> (\<open>lib.rs\<close>, path policy of \<open>affected.rs\<close>): selectors, admission of a catalog,
    dependency validation and the read-only gate. \<open>Legacy_Catalog\<close> (\<open>legacy.rs\<close> and the rest
    of \<open>lib.rs\<close>): the projection of legacy tools.
  \<^item> \<open>Affected\<close> (\<open>affected.rs\<close>, \<open>affected/target_matcher.rs\<close>): affected selection and the
    digests of selection reasons.
  \<^item> \<open>Planner\<close> (\<open>planner.rs\<close>, \<open>evidence.rs\<close>): from a request to a run plan, through the
    normalised selectors, the profile, affected selection, the closure under dependencies
    (an interpretation of \<open>worklist_loop\<close>), the gate of the policy, the bound arguments, the
    layers and the bounded selection reasons; and the targets of a work gate's evidence. The
    lemmas follow the stages: each keeps a selection of defined targets with disjoint,
    ordered reasons (\<open>catalog_selection\<close>, \<open>reasons_ok\<close>), on which the next cannot fail. They
    show that a plan for checks has only read-only checks, that effects need selectors, that
    plans are complete and schedulable, that the truncated reasons are those of the full
    list, and that no internal error occurs. A plan here has no prepared input of a native
    runner; its JSON text, which its identifier digests, is an argument.

  \<^bold>\<open>Conventions.\<close> A struct is a record, an enum a datatype; \<open>Result\<close> is a sum with the error on
  the left, and a check that returns \<open>Result<()>\<close> is an option with the error in it. An error
  value carries the data of the message, not its text, except where the text is data of a
  diagnostic. A failed \<open>expect\<close> is an error value of its own. Mutable arguments are passed and
  returned; a stack is a list with its top first. \<open>usize\<close> is \<open>nat\<close> where it only indexes or
  measures a value in memory and a 64-bit word where it is added up.

  \<^bold>\<open>Parameters.\<close> Third-party code is a field of the records \<open>budget_env\<close> and \<open>repo_env\<close> (JSON,
  TOML, SHA-256, glob matching) or an argument (the file system, the reader of a stream). What a
  property needs of it is a hypothesis: that a SHA-256 digest has 32 bytes, or the laws of
  literal globs; the witnesses instantiate the records with concrete functions.

  \<^bold>\<open>Loops and bounds.\<close> The read loop may run forever with a reader that never ends and is a
  partial function into \<open>option\<close>; the properties state that it returns. Every other loop is a
  total function with a termination proof: the stack loops by the records not yet seen and
  the length of the stack, the layers by the records that remain. No fuel is used. The
  constants of the code (100 selection reasons, 64 bytes of an identifier, 4096 bytes of a
  token, the hard caps of a budget) are definitions with the code's values.

  \<^bold>\<open>Not modelled.\<close> What reads or changes the outside world: source identity and changed paths
  from Git, Cargo discovery and impact, preparation of native inputs and execution
  (\<open>jig-repository\<close>, \<open>jig-execution\<close>, \<open>jig-owned-process\<close>, \<open>jig-git\<close>), loading of the
  configuration (\<open>jig-context\<close>), state files (\<open>jig-state\<close>), the vault (\<open>jig-vault\<close>), loops
  (\<open>jig-loops\<close>), the development proxy (\<open>jig-dev-proxy\<close>), bootstrap (\<open>jig-bootstrap\<close>),
  policy checks (\<open>jig-policy\<close>), the command line and the terminal interfaces. They are
  input and output, cryptography or processes around libraries that the sources only call.
\<close>

section \<open>The file-budget gate, end to end\<close>

lemma not_exceeds_cases:
  assumes "\<not> exceeds current comparison maximum ceiling" and "maximum = Some limit"
  shows "(\<forall>c. ceiling = Some c \<longrightarrow> current \<le> c) \<and>
    (current \<le> limit \<or> (\<exists>c. ceiling = Some c \<and> current \<le> c) \<or>
     (\<exists>b. comparison = Some b \<and> current \<le> b))"
  using assms by (auto simp: exceeds_def not_less split: option.splits)

lemma accepted_waiver_for:
  assumes "glob_laws env" and "parse_policy env bytes date = Inr policy"
    and "waiver_for policy rule path = Some w"
  shows "w \<in> set (p_waivers policy) \<and> w_rule w = rule \<and> w_path w = path \<and> \<not> expired_on date w"
proof -
  obtain dto raw ws where policy: "policy = built_policy env dto raw ws" and ok: "authority_ok env dto date ws"
    using parse_policy_built [OF assms(1,2)] by metis
  have "find (\<lambda>w. w_rule w = rule \<and> w_path w = path) ws = Some w"
    using assms(3) built_policy_lookup(2) [OF ok] by (simp add: policy)
  from find_Some_in [OF this] ok show ?thesis
    by (auto simp: policy authority_ok_def list_all_iff waiver_ok_def)
qed

text \<open>What the gate allows a metric of a governed file to be.\<close>

definition metric_allowed ::
  "EvaluationInputV1 \<Rightarrow> RuleV1 \<Rightarrow> string \<Rightarrow> (WaiverV1 \<Rightarrow> u64 option) \<Rightarrow> u64 option \<Rightarrow> u64 \<Rightarrow> u64 option \<Rightarrow> bool" where
  "metric_allowed input rule path ceiling maximum current comparison \<longleftrightarrow>
     (\<forall>limit. maximum = Some limit \<longrightarrow>
        current \<le> limit \<or>
        (\<exists>w c. w \<in> set (p_waivers (in_policy input)) \<and> w_rule w = r_id rule \<and> w_path w = path \<and>
           \<not> date_less (w_expires w) (in_current_date input) \<and> ceiling w = Some c \<and> current \<le> c) \<or>
        (\<exists>b. comparison = Some b \<and> current \<le> b))"

lemma metric_allowed_if_not_exceeds:
  assumes "\<not> exceeds current comparison maximum (Option.bind w ceiling)"
    and "\<And>v. w = Some v \<Longrightarrow> v \<in> set (p_waivers (in_policy input)) \<and> w_rule v = r_id rule \<and>
      w_path v = path \<and> \<not> date_less (w_expires v) (in_current_date input)"
  shows "metric_allowed input rule path ceiling maximum current comparison"
  using not_exceeds_cases [OF assms(1)] assms(2)
  by (fastforce simp: metric_allowed_def bind_eq_Some_conv)

text \<open>
  C9. The gate is sound from the bytes of the policy to the verdict. When the bytes of the
  policy are accepted on the date of the evaluation and the evaluation passes, every
  governed file is a regular file, and each metric the rule bounds is within the maximum,
  or within the ceiling of an unexpired waiver of the policy for exactly this rule and
  path, or no larger than the comparison measurement.
\<close>

theorem budget_gate_sound:
  assumes "glob_laws env"
    and "parse_policy_v1 env bytes (in_current_date input) = Inr (in_policy input)"
    and "passed (evaluate_v1 env input)"
    and "f \<in> set (in_files input)"
    and "classify_path env (in_policy input) (ef_current_path f) = Inr (Governed rule)"
  shows "\<exists>m. ef_current f = Regular m \<and>
    metric_allowed input rule (ef_current_path f) w_ceiling_lines (r_max_lines rule) (m_lines m)
      (map_option m_lines (ef_comparison f)) \<and>
    metric_allowed input rule (ef_current_path f) w_ceiling_bytes (r_max_bytes rule) (m_bytes m)
      (map_option m_bytes (ef_comparison f))"
proof -
  let ?w = "effective_waiver (in_policy input) [] rule (ef_current_path f)"
  have "\<not> file_fails env (in_policy input) [] f" using assms(3,4) by (simp add: passed_iff)
  then obtain m where m: "ef_current f = Regular m" "\<not> metrics_exceed f rule ?w m"
    using assms(5) by (auto simp: file_fails_def split: CurrentFileStateV1.splits)
  have "v \<in> set (p_waivers (in_policy input)) \<and> w_rule v = r_id rule \<and> w_path v = ef_current_path f \<and>
      \<not> date_less (w_expires v) (in_current_date input)" if "?w = Some v" for v
    using accepted_waiver_for [OF assms(1) assms(2) [unfolded parse_policy_v1_def]] that
    by (auto simp: effective_waiver_def expired_on_def split: option.splits)
  with m show ?thesis
    by (auto simp: metrics_exceed_def intro!: metric_allowed_if_not_exceeds)
qed

theorem budget_gate_sound_witness:
  "\<exists>m. ef_current (sample_file 120 None) = Regular m \<and>
    metric_allowed (sample_input [sample_file 120 None] Absent) sample_rule ''src/big'' w_ceiling_lines
      (Some 100) (m_lines m) None"
proof -
  let ?input = "sample_input [sample_file 120 None] Absent"
  have facts: "ef_current_path (sample_file 120 None) = ''src/big''" "ef_comparison (sample_file 120 None) = None"
    "ef_baseline_path (sample_file 120 None) = None"
    "ef_current (sample_file 120 None) = Regular \<lparr>m_lines = 120, m_bytes = 10\<rparr>"
    by (simp_all add: sample_file_def)
  have pol: "in_policy ?input = sample_built" "in_files ?input = [sample_file 120 None]"
    by (simp_all add: sample_input_def)
  have "effective_waiver sample_built [] sample_rule ''src/big'' = Some sample_waiver"
    using sample_waiver_for by (simp add: effective_waiver_def sample_rule_def)
  then have "\<not> file_fails sample_env sample_built [] (sample_file 120 None)"
    by (simp add: file_fails_def facts sample_built_classify metrics_exceed_def exceeds_def)
      (simp add: sample_rule_def sample_waiver_def)
  then have "passed (evaluate_v1 sample_env ?input)"
    using sample_admissible [of "[sample_file 120 None]"] by (simp add: passed_iff pol)
  moreover have "parse_policy_v1 sample_env [] (in_current_date ?input) = Inr (in_policy ?input)"
    using sample_parse by (simp add: sample_input_def sample_built_def)
  ultimately show ?thesis
    using budget_gate_sound [of sample_env "[]" ?input "sample_file 120 None" sample_rule] sample_built_classify
    by (simp add: facts pol) (simp add: sample_rule_def)
qed

end
